(* ===== verification/Prelude.thy ===== *)
theory Prelude
  imports Main "HOL-Library.Word" "HOL-Library.Code_Target_Numeral"
begin

text \<open>
  What every component of the banking system shares: the machine types of the C code (LP64,
  little-endian, as the Makefile's gcc on x86-64 Linux gives them), the result of running a piece
  of C, the byte image of an integer in memory, and the byte order of the network.

  A C function is a HOL function into \<open>'a run\<close>: \<open>Ret\<close> of its results (return value, out
  parameters, changed state), or \<open>Fault\<close> where the C execution leaves defined behaviour or
  cannot go on. Faults are values, so that every claim that the code is safe is a theorem that
  \<open>Ret\<close> comes back, and every claim that it is not is a theorem that \<open>Fault\<close> does.
\<close>

section \<open>Types and hint collections\<close>

type_synonym byte = "8 word"
type_synonym u16 = "16 word"
type_synonym u32 = "32 word"
type_synonym size_t = "64 word"
type_synonym f64 = "64 word" \<comment> \<open>the bits of a C \<open>double\<close>; read by theory \<open>Ieee_Double\<close>\<close>

named_theorems run_simps \<open>how a run unfolds\<close>
named_theorems width_simps \<open>sizes of byte images\<close>
named_theorems roundtrip_simps \<open>decoding undoes encoding\<close>

section \<open>Runs of C code\<close>

datatype fault =
    Over_Read        \<comment> \<open>a read outside the object, or of a string with no terminator in it\<close>
  | Over_Write       \<comment> \<open>a write outside the object\<close>
  | Bad_Mutex        \<comment> \<open>a mutex that is not initialised\<close>
  | Self_Deadlock    \<comment> \<open>locking a mutex that is already held: the call never returns\<close>
  | Not_Owner        \<comment> \<open>unlocking a mutex that is not held\<close>
  | Null_Pointer     \<comment> \<open>a null pointer passed where an object is needed\<close>
  | Int_Overflow     \<comment> \<open>a signed addition or multiplication whose result does not fit the type\<close>

datatype 'a run = Fault fault | Ret 'a

fun bind_run :: "'a run \<Rightarrow> ('a \<Rightarrow> 'b run) \<Rightarrow> 'b run" where
  "bind_run (Fault e) f = Fault e"
| "bind_run (Ret x) f = f x"

lemma bind_run_eq_Ret [run_simps]:
  "bind_run m f = Ret y \<longleftrightarrow> (\<exists>x. m = Ret x \<and> f x = Ret y)"
  by (cases m) auto

lemma bind_run_eq_Fault:
  "bind_run m f = Fault e \<longleftrightarrow> m = Fault e \<or> (\<exists>x. m = Ret x \<and> f x = Fault e)"
  by (cases m) auto

lemma bind_run_assoc: "bind_run (bind_run m f) g = bind_run m (\<lambda>x. bind_run (f x) g)"
  by (cases m) auto

text \<open>
  A run is \<open>guarded\<close> by a postcondition when it either reads outside an object or returns a value with
  the postcondition: whatever its input made it read, it wrote nothing out of place and hung on no lock.
\<close>

definition guarded :: "('a \<Rightarrow> bool) \<Rightarrow> 'a run \<Rightarrow> bool" where
  "guarded P m \<longleftrightarrow> (case m of Fault e \<Rightarrow> e = Over_Read | Ret x \<Rightarrow> P x)"

lemma guarded_simps [simp]: "guarded P (Ret x) = P x" "guarded P (Fault e) \<longleftrightarrow> e = Over_Read"
  by (simp_all add: guarded_def)

lemma guarded_bind:
  "guarded P m \<Longrightarrow> (\<And>x. P x \<Longrightarrow> guarded Q (f x)) \<Longrightarrow> guarded Q (bind_run m f)"
  by (cases m) auto

lemma guarded_mono: "guarded P m \<Longrightarrow> (\<And>x. P x \<Longrightarrow> Q x) \<Longrightarrow> guarded Q m"
  by (cases m) auto

section \<open>Signed arithmetic\<close>

text \<open>
  The result of an operation on \<open>int\<close> or \<open>long\<close>: the mathematical one where the type holds it; outside of
  it C defines nothing.
\<close>

definition C_INT_MAX :: int where "C_INT_MAX = 2147483647"
definition C_LONG_MAX :: int where "C_LONG_MAX = 9223372036854775807"

definition int_result :: "int \<Rightarrow> int run" where
  "int_result v = (if - C_INT_MAX - 1 \<le> v \<and> v \<le> C_INT_MAX then Ret v else Fault Int_Overflow)"

definition long_result :: "int \<Rightarrow> int run" where
  "long_result v = (if - C_LONG_MAX - 1 \<le> v \<and> v \<le> C_LONG_MAX then Ret v else Fault Int_Overflow)"

lemma int_result_nonneg: "0 \<le> v \<Longrightarrow> int_result v = (if v \<le> C_INT_MAX then Ret v else Fault Int_Overflow)"
  by (simp add: int_result_def C_INT_MAX_def)

lemma long_result_nonneg: "0 \<le> v \<Longrightarrow> long_result v = (if v \<le> C_LONG_MAX then Ret v else Fault Int_Overflow)"
  by (simp add: long_result_def C_LONG_MAX_def)

section \<open>Integers in memory\<close>

text \<open>
  \<open>le_bytes k n\<close> is the little-endian image of \<open>n\<close> in \<open>k\<close> bytes, \<open>le_nat\<close> reads it back.
\<close>

fun le_bytes :: "nat \<Rightarrow> nat \<Rightarrow> byte list" where
  "le_bytes 0 n = []"
| "le_bytes (Suc k) n = word_of_nat (n mod 256) # le_bytes k (n div 256)"

fun le_nat :: "byte list \<Rightarrow> nat" where
  "le_nat [] = 0"
| "le_nat (b # bs) = unat b + 256 * le_nat bs"

lemma length_le_bytes [simp, width_simps]: "length (le_bytes k n) = k"
  by (induction k arbitrary: n) auto

lemma unat_byte_less [simp]: "unat (b :: byte) < 256"
  using unsigned_less [of b, where ?'a = nat] by simp

lemma unat_u32_less: "unat (w :: u32) < 2 ^ 32"
  using unsigned_less [of w, where ?'a = nat] by simp

lemma unat_byte_of_nat [simp]: "unat (word_of_nat n :: byte) = n mod 256"
  by (simp add: unat_of_nat)

lemma le_nat_less: "le_nat bs < 256 ^ length bs"
proof (induction bs)
  case (Cons b bs)
  have "unat b \<le> 255" using unat_byte_less [of b] by linarith
  moreover have "le_nat bs + 1 \<le> 256 ^ length bs" using Cons.IH by simp
  then have "256 * le_nat bs + 256 \<le> 256 * 256 ^ length bs" by linarith
  ultimately show ?case by simp
qed simp

lemma le_nat_le_bytes [roundtrip_simps]: "le_nat (le_bytes k n) = n mod 256 ^ k"
proof (induction k arbitrary: n)
  case (Suc k)
  have "n mod (256 * 256 ^ k) = n mod 256 + 256 * (n div 256 mod 256 ^ k)"
    by (simp add: mod_mult2_eq)
  then show ?case using Suc.IH by simp
qed simp

lemma le_bytes_le_nat [roundtrip_simps]: "le_bytes (length bs) (le_nat bs) = bs"
  by (induction bs) simp_all

text \<open>The image of a word of each width, and the word an image holds.\<close>

definition bytes16 :: "u16 \<Rightarrow> byte list" where "bytes16 w = le_bytes 2 (unat w)"
definition bytes32 :: "u32 \<Rightarrow> byte list" where "bytes32 w = le_bytes 4 (unat w)"
definition bytes64 :: "64 word \<Rightarrow> byte list" where "bytes64 w = le_bytes 8 (unat w)"
definition word16 :: "byte list \<Rightarrow> u16" where "word16 bs = word_of_nat (le_nat bs)"
definition word32 :: "byte list \<Rightarrow> u32" where "word32 bs = word_of_nat (le_nat bs)"
definition word64 :: "byte list \<Rightarrow> 64 word" where "word64 bs = word_of_nat (le_nat bs)"

lemma length_bytes [simp, width_simps]:
  "length (bytes16 w) = 2" "length (bytes32 v) = 4" "length (bytes64 x) = 8"
  by (simp_all add: bytes16_def bytes32_def bytes64_def)

lemma word_bytes [simp, roundtrip_simps]:
  "word16 (bytes16 w) = w" "word32 (bytes32 v) = v" "word64 (bytes64 x) = x"
  using unsigned_less [of w, where ?'a = nat] unsigned_less [of v, where ?'a = nat]
    unsigned_less [of x, where ?'a = nat]
  by (simp_all add: word16_def bytes16_def word32_def bytes32_def word64_def bytes64_def
      le_nat_le_bytes)

lemma bytes_word [roundtrip_simps]:
  "length bs = 2 \<Longrightarrow> bytes16 (word16 bs) = bs"
  "length bs = 4 \<Longrightarrow> bytes32 (word32 bs) = bs"
  "length bs = 8 \<Longrightarrow> bytes64 (word64 bs) = bs"
  using le_nat_less [of bs] le_bytes_le_nat [of bs]
  by (auto simp: word16_def bytes16_def word32_def bytes32_def word64_def bytes64_def unat_of_nat)

lemma unat_word64: "n < 2 ^ 64 \<Longrightarrow> unat (word_of_nat n :: 64 word) = n"
  by (simp add: unat_of_nat)

section \<open>Network byte order\<close>

text \<open>
  On a little-endian host \<open>htonl\<close>, \<open>ntohl\<close>, \<open>htons\<close> and \<open>ntohs\<close> reverse the bytes.
\<close>

definition htonl :: "u32 \<Rightarrow> u32" where "htonl w = word32 (rev (bytes32 w))"
definition ntohl :: "u32 \<Rightarrow> u32" where "ntohl w = word32 (rev (bytes32 w))"
definition htons :: "u16 \<Rightarrow> u16" where "htons w = word16 (rev (bytes16 w))"
definition ntohs :: "u16 \<Rightarrow> u16" where "ntohs w = word16 (rev (bytes16 w))"

lemma ntoh_hton [simp, roundtrip_simps]: "ntohl (htonl w) = w" "ntohs (htons v) = v"
  by (simp_all add: ntohl_def htonl_def ntohs_def htons_def bytes_word)

lemma hton_ntoh [simp, roundtrip_simps]: "htonl (ntohl w) = w" "htons (ntohs v) = v"
  by (simp_all add: ntohl_def htonl_def ntohs_def htons_def bytes_word)

lemma htons_inject [simp]: "htons a = htons b \<longleftrightarrow> a = b"
  by (metis ntoh_hton(2))

section \<open>Lists\<close>

text \<open>
  \<open>put_bytes dst src\<close> is \<open>dst\<close> after \<open>memcpy\<close> of \<open>src\<close> to its start, for \<open>src\<close> not longer.
\<close>

definition put_bytes :: "'a list \<Rightarrow> 'a list \<Rightarrow> 'a list" where
  "put_bytes dst src = src @ drop (length src) dst"

lemma length_put_bytes [simp, width_simps]:
  "length src \<le> length dst \<Longrightarrow> length (put_bytes dst src) = length dst"
  by (simp add: put_bytes_def)

lemma put_bytes_full [simp]: "length src = length dst \<Longrightarrow> put_bytes dst src = src"
  by (simp add: put_bytes_def)

lemma take_put_bytes [simp]: "take (length src) (put_bytes dst src) = src"
  by (simp add: put_bytes_def)

lemma map_of_list_update:
  "distinct (map fst ps) \<Longrightarrow> i < length ps \<Longrightarrow>
     map_of (ps[i := (fst (ps ! i), v)]) = (map_of ps)(fst (ps ! i) \<mapsto> v)"
proof (induction ps arbitrary: i)
  case (Cons p ps)
  show ?case
  proof (cases i)
    case (Suc j)
    then have "fst p \<noteq> fst (ps ! j)" using Cons.prems nth_mem [of j ps] by (metis distinct.simps(2) length_Cons list.map(2)
        not_less_eq nth_map nth_mem length_map)
    then show ?thesis using Cons Suc by (cases p) (auto simp: fun_upd_twist)
  qed (cases p, simp add: fun_eq_iff)
qed simp

lemma map_of_snoc: "k \<notin> fst ` set ps \<Longrightarrow> map_of (ps @ [(k, v)]) = (map_of ps)(k \<mapsto> v)"
  by (induction ps) (auto simp: fun_upd_twist)

section \<open>Implementations of a specification\<close>

text \<open>
  A component is a step function into runs; its specification is a total function on an abstract
  state. The contract \<open>implements\<close> says that from a well-formed state every valid operation returns,
  in a well-formed state, with the abstract effect and the result of the specification. What it
  gives for whole histories of operations is proved here, once.
\<close>

fun run_steps :: "('s \<Rightarrow> 'o \<Rightarrow> ('s \<times> 'r) run) \<Rightarrow> 's \<Rightarrow> 'o list \<Rightarrow> ('s \<times> 'r list) run" where
  "run_steps step s [] = Ret (s, [])"
| "run_steps step s (x # xs) = bind_run (step s x) (\<lambda>(s', r).
     bind_run (run_steps step s' xs) (\<lambda>(s'', rs). Ret (s'', r # rs)))"

fun run_spec :: "('a \<Rightarrow> 'o \<Rightarrow> 'a \<times> 'r) \<Rightarrow> 'a \<Rightarrow> 'o list \<Rightarrow> 'a \<times> 'r list" where
  "run_spec spec a [] = (a, [])"
| "run_spec spec a (x # xs) = (let (a', r) = spec a x; (a'', rs) = run_spec spec a' xs in (a'', r # rs))"

lemma run_spec_snoc:
  "run_spec spec a xs = (a', rs) \<Longrightarrow> spec a' x = (a'', r) \<Longrightarrow> run_spec spec a (xs @ [x]) = (a'', rs @ [r])"
  by (induction xs arbitrary: a rs) (auto simp: Let_def split: prod.splits)

lemma run_spec_invariant:
  assumes "\<And>a x. x \<in> set xs \<Longrightarrow> I a \<Longrightarrow> I (fst (spec a x))" "I a"
  shows "I (fst (run_spec spec a xs))"
  using assms by (induction xs arbitrary: a) (force simp: Let_def split: prod.splits)+

locale implements =
  fixes wf :: "'s \<Rightarrow> bool" and abs :: "'s \<Rightarrow> 'a" and valid :: "'o \<Rightarrow> bool"
    and step :: "'s \<Rightarrow> 'o \<Rightarrow> ('s \<times> 'r) run" and spec :: "'a \<Rightarrow> 'o \<Rightarrow> 'a \<times> 'r"
  assumes step_implements: "wf s \<Longrightarrow> valid x \<Longrightarrow>
    \<exists>s' r. step s x = Ret (s', r) \<and> wf s' \<and> spec (abs s) x = (abs s', r)"
begin

lemma run_implements:
  assumes "wf s" "\<forall>x\<in>set xs. valid x"
  shows "\<exists>s' rs. run_steps step s xs = Ret (s', rs) \<and> wf s' \<and> run_spec spec (abs s) xs = (abs s', rs)"
  using assms
proof (induction xs arbitrary: s)
  case (Cons x xs)
  obtain s' r where s': "step s x = Ret (s', r)" "wf s'" "spec (abs s) x = (abs s', r)"
    using step_implements [of s x] Cons.prems by auto
  then show ?case using Cons.IH [of s'] Cons.prems(2) by auto
qed simp

lemma run_invariant:
  assumes "wf s" "\<forall>x\<in>set xs. valid x" "I (abs s)"
    and "\<And>a x. valid x \<Longrightarrow> I a \<Longrightarrow> I (fst (spec a x))"
    and "run_steps step s xs = Ret (s', rs)"
  shows "wf s' \<and> I (abs s')"
  using run_implements [OF assms(1,2)] run_spec_invariant [of xs I spec "abs s"] assms(2-5) by force

end

end
