(* ===== verification/C_Memory.thy ===== *)
theory C_Memory
  imports Prelude
begin

text \<open>
  The part of the C library the system uses on arrays of \<open>char\<close>: \<open>strcmp\<close>, \<open>strncpy\<close>,
  \<open>strcpy\<close>, the reading of a \<open>%s\<close> argument, \<open>snprintf\<close> into a bounded buffer and \<open>%d\<close>.
  An object is the list of its bytes. A function that runs past the end of the object it reads is
  the fault \<open>Over_Read\<close>, one that runs past the end of the object it writes is \<open>Over_Write\<close>:
  an array with no terminator is an ordinary value here, and what happens to it is a theorem.
\<close>

section \<open>Strings\<close>

definition chars :: "string \<Rightarrow> byte list" where
  "chars s = map of_char s"

text \<open>The characters of the string an object holds, as \<open>strlen\<close> or \<open>%s\<close> walk them.\<close>

fun c_str :: "byte list \<Rightarrow> byte list run" where
  "c_str [] = Fault Over_Read"
| "c_str (b # bs) = (if b = 0 then Ret [] else bind_run (c_str bs) (\<lambda>s. Ret (b # s)))"

fun c_strcmp :: "byte list \<Rightarrow> byte list \<Rightarrow> int run" where
  "c_strcmp [] ys = Fault Over_Read"
| "c_strcmp (x # xs) [] = Fault Over_Read"
| "c_strcmp (x # xs) (y # ys) =
     (if x \<noteq> y then Ret (int (unat x) - int (unat y))
      else if x = 0 then Ret 0 else c_strcmp xs ys)"

text \<open>The \<open>n\<close> bytes \<open>strncpy\<close> writes: the string, cut at \<open>n\<close> or padded with zeros.\<close>

fun strncpy_image :: "byte list \<Rightarrow> nat \<Rightarrow> byte list run" where
  "strncpy_image [] n = (if n = 0 then Ret [] else Fault Over_Read)"
| "strncpy_image (b # bs) n =
     (if n = 0 then Ret []
      else if b = 0 then Ret (replicate n 0)
      else bind_run (strncpy_image bs (n - 1)) (\<lambda>s. Ret (b # s)))"

definition c_write :: "byte list \<Rightarrow> byte list \<Rightarrow> byte list run" where
  "c_write dst s = (if length s \<le> length dst then Ret (put_bytes dst s) else Fault Over_Write)"

definition c_strncpy :: "byte list \<Rightarrow> byte list \<Rightarrow> nat \<Rightarrow> byte list run" where
  "c_strncpy dst src n = bind_run (strncpy_image src n) (c_write dst)"

definition c_strcpy :: "byte list \<Rightarrow> byte list \<Rightarrow> byte list run" where
  "c_strcpy dst src = bind_run (c_str src) (\<lambda>s. c_write dst (s @ [0]))"

text \<open>\<open>snprintf (dst, sz, \<dots>)\<close> of a text already formatted, for \<open>sz > 0\<close>.\<close>

definition c_snprintf :: "byte list \<Rightarrow> nat \<Rightarrow> byte list \<Rightarrow> byte list run" where
  "c_snprintf dst sz text = c_write dst (take (sz - 1) text @ [0])"

text \<open>The string an object holds, where it holds one.\<close>

abbreviation terminated :: "byte list \<Rightarrow> bool" where
  "terminated bs \<equiv> (0 :: byte) \<in> set bs"

abbreviation string_of :: "byte list \<Rightarrow> byte list" where
  "string_of bs \<equiv> takeWhile (\<lambda>b. b \<noteq> 0) bs"

lemma length_chars [simp]: "length (chars s) = length s"
  by (simp add: chars_def)

lemma c_str_terminated [simp]: "terminated bs \<Longrightarrow> c_str bs = Ret (string_of bs)"
  by (induction bs) auto

lemma c_str_unterminated [simp]: "\<not> terminated bs \<Longrightarrow> c_str bs = Fault Over_Read"
  by (induction bs) auto

lemma string_of_no_nul [simp]: "0 \<notin> set (string_of bs)"
  by (auto dest: set_takeWhileD)

lemma string_of_shorter: "terminated bs \<Longrightarrow> length (string_of bs) < length bs"
  by (induction bs) auto

lemma string_of_append_nul [simp]:
  "0 \<notin> set s \<Longrightarrow> string_of (s @ 0 # rest) = s"
  by (induction s) auto

lemma string_of_idem [simp]: "0 \<notin> set s \<Longrightarrow> string_of s = s"
  by (induction s) auto

lemma c_strcmp_terminated:
  assumes "terminated xs" "terminated ys"
  shows "\<exists>c. c_strcmp xs ys = Ret c \<and> (c = 0 \<longleftrightarrow> string_of xs = string_of ys)"
  using assms
proof (induction xs ys rule: c_strcmp.induct)
  case (3 x xs y ys)
  then show ?case by (cases "x = y") (auto simp: unsigned_eq_0_iff simp flip: word_uint_eq_iff)
qed auto

lemma c_strcmp_bounded:
  assumes "terminated xs" "length xs \<le> length ys"
  shows "\<exists>c. c_strcmp xs ys = Ret c \<and> (c = 0 \<longleftrightarrow> string_of xs = string_of ys)"
  using assms
proof (induction xs ys rule: c_strcmp.induct)
  case (3 x xs y ys)
  then show ?case by (cases "x = y") (auto simp: unsigned_eq_0_iff simp flip: word_uint_eq_iff)
qed auto

lemma c_strcmp_refl: "terminated xs \<Longrightarrow> c_strcmp xs xs = Ret 0"
  by (induction xs) auto

lemma strncpy_image_terminated:
  "terminated src \<Longrightarrow>
     strncpy_image src n = Ret (take n (string_of src) @ replicate (n - length (string_of src)) 0)"
proof (induction src n rule: strncpy_image.induct)
  case (2 b bs n)
  then show ?case by (cases n) auto
qed simp

lemma strncpy_image_prefix:
  "n \<le> length src \<Longrightarrow> 0 \<notin> set (take n src) \<Longrightarrow> strncpy_image src n = Ret (take n src)"
proof (induction src n rule: strncpy_image.induct)
  case (2 b bs n)
  then show ?case by (cases n) auto
qed simp

lemma strncpy_image_length: "strncpy_image src n = Ret s \<Longrightarrow> length s = n"
  by (induction src n arbitrary: s rule: strncpy_image.induct)
     (auto simp: bind_run_eq_Ret split: if_splits)

lemma c_strncpy_length:
  "c_strncpy dst src n = Ret d \<Longrightarrow> length d = length dst"
  by (auto simp: c_strncpy_def c_write_def bind_run_eq_Ret split: if_splits)

lemma strncpy_image_guarded: "guarded (\<lambda>s. length s = n) (strncpy_image src n)"
proof (induction src n rule: strncpy_image.induct)
  case (2 b bs n)
  then show ?case by (cases n) (auto intro: guarded_bind)
qed simp

lemma c_strncpy_guarded: "n \<le> length dst \<Longrightarrow> guarded (\<lambda>d. length d = length dst) (c_strncpy dst src n)"
  unfolding c_strncpy_def by (rule guarded_bind [OF strncpy_image_guarded]) (simp add: c_write_def)

lemma c_snprintf_fits:
  assumes "0 < sz" "sz \<le> length dst"
  shows "c_snprintf dst sz text =
    Ret (take (sz - 1) text @ 0 # drop (Suc (min (length text) (sz - 1))) dst)"
  using assms by (auto simp: c_snprintf_def c_write_def put_bytes_def)

text \<open>A cleared array of \<open>n\<close> bytes after a string is put in it.\<close>

definition zero_pad :: "nat \<Rightarrow> byte list \<Rightarrow> byte list" where
  "zero_pad n s = s @ replicate (n - length s) 0"

lemma length_zero_pad [simp]: "length s \<le> n \<Longrightarrow> length (zero_pad n s) = n"
  by (simp add: zero_pad_def)

lemma terminated_zero_pad [simp]: "length s < n \<Longrightarrow> terminated (zero_pad n s)"
  by (simp add: zero_pad_def)

lemma string_of_append_zeros: "0 \<notin> set s \<Longrightarrow> string_of (s @ replicate k 0) = s"
  by (cases k) simp_all

lemma string_of_zero_pad [simp]: "0 \<notin> set s \<Longrightarrow> string_of (zero_pad n s) = s"
  by (simp add: zero_pad_def string_of_append_zeros)

lemma zero_pad_snoc: "length s < n \<Longrightarrow> s @ 0 # drop (Suc (length s)) (replicate n 0) = zero_pad n s"
  by (simp add: zero_pad_def flip: replicate_Suc)

lemma c_strcpy_zeros [simp]:
  "terminated src \<Longrightarrow> length (string_of src) < n \<Longrightarrow>
     c_strcpy (replicate n 0) src = Ret (zero_pad n (string_of src))"
  by (simp add: c_strcpy_def c_write_def put_bytes_def zero_pad_snoc del: drop_replicate)

lemma c_snprintf_zeros [simp]:
  "length text < n \<Longrightarrow> c_snprintf (replicate n 0) n text = Ret (zero_pad n text)"
  by (simp add: c_snprintf_def c_write_def put_bytes_def zero_pad_snoc del: drop_replicate)

lemma c_strncpy_zeros:
  "terminated src \<Longrightarrow> c_strncpy (replicate n 0) src (n - 1) = Ret (zero_pad n (take (n - 1) (string_of src)))"
  by (auto simp: c_strncpy_def strncpy_image_terminated c_write_def put_bytes_def zero_pad_def
      min_def simp flip: replicate_add)

section \<open>Decimal digits\<close>

text \<open>The text of \<open>%d\<close> for a value that is not negative, and the value a text denotes.\<close>

fun dec_digits :: "nat \<Rightarrow> byte list" where
  "dec_digits n = (if n < 10 then [word_of_nat (48 + n)]
     else dec_digits (n div 10) @ [word_of_nat (48 + n mod 10)])"

declare dec_digits.simps [simp del]

definition c_dec :: "int \<Rightarrow> byte list" where
  "c_dec i = (if i < 0 then chars ''-'' @ dec_digits (nat (- i)) else dec_digits (nat i))"

lemma c_dec_nat: "c_dec (int n) = dec_digits n"
  by (simp add: c_dec_def)

definition dec_value :: "byte list \<Rightarrow> nat" where
  "dec_value ds = foldl (\<lambda>a d. 10 * a + (unat d - 48)) 0 ds"

lemma dec_value_snoc [simp]: "dec_value (ds @ [d]) = 10 * dec_value ds + (unat d - 48)"
  by (simp add: dec_value_def)

lemma unat_digit: "n < 10 \<Longrightarrow> unat (word_of_nat (48 + n) :: byte) = 48 + n"
  by (simp only: unat_byte_of_nat) simp

lemma dec_value_digits [roundtrip_simps]: "dec_value (dec_digits n) = n"
proof (induction n rule: dec_digits.induct)
  case (1 n)
  show ?case
  proof (cases "n < 10")
    case True
    then have "dec_digits n = [] @ [word_of_nat (48 + n)]"
      by (simp add: dec_digits.simps [of n])
    then show ?thesis using True by (simp only: dec_value_snoc unat_digit) (simp add: dec_value_def)
  next
    case False
    then have "dec_digits n = dec_digits (n div 10) @ [word_of_nat (48 + n mod 10)]"
      by (subst dec_digits.simps) simp
    with 1 [OF False] show ?thesis by (simp only: dec_value_snoc unat_digit [of "n mod 10"]) simp
  qed
qed

lemma dec_digits_range: "d \<in> set (dec_digits n) \<Longrightarrow> 48 \<le> unat d \<and> unat d \<le> 57"
proof (induction n rule: dec_digits.induct)
  case (1 n)
  show ?case
  proof (cases "n < 10")
    case True
    with 1(2) have "d = word_of_nat (48 + n)" by (subst (asm) dec_digits.simps) simp
    with True show ?thesis by (simp only: unat_digit) simp
  next
    case False
    with 1(2) have "d \<in> set (dec_digits (n div 10)) \<or> d = word_of_nat (48 + n mod 10)"
      by (subst (asm) dec_digits.simps) auto
    with 1(1) [OF False] show ?thesis
      by (elim disjE) (assumption, simp only: unat_digit [of "n mod 10"], simp)
  qed
qed

lemma dec_digits_no_nul [simp]: "0 \<notin> set (dec_digits n)"
  using dec_digits_range [of 0 n] by auto

lemma dec_digits_inject [simp]: "dec_digits m = dec_digits n \<longleftrightarrow> m = n"
  by (metis dec_value_digits)

lemma length_dec_digits:
  "10 ^ k \<le> n \<Longrightarrow> n < 10 ^ Suc k \<Longrightarrow> length (dec_digits n) = Suc k"
proof (induction k arbitrary: n)
  case 0
  then show ?case by (subst dec_digits.simps) simp
next
  case (Suc k)
  have "10 ^ k \<le> n div 10" "n div 10 < 10 ^ Suc k"
    using Suc.prems by (simp_all add: less_mult_imp_div_less div_le_mono [of "10 * 10 ^ k" n 10, simplified])
  then have "length (dec_digits (n div 10)) = Suc k" by (rule Suc.IH)
  moreover have "(1 :: nat) \<le> 10 ^ k" by simp
  then have "\<not> n < 10" using Suc.prems(1) by (simp only: power_Suc)
  ultimately show ?case by (subst dec_digits.simps) simp
qed

end
