(* ===== verification/Ieee_Double.thy ===== *)
theory Ieee_Double
  imports C_Memory
begin

text \<open>
  The C type \<open>double\<close>, as the code uses it: IEEE 754 binary64 with rounding to nearest, ties to
  even. A value is its 64 bits, because the system sends and stores the bits: a sign, and a
  magnitude of 63 bits holding the exponent and the fraction. A finite magnitude denotes a
  multiple of \<open>2 ^ - 1074\<close>, so that the exact value of a finite double is an \<^typ>\<open>int\<close>
  (\<open>f64_val\<close>, in units of \<open>2 ^ - 1074\<close>), sums and differences of finite doubles are exact in that
  unit, and the only rounding is to 53 significant bits (\<open>round_mag\<close>). The operations are
  comparison, \<open>+\<close>, \<open>-\<close> and the text of \<open>%.2f\<close>.

  The bits of a NaN that \<open>+\<close> or \<open>-\<close> returns are left open by the standard; the model takes those
  of SSE2 (the first NaN operand made quiet, else the default NaN). No theorem depends on them.
\<close>

section \<open>The encoding\<close>

definition f64_sign :: "f64 \<Rightarrow> bool" where "f64_sign x \<longleftrightarrow> 2 ^ 63 \<le> unat x"
definition f64_mag :: "f64 \<Rightarrow> nat" where "f64_mag x = unat x mod 2 ^ 63"
definition f64_make :: "bool \<Rightarrow> nat \<Rightarrow> f64" where
  "f64_make s b = word_of_nat (b + (if s then 2 ^ 63 else 0))"

definition inf_mag :: nat where "inf_mag = 2047 * 2 ^ 52"

definition is_nan :: "f64 \<Rightarrow> bool" where "is_nan x \<longleftrightarrow> inf_mag < f64_mag x"
definition is_inf :: "f64 \<Rightarrow> bool" where "is_inf x \<longleftrightarrow> f64_mag x = inf_mag"
definition is_finite :: "f64 \<Rightarrow> bool" where "is_finite x \<longleftrightarrow> f64_mag x < inf_mag"

text \<open>Significand and exponent of a magnitude, and the number it denotes.\<close>

definition mag_sig :: "nat \<Rightarrow> nat" where
  "mag_sig b = (if b < 2 ^ 52 then b else 2 ^ 52 + b mod 2 ^ 52)"

definition mag_exp :: "nat \<Rightarrow> nat" where "mag_exp b = b div 2 ^ 52 - 1"

definition mag_val :: "nat \<Rightarrow> nat" where "mag_val b = mag_sig b * 2 ^ mag_exp b"

definition with_sign :: "bool \<Rightarrow> nat \<Rightarrow> int" where
  "with_sign s n = (if s then - int n else int n)"

definition f64_val :: "f64 \<Rightarrow> int" where "f64_val x = with_sign (f64_sign x) (mag_val (f64_mag x))"

lemma f64_make_parts [simp]:
  assumes "b < 2 ^ 63"
  shows "f64_mag (f64_make s b) = b" "f64_sign (f64_make s b) = s"
proof -
  have "b + (if s then 2 ^ 63 else 0) < 2 ^ 64" using assms by simp
  then have "unat (f64_make s b) = b + (if s then 2 ^ 63 else 0)"
    unfolding f64_make_def by (rule unat_word64)
  then show "f64_mag (f64_make s b) = b" "f64_sign (f64_make s b) = s"
    using assms by (simp_all add: f64_mag_def f64_sign_def)
qed

lemma f64_make_eta [simp]: "f64_make (f64_sign x) (f64_mag x) = x"
proof -
  have x: "unat x < 2 ^ 63 + 2 ^ 63" using unsigned_less [of x, where ?'a = nat] by simp
  have "unat x = f64_mag x + (if f64_sign x then 2 ^ 63 else 0)"
  proof (cases "2 ^ 63 \<le> unat x")
    case True
    with x have "unat x mod 2 ^ 63 = unat x - 2 ^ 63" by (simp add: mod_if)
    with True show ?thesis by (simp add: f64_mag_def f64_sign_def)
  next
    case False
    then show ?thesis by (simp add: f64_mag_def f64_sign_def)
  qed
  then have "f64_make (f64_sign x) (f64_mag x) = word_of_nat (unat x)"
    by (simp only: f64_make_def)
  then show ?thesis by simp
qed

lemma f64_mag_less: "f64_mag x < 2 ^ 63"
  by (simp add: f64_mag_def)

lemmas f64_make_mag [simp] = f64_make_parts [OF f64_mag_less]

lemma f64_cases: "is_nan x \<or> is_inf x \<or> is_finite x"
  by (auto simp: is_nan_def is_inf_def is_finite_def)

lemma f64_classes:
  "is_nan x \<Longrightarrow> \<not> is_inf x" "is_nan x \<Longrightarrow> \<not> is_finite x" "is_inf x \<Longrightarrow> \<not> is_finite x"
  by (auto simp: is_nan_def is_inf_def is_finite_def)

section \<open>Magnitudes are ordered as the numbers they denote\<close>

lemma mag_parts:
  assumes "f < 2 ^ 52"
  shows "mag_val (e * 2 ^ 52 + f) = (if e = 0 then f else (2 ^ 52 + f) * 2 ^ (e - 1))"
proof (cases "e = 0")
  case True
  then show ?thesis using assms by (simp add: mag_val_def mag_sig_def mag_exp_def)
next
  case False
  then have "\<not> e * 2 ^ 52 + f < 2 ^ 52" by (cases e) simp_all
  moreover have "(e * 2 ^ 52 + f) mod 2 ^ 52 = f" "(e * 2 ^ 52 + f) div 2 ^ 52 = e"
    using assms by simp_all
  ultimately show ?thesis using False by (simp only: mag_val_def mag_sig_def mag_exp_def if_False)
qed

lemma mag_val_Suc: "mag_val b < mag_val (Suc b)"
proof -
  define e f where "e = b div 2 ^ 52" and "f = b mod 2 ^ 52"
  have f: "f < 2 ^ 52" and b: "b = e * 2 ^ 52 + f" by (simp_all add: e_def f_def)
  show ?thesis
  proof (cases "Suc f < 2 ^ 52")
    case True
    have "mag_val (Suc b) = (if e = 0 then Suc f else (2 ^ 52 + Suc f) * 2 ^ (e - 1))"
      using mag_parts [OF True, of e] by (simp only: b add_Suc_right)
    moreover have "mag_val b = (if e = 0 then f else (2 ^ 52 + f) * 2 ^ (e - 1))"
      using mag_parts [OF f, of e] by (simp only: b)
    ultimately show ?thesis by simp
  next
    case False
    with f have ff: "f = 2 ^ 52 - 1" by simp
    have "Suc b = Suc e * 2 ^ 52 + 0" by (simp add: b ff)
    then have "mag_val (Suc b) = 2 ^ 52 * 2 ^ e"
      using mag_parts [of 0 "Suc e"] by (simp only: diff_Suc_1) simp
    moreover have "mag_val b = (if e = 0 then f else (2 ^ 52 + f) * 2 ^ (e - 1))"
      using mag_parts [OF f, of e] by (simp only: b)
    ultimately show ?thesis by (cases e) (simp_all add: ff)
  qed
qed

lemma mag_val_strict_mono: "strict_mono mag_val"
  by (simp add: strict_mono_Suc_iff mag_val_Suc)

lemma mag_val_less_iff [simp]: "mag_val a < mag_val b \<longleftrightarrow> a < b"
  by (rule strict_mono_less [OF mag_val_strict_mono])

lemma mag_val_le_iff [simp]: "mag_val a \<le> mag_val b \<longleftrightarrow> a \<le> b"
  by (rule strict_mono_less_eq [OF mag_val_strict_mono])

lemma mag_val_eq_iff [simp]: "mag_val a = mag_val b \<longleftrightarrow> a = b"
  by (rule strict_mono_eq [OF mag_val_strict_mono])

lemma mag_val_0 [simp]: "mag_val 0 = 0"
  by (simp add: mag_val_def mag_sig_def)

lemma mag_val_0_iff [simp]: "mag_val b = 0 \<longleftrightarrow> b = 0"
  using mag_val_eq_iff [of b 0] by simp

lemma mag_sig_less: "mag_sig b < 2 ^ 53"
proof (cases "b < 2 ^ 52")
  case False
  have "b mod 2 ^ 52 < 2 ^ 52" by simp
  with False show ?thesis by (simp only: mag_sig_def if_False) simp
qed (simp add: mag_sig_def)

section \<open>Rounding\<close>

text \<open>Bits of a number; and \<open>M / 2 ^ s\<close> rounded to the nearest integer, ties to even.\<close>

fun bitlen :: "nat \<Rightarrow> nat" where
  "bitlen n = (if n = 0 then 0 else Suc (bitlen (n div 2)))"

declare bitlen.simps [simp del]

definition rne :: "nat \<Rightarrow> nat \<Rightarrow> nat" where
  "rne M s = (let q = M div 2 ^ s; r = M mod 2 ^ s
     in if 2 ^ s < 2 * r \<or> 2 * r = 2 ^ s \<and> odd q then Suc q else q)"

text \<open>
  The magnitude nearest to \<open>M * 2 ^ k\<close>: keep 53 bits above \<open>2 ^ t\<close>. The significand may round up to
  \<open>2 ^ 53\<close>; the sum then carries into the exponent field, and past the largest finite number the
  result is infinity.
\<close>

definition round_mag :: "nat \<Rightarrow> nat \<Rightarrow> nat" where
  "round_mag M k = (if M = 0 then 0 else
     let t = bitlen M + k - 53; q = (if k \<le> t then rne M (t - k) else M * 2 ^ (k - t))
     in min (q + t * 2 ^ 52) inf_mag)"

lemma bitlen_bounds: "0 < n \<Longrightarrow> 2 ^ (bitlen n - 1) \<le> n \<and> n < 2 ^ bitlen n \<and> 0 < bitlen n"
proof (induction n rule: bitlen.induct)
  case (1 n)
  then have unfold: "bitlen n = Suc (bitlen (n div 2))" by (subst bitlen.simps) simp
  show ?case
  proof (cases "n div 2 = 0")
    case True
    then have "n = 1" using "1.prems" by simp
    then show ?thesis using unfold by (simp add: bitlen.simps [of 0])
  next
    case False
    with "1.IH" "1.prems" have "2 ^ (bitlen (n div 2) - 1) \<le> n div 2"
      "n div 2 < 2 ^ bitlen (n div 2)" "0 < bitlen (n div 2)" by simp_all
    moreover from this(3) have "2 * 2 ^ (bitlen (n div 2) - 1) = (2 :: nat) ^ bitlen (n div 2)"
      by (cases "bitlen (n div 2)") simp_all
    moreover have "2 * (n div 2) \<le> n" "n < 2 * (n div 2) + 2" by simp_all
    ultimately show ?thesis unfolding unfold by (simp only: diff_Suc_1 power_Suc) linarith
  qed
qed

text \<open>Rounding never passes an integer: the two halves of "to the nearest".\<close>

lemma rne_lower: "v * 2 ^ s \<le> M \<Longrightarrow> v \<le> rne M s"
  using div_le_mono [of "v * 2 ^ s" M "2 ^ s"] by (simp add: rne_def Let_def)

lemma rne_upper:
  assumes "M \<le> v * 2 ^ s" shows "rne M s \<le> v"
proof (cases "M mod 2 ^ s = 0")
  case True
  then show ?thesis using div_le_mono [OF assms, of "2 ^ s"] by (simp add: rne_def Let_def)
next
  case False
  have "M = M div 2 ^ s * 2 ^ s + M mod 2 ^ s" by (simp only: div_mult_mod_eq)
  with False assms have "M div 2 ^ s * 2 ^ s < v * 2 ^ s" by linarith
  then have "Suc (M div 2 ^ s) \<le> v" by simp
  then show ?thesis by (simp add: rne_def Let_def)
qed

text \<open>The exact value of a carried sum of significand and exponent field.\<close>

lemma mag_val_carry:
  assumes "q \<le> 2 ^ 53" "0 < t \<Longrightarrow> 2 ^ 52 \<le> q"
  shows "mag_val (q + t * 2 ^ 52) = q * 2 ^ t"
proof (cases "q < 2 ^ 52")
  case True
  with assms have "t = 0" by (cases t) auto
  with True show ?thesis using mag_parts [of q 0] by simp
next
  case False
  show ?thesis
  proof (cases "q = 2 ^ 53")
    case True
    have "q + t * 2 ^ 52 = (t + 2) * 2 ^ 52 + 0" by (simp add: True algebra_simps)
    then have "mag_val (q + t * 2 ^ 52) = 2 ^ 52 * 2 ^ (t + 1)"
      using mag_parts [of 0 "t + 2"] by (simp only:) simp
    then show ?thesis by (simp add: True)
  next
    case q: False
    define f where "f = q - 2 ^ 52"
    have f: "f < 2 ^ 52" "q = 2 ^ 52 + f" using False q assms(1) by (auto simp: f_def)
    have "q + t * 2 ^ 52 = Suc t * 2 ^ 52 + f" by (simp add: f(2))
    then show ?thesis using mag_parts [OF f(1), of "Suc t"] by (simp only: f(2)) simp
  qed
qed

text \<open>
  What \<open>round_mag\<close> computes, for a number that is not zero: a significand \<open>q\<close> and a scale \<open>t\<close>
  such that no multiple of \<open>2 ^ t\<close> lies strictly between the exact number and \<open>q * 2 ^ t\<close>.
\<close>

lemma round_mag_cases:
  assumes "0 < M"
  obtains q t where
    "round_mag M k = min (q + t * 2 ^ 52) inf_mag"
    "mag_val (q + t * 2 ^ 52) = q * 2 ^ t"
    "\<And>v. v * 2 ^ t \<le> M * 2 ^ k \<Longrightarrow> v \<le> q"
    "\<And>v. M * 2 ^ k \<le> v * 2 ^ t \<Longrightarrow> q \<le> v"
    "0 < t \<Longrightarrow> 2 ^ 52 \<le> q \<and> 2 ^ (52 + t) \<le> M * 2 ^ k"
proof -
  define t where "t = bitlen M + k - 53"
  define q where "q = (if k \<le> t then rne M (t - k) else M * 2 ^ (k - t))"
  note len = bitlen_bounds [OF assms]
  have scale: "v * 2 ^ t = v * 2 ^ (t - k) * 2 ^ k" if "k \<le> t" for v :: nat
    using that by (simp add: power_add [symmetric] mult.assoc)
  have scale': "M * 2 ^ k = M * 2 ^ (k - t) * 2 ^ t" if "\<not> k \<le> t"
    using that by (simp add: power_add [symmetric] mult.assoc)
  have lower: "v \<le> q" if "v * 2 ^ t \<le> M * 2 ^ k" for v
    using that scale scale' by (cases "k \<le> t") (simp_all add: q_def rne_lower)
  have upper: "q \<le> v" if "M * 2 ^ k \<le> v * 2 ^ t" for v
    using that scale scale' by (cases "k \<le> t") (simp_all add: q_def rne_upper)
  have N: "2 ^ (bitlen M - 1 + k) \<le> M * 2 ^ k" "M * 2 ^ k < 2 ^ (bitlen M + k)"
    unfolding power_add using len by simp_all
  have "(2 :: nat) ^ (bitlen M + k) \<le> 2 ^ (53 + t)" by (rule power_increasing) (simp_all add: t_def)
  then have "M * 2 ^ k \<le> 2 ^ 53 * 2 ^ t" using N(2) unfolding power_add by linarith
  then have q53: "q \<le> 2 ^ 53" by (rule upper)
  have big: "2 ^ 52 \<le> q \<and> 2 ^ (52 + t) \<le> M * 2 ^ k" if "0 < t"
  proof -
    have "bitlen M - 1 + k = 52 + t" using that len by (simp add: t_def)
    with N(1) have "2 ^ (52 + t) \<le> M * 2 ^ k" by simp
    moreover from this have "2 ^ 52 \<le> q" by (intro lower) (simp only: power_add)
    ultimately show ?thesis by simp
  qed
  show thesis
  proof (rule that [OF _ _ lower upper big])
    show "round_mag M k = min (q + t * 2 ^ 52) inf_mag"
      using assms by (simp add: round_mag_def Let_def t_def q_def)
    show "mag_val (q + t * 2 ^ 52) = q * 2 ^ t" by (rule mag_val_carry [OF q53]) (use big in blast)
  qed
qed

lemma mag_val_multiple: "t \<le> mag_exp b \<Longrightarrow> \<exists>v. mag_val b = v * 2 ^ t"
  by (rule exI [of _ "mag_sig b * 2 ^ (mag_exp b - t)"])
     (simp add: mag_val_def power_add [symmetric])

lemma mag_exp_large:
  assumes "2 ^ (52 + t) \<le> mag_val b" shows "t \<le> mag_exp b"
proof (rule ccontr)
  assume "\<not> t \<le> mag_exp b"
  then have "(2 :: nat) ^ (53 + mag_exp b) \<le> 2 ^ (52 + t)" by (intro power_increasing) auto
  moreover have "mag_val b < 2 ^ 53 * 2 ^ mag_exp b"
    unfolding mag_val_def using mag_sig_less [of b] by (intro mult_strict_right_mono) simp_all
  ultimately show False using assms by (simp only: power_add)
qed

lemma round_mag_upper:
  assumes "M * 2 ^ k \<le> mag_val b" "0 < M"
  shows "round_mag M k \<le> b"
proof (rule round_mag_cases [OF assms(2)])
  fix q t
  assume r: "round_mag M k = min (q + t * 2 ^ 52) inf_mag" "mag_val (q + t * 2 ^ 52) = q * 2 ^ t"
    and upper: "\<And>v. M * 2 ^ k \<le> v * 2 ^ t \<Longrightarrow> q \<le> v"
    and big: "0 < t \<Longrightarrow> 2 ^ 52 \<le> q \<and> 2 ^ (52 + t) \<le> M * 2 ^ k"
  have "t \<le> mag_exp b" using big assms(1) by (cases "t = 0") (auto intro!: mag_exp_large)
  then obtain v where v: "mag_val b = v * 2 ^ t" using mag_val_multiple by blast
  with upper assms(1) have "q \<le> v" by simp
  then have "mag_val (q + t * 2 ^ 52) \<le> mag_val b" using r(2) v by simp
  then show ?thesis using r(1) by (simp only: mag_val_le_iff min.coboundedI1)
qed

lemma round_mag_lower:
  assumes "mag_val b \<le> M * 2 ^ k" "0 < M" "b \<le> inf_mag"
  shows "b \<le> round_mag M k"
proof (rule round_mag_cases [OF assms(2)])
  fix q t
  assume r: "round_mag M k = min (q + t * 2 ^ 52) inf_mag" "mag_val (q + t * 2 ^ 52) = q * 2 ^ t"
    and lower: "\<And>v. v * 2 ^ t \<le> M * 2 ^ k \<Longrightarrow> v \<le> q"
    and big: "0 < t \<Longrightarrow> 2 ^ 52 \<le> q \<and> 2 ^ (52 + t) \<le> M * 2 ^ k"
  have "b \<le> q + t * 2 ^ 52"
  proof (cases "t \<le> mag_exp b")
    case True
    then obtain v where v: "mag_val b = v * 2 ^ t" using mag_val_multiple by blast
    with lower assms(1) have "v \<le> q" by simp
    then have "mag_val b \<le> mag_val (q + t * 2 ^ 52)" using r(2) v by simp
    then show ?thesis by (simp only: mag_val_le_iff)
  next
    case False
    then have "b div 2 ^ 52 < t + 1" "0 < t" by (simp_all add: mag_exp_def)
    then have "b < (t + 1) * 2 ^ 52" by (simp add: less_mult_imp_div_less div_less_iff_less_mult)
    with big \<open>0 < t\<close> show ?thesis by simp
  qed
  with assms(3) r(1) show ?thesis by simp
qed

lemma round_mag_le_inf: "round_mag M k \<le> inf_mag"
  by (simp add: round_mag_def Let_def)

lemma round_mag_0 [simp]: "round_mag 0 k = 0"
  by (simp add: round_mag_def)

lemma round_mag_exact:
  assumes "M * 2 ^ k = mag_val b" "b \<le> inf_mag"
  shows "round_mag M k = b"
proof (cases "M = 0")
  case True
  then have "b = 0" using assms(1) mag_val_0_iff [of b] by simp
  with True show ?thesis by simp
next
  case False
  then show ?thesis using round_mag_upper [of M k b] round_mag_lower [of b M k] assms by simp
qed

section \<open>Comparison and arithmetic\<close>

definition f64_key :: "f64 \<Rightarrow> int" where "f64_key x = with_sign (f64_sign x) (f64_mag x)"

definition f64_lt :: "f64 \<Rightarrow> f64 \<Rightarrow> bool" where
  "f64_lt x y \<longleftrightarrow> \<not> is_nan x \<and> \<not> is_nan y \<and> f64_key x < f64_key y"

definition f64_le :: "f64 \<Rightarrow> f64 \<Rightarrow> bool" where
  "f64_le x y \<longleftrightarrow> \<not> is_nan x \<and> \<not> is_nan y \<and> f64_key x \<le> f64_key y"

definition f64_quiet :: "f64 \<Rightarrow> f64" where
  "f64_quiet x = (if f64_mag x < 2047 * 2 ^ 52 + 2 ^ 51
     then f64_make (f64_sign x) (f64_mag x + 2 ^ 51) else x)"

definition f64_default_nan :: f64 where "f64_default_nan = f64_make True (2047 * 2 ^ 52 + 2 ^ 51)"

definition f64_neg :: "f64 \<Rightarrow> f64" where "f64_neg x = f64_make (\<not> f64_sign x) (f64_mag x)"

text \<open>A finite value over a common exponent \<open>k\<close>, so that sums of parts are sums of integers.\<close>

definition f64_part :: "nat \<Rightarrow> f64 \<Rightarrow> int" where
  "f64_part k z = with_sign (f64_sign z) (mag_sig (f64_mag z) * 2 ^ (mag_exp (f64_mag z) - k))"

definition f64_add :: "f64 \<Rightarrow> f64 \<Rightarrow> f64" where
  "f64_add x y =
    (if is_nan x then f64_quiet x
     else if is_nan y then f64_quiet y
     else if is_inf x then
       (if is_inf y \<and> f64_sign x \<noteq> f64_sign y then f64_default_nan else x)
     else if is_inf y then y
     else let k = min (mag_exp (f64_mag x)) (mag_exp (f64_mag y));
              s = f64_part k x + f64_part k y
          in if s = 0 then f64_make (f64_sign x \<and> f64_sign y) 0
             else f64_make (s < 0) (round_mag (nat \<bar>s\<bar>) k))"

definition f64_sub :: "f64 \<Rightarrow> f64 \<Rightarrow> f64" where
  "f64_sub x y = (if is_nan x then f64_quiet x else if is_nan y then f64_quiet y
     else f64_add x (f64_neg y))"

text \<open>
  The text of \<open>%.2f\<close>: the exact value in hundredths, rounded to nearest with ties to even, as glibc
  prints it.
\<close>

definition fmt_2f :: "f64 \<Rightarrow> byte list" where
  "fmt_2f x = (let e = mag_exp (f64_mag x); m = mag_sig (f64_mag x) * 100;
       c = (if 1074 \<le> e then m * 2 ^ (e - 1074) else rne m (1074 - e))
     in (if f64_sign x then chars ''-'' else []) @
        (if is_nan x then chars ''nan'' else if is_inf x then chars ''inf''
         else dec_digits (c div 100) @ chars ''.'' @
           [word_of_nat (48 + c mod 100 div 10), word_of_nat (48 + c mod 10)]))"

text \<open>Comparison of finite values is comparison of the numbers they denote.\<close>

lemma with_sign_mono:
  assumes "strict_mono f" "f 0 = (0 :: nat)"
  shows "with_sign s (f a) < with_sign u (f b) \<longleftrightarrow> with_sign s a < with_sign u b"
proof -
  have *: "- int m < int n \<longleftrightarrow> m \<noteq> 0 \<or> n \<noteq> 0" "\<not> int m < - int n" for m n by linarith+
  have "f c = 0 \<longleftrightarrow> c = 0" for c using strict_mono_eq [OF assms(1), of c 0] assms(2) by simp
  then show ?thesis
    by (simp add: with_sign_def * strict_mono_less [OF assms(1)])
qed

lemma f64_val_less_key: "f64_val x < f64_val y \<longleftrightarrow> f64_key x < f64_key y"
  unfolding f64_val_def f64_key_def by (rule with_sign_mono [OF mag_val_strict_mono mag_val_0])

lemma f64_val_le_key: "f64_val x \<le> f64_val y \<longleftrightarrow> f64_key x \<le> f64_key y"
  using f64_val_less_key [of y x] by linarith

lemma f64_lt_val: "is_finite x \<Longrightarrow> is_finite y \<Longrightarrow> f64_lt x y \<longleftrightarrow> f64_val x < f64_val y"
  by (auto simp: f64_lt_def f64_val_less_key dest: f64_classes)

lemma f64_le_val: "is_finite x \<Longrightarrow> is_finite y \<Longrightarrow> f64_le x y \<longleftrightarrow> f64_val x \<le> f64_val y"
  by (auto simp: f64_le_def f64_val_le_key dest: f64_classes)

lemma f64_lt_nan [simp]: "is_nan x \<Longrightarrow> \<not> f64_lt x y" "is_nan y \<Longrightarrow> \<not> f64_lt x y"
  by (simp_all add: f64_lt_def)

lemma f64_le_nan [simp]: "is_nan x \<Longrightarrow> \<not> f64_le x y" "is_nan y \<Longrightarrow> \<not> f64_le x y"
  by (simp_all add: f64_le_def)

lemma f64_not_lt: "\<not> is_nan x \<Longrightarrow> \<not> is_nan y \<Longrightarrow> \<not> f64_lt x y \<longleftrightarrow> f64_le y x"
  by (auto simp: f64_lt_def f64_le_def)

lemma f64_parts_0 [simp]: "f64_mag 0 = 0" "\<not> f64_sign 0"
  by (simp_all add: f64_mag_def f64_sign_def)

lemma f64_key_0 [simp]: "f64_key 0 = 0" and f64_val_0 [simp]: "f64_val 0 = 0"
  and is_finite_0 [simp]: "is_finite 0" and is_nan_0 [simp]: "\<not> is_nan 0"
  by (simp_all add: f64_key_def f64_val_def f64_mag_def is_finite_def is_nan_def inf_mag_def
      with_sign_def)

text \<open>The sum of finite values is the exact sum, rounded.\<close>

lemma f64_add_finite:
  assumes "is_finite x" "is_finite y"
  obtains M k where "int (M * 2 ^ k) = \<bar>f64_val x + f64_val y\<bar>"
    "f64_add x y = (if f64_val x + f64_val y = 0 then f64_make (f64_sign x \<and> f64_sign y) 0
       else f64_make (f64_val x + f64_val y < 0) (round_mag M k))"
proof -
  define k where "k = min (mag_exp (f64_mag x)) (mag_exp (f64_mag y))"
  define part where "part = f64_part k"
  have val: "part z * 2 ^ k = f64_val z" if "k \<le> mag_exp (f64_mag z)" for z
    using that by (simp add: part_def f64_part_def with_sign_def f64_val_def mag_val_def mult.assoc
        power_add [symmetric])
  have sum: "(part x + part y) * 2 ^ k = f64_val x + f64_val y"
    using val [of x] val [of y] by (simp add: k_def distrib_right)
  have "\<not> is_nan x" "\<not> is_nan y" "\<not> is_inf x" "\<not> is_inf y"
    using assms f64_classes by blast+
  then have "f64_add x y = (if part x + part y = 0 then f64_make (f64_sign x \<and> f64_sign y) 0
     else f64_make (part x + part y < 0) (round_mag (nat \<bar>part x + part y\<bar>) k))"
    by (simp only: f64_add_def Let_def part_def k_def if_False)
  moreover have "f64_val x + f64_val y = 0 \<longleftrightarrow> part x + part y = 0"
    "f64_val x + f64_val y < 0 \<longleftrightarrow> part x + part y < 0"
    unfolding sum [symmetric] by (simp_all add: mult_less_0_iff)
  moreover have "int (nat \<bar>part x + part y\<bar> * 2 ^ k) = \<bar>f64_val x + f64_val y\<bar>"
    unfolding sum [symmetric] by (simp add: abs_mult)
  ultimately show thesis by (intro that [of "nat \<bar>part x + part y\<bar>" k]) simp_all
qed

section \<open>Facts the account arithmetic rests on\<close>

lemma inf_mag_small: "inf_mag < 2 ^ 63" by (simp add: inf_mag_def)

lemma f64_make_class:
  assumes "b \<le> inf_mag"
  shows "f64_key (f64_make s b) = with_sign s b" "\<not> is_nan (f64_make s b)"
    "is_finite (f64_make s b) \<longleftrightarrow> b < inf_mag"
proof -
  have "b < 2 ^ 63" using assms inf_mag_small by linarith
  then show "f64_key (f64_make s b) = with_sign s b" "\<not> is_nan (f64_make s b)"
    "is_finite (f64_make s b) \<longleftrightarrow> b < inf_mag"
    using assms by (simp_all add: f64_key_def is_nan_def is_finite_def)
qed

lemma f64_eq_key:
  assumes "f64_key x = f64_key y" "f64_key x \<noteq> 0" shows "x = y"
proof -
  have "f64_sign x = f64_sign y \<and> f64_mag x = f64_mag y"
    using assms unfolding f64_key_def with_sign_def by (auto split: if_splits)
  then have "f64_make (f64_sign x) (f64_mag x) = f64_make (f64_sign y) (f64_mag y)"
    by (simp only:)
  then show ?thesis by (simp only: f64_make_eta)
qed

lemma is_nan_quiet [simp]: "is_nan x \<Longrightarrow> is_nan (f64_quiet x)"
  by (auto simp: is_nan_def f64_quiet_def inf_mag_def)

lemma is_nan_default [simp]: "is_nan f64_default_nan"
  by (simp add: is_nan_def f64_default_nan_def inf_mag_def)

lemma f64_neg_simps [simp]:
  "is_nan (f64_neg x) \<longleftrightarrow> is_nan x" "is_inf (f64_neg x) \<longleftrightarrow> is_inf x"
  "is_finite (f64_neg x) \<longleftrightarrow> is_finite x" "f64_sign (f64_neg x) \<longleftrightarrow> \<not> f64_sign x"
  "f64_val (f64_neg x) = - f64_val x"
  by (simp_all add: f64_neg_def is_nan_def is_inf_def is_finite_def f64_val_def with_sign_def)

text \<open>A finite double that bounds the exact sum bounds the rounded one.\<close>

lemma f64_add_bounds:
  assumes "is_finite x" "is_finite y" "is_finite z"
  shows "f64_val z \<le> f64_val x + f64_val y \<Longrightarrow> f64_le z (f64_add x y)"
    and "f64_val x + f64_val y \<le> f64_val z \<Longrightarrow> f64_le (f64_add x y) z"
proof -
  obtain M k where M: "int (M * 2 ^ k) = \<bar>f64_val x + f64_val y\<bar>"
    and add: "f64_add x y = (if f64_val x + f64_val y = 0 then f64_make (f64_sign x \<and> f64_sign y) 0
       else f64_make (f64_val x + f64_val y < 0) (round_mag M k))"
    using f64_add_finite [OF assms(1,2)] by blast
  define S where "S = f64_val x + f64_val y"
  define b where "b = f64_mag z"
  have z: "b \<le> inf_mag" "\<not> is_nan z" "f64_val z = with_sign (f64_sign z) (mag_val b)"
    "f64_key z = with_sign (f64_sign z) b"
    using assms(3) f64_classes(2) by (auto simp: b_def is_finite_def f64_val_def f64_key_def)
  have key: "f64_key (f64_add x y) = (if S = 0 then 0 else with_sign (S < 0) (round_mag M k))"
    and nan: "\<not> is_nan (f64_add x y)"
    using round_mag_le_inf [of M k] unfolding add S_def by (simp_all add: f64_make_class with_sign_def)
  have up: "round_mag M k \<le> b" if "M * 2 ^ k \<le> mag_val b" "S \<noteq> 0"
    using that M by (intro round_mag_upper) (auto simp: S_def intro: ccontr)
  have lo: "b \<le> round_mag M k" if "mag_val b \<le> M * 2 ^ k" "S \<noteq> 0"
    using that M z(1) by (intro round_mag_lower) (auto simp: S_def intro: ccontr)
  have MS: "int (M * 2 ^ k) = \<bar>S\<bar>" using M by (simp add: S_def)
  show "f64_le z (f64_add x y)" if "f64_val z \<le> f64_val x + f64_val y"
  proof -
    from that have le: "with_sign (f64_sign z) (mag_val b) \<le> S" by (simp add: z(3) S_def)
    have "f64_key z \<le> f64_key (f64_add x y)"
    proof (cases "S < 0")
      case True
      with le have "f64_sign z" "int (M * 2 ^ k) \<le> int (mag_val b)"
        using MS by (auto simp: with_sign_def split: if_splits)
      with up True show ?thesis unfolding z(4) key of_nat_le_iff by (simp add: with_sign_def)
    next
      case False
      with le MS have "f64_sign z \<or> int (mag_val b) \<le> int (M * 2 ^ k)"
        by (auto simp: with_sign_def split: if_splits)
      moreover have "f64_sign z \<or> S \<noteq> 0 \<or> b = 0"
        using le mag_val_0_iff [of b] by (auto simp: with_sign_def split: if_splits)
      ultimately show ?thesis using lo False unfolding z(4) key of_nat_le_iff
        by (auto simp: with_sign_def)
    qed
    with nan z(2) show ?thesis by (simp add: f64_le_def)
  qed
  show "f64_le (f64_add x y) z" if "f64_val x + f64_val y \<le> f64_val z"
  proof -
    from that have le: "S \<le> with_sign (f64_sign z) (mag_val b)" by (simp add: z(3) S_def)
    have "f64_key (f64_add x y) \<le> f64_key z"
    proof (cases "0 < S")
      case True
      with le have "\<not> f64_sign z" "int (M * 2 ^ k) \<le> int (mag_val b)"
        using MS by (auto simp: with_sign_def split: if_splits)
      with up True show ?thesis unfolding z(4) key of_nat_le_iff by (simp add: with_sign_def)
    next
      case False
      with le MS have "\<not> f64_sign z \<or> int (mag_val b) \<le> int (M * 2 ^ k)"
        by (auto simp: with_sign_def split: if_splits)
      moreover have "\<not> f64_sign z \<or> S \<noteq> 0 \<or> b = 0"
        using le mag_val_0_iff [of b] by (auto simp: with_sign_def split: if_splits)
      ultimately show ?thesis using lo False unfolding z(4) key of_nat_le_iff
        by (auto simp: with_sign_def)
    qed
    with nan z(2) show ?thesis by (simp add: f64_le_def)
  qed
qed

lemma f64_add_exact:
  assumes "is_finite x" "is_finite y" "is_finite z"
    and "f64_val z = f64_val x + f64_val y" "f64_val z \<noteq> 0"
  shows "f64_add x y = z"
proof -
  have "f64_le z (f64_add x y)" "f64_le (f64_add x y) z"
    using f64_add_bounds [OF assms(1-3)] assms(4) by simp_all
  then have "f64_key (f64_add x y) = f64_key z" by (simp add: f64_le_def)
  moreover have "f64_key z \<noteq> 0"
    using assms(5) f64_val_le_key [of z 0] f64_val_le_key [of 0 z] by simp linarith
  ultimately show ?thesis by (intro f64_eq_key) simp_all
qed

text \<open>
  "Not below zero" in the sense of the code's comparisons: positive, zero, infinite or a NaN.
  Sums of such values, and differences whose test \<open>x < y\<close> fails, stay so.
\<close>

abbreviation f64_nonneg :: "f64 \<Rightarrow> bool" where "f64_nonneg x \<equiv> \<not> f64_lt x 0"

lemma f64_nonneg_le: "\<not> is_nan x \<Longrightarrow> f64_nonneg x \<longleftrightarrow> f64_le 0 x"
  by (rule f64_not_lt) simp_all

lemma f64_add_inf:
  "is_inf x \<Longrightarrow> \<not> is_nan y \<Longrightarrow> is_nan (f64_add x y) \<or> f64_add x y = x"
  "is_inf y \<Longrightarrow> is_finite x \<Longrightarrow> f64_add x y = y"
  using f64_classes by (auto simp: f64_add_def)

lemma f64_add_is_nan: "is_nan x \<or> is_nan y \<Longrightarrow> is_nan (f64_add x y)"
  by (auto simp: f64_add_def)

lemma f64_sub_is_nan: "is_nan x \<or> is_nan y \<Longrightarrow> is_nan (f64_sub x y)"
  by (auto simp: f64_sub_def)

lemma f64_sub_add: "\<not> is_nan x \<Longrightarrow> \<not> is_nan y \<Longrightarrow> f64_sub x y = f64_add x (f64_neg y)"
  by (simp add: f64_sub_def)

lemma f64_add_nonneg:
  assumes "f64_nonneg x" "f64_nonneg y" shows "f64_nonneg (f64_add x y)"
proof -
  consider "is_nan x \<or> is_nan y" | "is_inf x" "\<not> is_nan y" | "is_finite x" "is_inf y"
    | "is_finite x" "is_finite y" using f64_cases by metis
  then show ?thesis
  proof cases
    case 1
    then show ?thesis using f64_add_is_nan by simp
  next
    case 2
    then show ?thesis using f64_add_inf(1) [of x y] assms by auto
  next
    case 3
    then show ?thesis using f64_add_inf(2) [of y x] assms by simp
  next
    case 4
    then have "0 \<le> f64_val x + f64_val y" using assms by (simp add: f64_lt_val)
    then have "f64_le 0 (f64_add x y)" using 4 by (intro f64_add_bounds(1)) simp_all
    then show ?thesis by (simp add: f64_le_def f64_lt_def)
  qed
qed

lemma f64_sub_nonneg:
  assumes "\<not> f64_lt x y" "f64_nonneg y" shows "f64_nonneg (f64_sub x y)"
proof -
  consider "is_nan x \<or> is_nan y" | "is_inf x" "\<not> is_nan y" | "is_finite x" "is_inf y"
    | "is_finite x" "is_finite y" using f64_cases by metis
  then show ?thesis
  proof cases
    case 1
    then show ?thesis using f64_sub_is_nan by simp
  next
    case 2
    then have nan: "\<not> is_nan x" using f64_classes by blast
    then have "is_nan (f64_sub x y) \<or> f64_sub x y = x"
      using f64_add_inf(1) [of x "f64_neg y"] f64_sub_add [of x y] 2 by simp
    with nan show ?thesis using assms 2 by (auto simp: f64_lt_def)
  next
    case 3
    then have "f64_mag x < f64_mag y" by (simp add: is_finite_def is_inf_def)
    moreover have "\<not> is_nan x" "\<not> is_nan y" using 3 f64_classes by blast+
    ultimately show ?thesis using assms
      by (auto simp: f64_lt_def f64_key_def with_sign_def split: if_splits)
  next
    case 4
    then have "0 \<le> f64_val x + f64_val (f64_neg y)" using assms by (simp add: f64_lt_val)
    then have "f64_le 0 (f64_add x (f64_neg y))" using 4 by (intro f64_add_bounds(1)) simp_all
    moreover have "f64_sub x y = f64_add x (f64_neg y)"
      using 4 f64_classes by (intro f64_sub_add) auto
    ultimately show ?thesis by (simp add: f64_le_def f64_lt_def)
  qed
qed

text \<open>Adding what is not negative never lowers a finite value; subtracting it never raises it.\<close>

lemma f64_add_increases:
  assumes "is_finite x" "f64_le 0 y" shows "f64_le x (f64_add x y)"
proof (cases "is_inf y")
  case True
  with assms have "f64_add x y = y" by (simp add: f64_add_inf(2))
  moreover have "\<not> is_nan x" "\<not> is_nan y" using assms(1) True f64_classes by blast+
  ultimately show ?thesis using assms True
    by (auto simp: f64_le_def f64_key_def with_sign_def is_inf_def is_finite_def inf_mag_def
        split: if_splits)
next
  case False
  then have y: "is_finite y" using assms(2) f64_cases [of y] by (auto simp: f64_le_def)
  then show ?thesis using assms by (intro f64_add_bounds(1)) (simp_all add: f64_le_val)
qed

lemma f64_sub_decreases:
  assumes "is_finite x" "is_finite y" "f64_le 0 y" shows "f64_le (f64_sub x y) x"
proof -
  have "f64_sub x y = f64_add x (f64_neg y)"
    using assms f64_classes by (intro f64_sub_add) auto
  moreover have "f64_le (f64_add x (f64_neg y)) x"
    using assms by (intro f64_add_bounds(2)) (simp_all add: f64_le_val)
  ultimately show ?thesis by simp
qed

text \<open>The double of a whole number; exact, with exact sums and differences, below \<open>2 ^ 53\<close>.\<close>

definition f64_scale :: int where "f64_scale = 2 ^ 1074"

lemma f64_scale_pos [simp]: "0 < f64_scale" "f64_scale \<noteq> 0"
  by (simp_all add: f64_scale_def)

definition f64_of_nat :: "nat \<Rightarrow> f64" where
  "f64_of_nat n = f64_make False (round_mag n 1074)"

lemma f64_of_nat_exact:
  assumes "n < 2 ^ 53"
  shows "is_finite (f64_of_nat n)" "f64_val (f64_of_nat n) = int n * f64_scale"
proof -
  have "round_mag n 1074 < inf_mag \<and> mag_val (round_mag n 1074) = n * 2 ^ 1074"
  proof (cases "n = 0")
    case False
    then have len: "2 ^ (bitlen n - 1) \<le> n" "n < 2 ^ bitlen n" "0 < bitlen n"
      using bitlen_bounds by blast+
    then have "(2 :: nat) ^ (bitlen n - 1) < 2 ^ 53" using assms by linarith
    then have "bitlen n - 1 < 53" by (simp only: power_strict_increasing_iff)
    then have le: "bitlen n \<le> 53" by simp
    define t where "t = bitlen n + 1074 - 53"
    define q where "q = n * 2 ^ (1074 - t)"
    have t: "1021 < t" "t \<le> 1074" "1074 - t = 53 - bitlen n" using le len(3) by (simp_all add: t_def)
    have "(2 :: nat) ^ bitlen n * 2 ^ (53 - bitlen n) = 2 ^ 53" "2 ^ (bitlen n - 1) * 2 ^ (53 - bitlen n) = (2 :: nat) ^ 52"
      using le len(3) by (simp_all add: power_add [symmetric])
    then have q: "q < 2 ^ 53" "2 ^ 52 \<le> q"
      using len(1,2) unfolding q_def t(3) by (metis mult_less_cancel2 zero_less_power zero_less_numeral, metis mult_le_mono1)
    have "t * 2 ^ 52 \<le> 1074 * 2 ^ 52" using t(2) by (rule mult_le_mono1)
    then have small: "q + t * 2 ^ 52 < inf_mag" using q(1) by (simp add: inf_mag_def)
    have "round_mag n 1074 = min (q + t * 2 ^ 52) inf_mag"
    proof (cases "t = 1074")
      case True
      then show ?thesis using False by (simp add: round_mag_def Let_def t_def [symmetric] q_def rne_def)
    next
      case ne: False
      then have "\<not> 1074 \<le> t" using t(2) by simp
      then show ?thesis using False by (simp only: round_mag_def Let_def t_def [symmetric] q_def if_False)
    qed
    then have r: "round_mag n 1074 = q + t * 2 ^ 52" using small by simp
    have "mag_val (q + t * 2 ^ 52) = q * 2 ^ t" using q by (intro mag_val_carry) simp_all
    also have "\<dots> = n * 2 ^ 1074"
      using t(2) unfolding q_def mult.assoc power_add [symmetric] by simp
    finally show ?thesis using r small by (simp only: simp_thms)
  qed (simp add: inf_mag_def)
  then show "is_finite (f64_of_nat n)" "f64_val (f64_of_nat n) = int n * f64_scale"
    using inf_mag_small
    by (simp_all add: f64_of_nat_def is_finite_def f64_val_def with_sign_def f64_scale_def)
qed

lemma f64_of_nat_0 [simp]: "f64_of_nat 0 = 0"
  by (simp add: f64_of_nat_def f64_make_def)

lemma f64_make_0 [simp]: "f64_make False 0 = 0"
  by (simp add: f64_make_def)

lemma f64_of_nat_add:
  assumes "a + b < 2 ^ 53" shows "f64_add (f64_of_nat a) (f64_of_nat b) = f64_of_nat (a + b)"
proof -
  have a: "a < 2 ^ 53" and b: "b < 2 ^ 53" using assms by simp_all
  note exact = f64_of_nat_exact [OF a] f64_of_nat_exact [OF b] f64_of_nat_exact [OF assms]
  show ?thesis
  proof (cases "a + b = 0")
    case True
    then show ?thesis using exact by (auto intro: f64_add_finite [of 0 0])
  next
    case False
    then show ?thesis using exact
      by (intro f64_add_exact) (simp_all add: distrib_right [symmetric] del: of_nat_add add: of_nat_add [symmetric])
  qed
qed

lemma f64_of_nat_sub:
  assumes "b \<le> a" "a < 2 ^ 53" shows "f64_sub (f64_of_nat a) (f64_of_nat b) = f64_of_nat (a - b)"
proof -
  have b: "b < 2 ^ 53" and c: "a - b < 2 ^ 53" using assms by simp_all
  note exact = f64_of_nat_exact [OF assms(2)] f64_of_nat_exact [OF b] f64_of_nat_exact [OF c]
  have sub: "f64_sub (f64_of_nat a) (f64_of_nat b) = f64_add (f64_of_nat a) (f64_neg (f64_of_nat b))"
    using exact f64_classes by (intro f64_sub_add) blast+
  show ?thesis
  proof (cases "a = b")
    case True
    then show ?thesis unfolding sub using exact
      by (auto intro: f64_add_finite [of "f64_of_nat b" "f64_neg (f64_of_nat b)"])
  next
    case False
    then show ?thesis unfolding sub using exact assms(1)
      by (intro f64_add_exact) (simp_all add: of_nat_diff left_diff_distrib [symmetric])
  qed
qed

lemma f64_of_nat_lt:
  "a < 2 ^ 53 \<Longrightarrow> b < 2 ^ 53 \<Longrightarrow> f64_lt (f64_of_nat a) (f64_of_nat b) \<longleftrightarrow> a < b"
  using f64_of_nat_exact by (simp add: f64_lt_val)

lemma f64_of_nat_le:
  "a < 2 ^ 53 \<Longrightarrow> b < 2 ^ 53 \<Longrightarrow> f64_le (f64_of_nat a) (f64_of_nat b) \<longleftrightarrow> a \<le> b"
  using f64_of_nat_exact by (simp add: f64_le_val)

text \<open>The text of \<open>%.2f\<close> has no terminator in it.\<close>

lemma fmt_2f_no_nul [simp]: "0 \<notin> set (fmt_2f x)"
proof -
  have "word_of_nat (48 + d) \<noteq> (0 :: byte)" if "d < 10" for d
    using unat_digit [OF that] by (metis add_is_0 unat_0 zero_neq_numeral)
  then have "word_of_nat (48 + n mod 100 div 10) \<noteq> (0 :: byte)"
    "word_of_nat (48 + n mod 10) \<noteq> (0 :: byte)" for n
    by (simp_all only: less_mult_imp_div_less [of _ 10 10, simplified] mod_less_divisor)
      simp_all
  then show ?thesis
    by (auto simp: fmt_2f_def Let_def chars_def simp del: of_nat_add)
qed

section \<open>Quotients, products and decimal fractions\<close>

text \<open>
  The magnitude nearest to \<open>M / 2 ^ j\<close>, and the double nearest to \<open>p / q\<close>: 64 bits of the quotient
  below the last place a double can have, and one more that tells whether anything is left over.
\<close>

definition round_frac :: "nat \<Rightarrow> nat \<Rightarrow> nat" where
  "round_frac M j = (if M = 0 then 0 else
     let t = bitlen M - (j + 53) in min (rne M (t + j) + t * 2 ^ 52) inf_mag)"

definition f64_of_ratio :: "bool \<Rightarrow> nat \<Rightarrow> nat \<Rightarrow> f64" where
  "f64_of_ratio neg p q = (let n = p * 2 ^ 1138
     in f64_make neg (round_frac (2 * (n div q) + (if n mod q = 0 then 0 else 1)) 65))"

definition f64_of_int :: "int \<Rightarrow> f64" where
  "f64_of_int i = f64_make (i < 0) (round_mag (nat \<bar>i\<bar>) 1074)"

definition f64_mul :: "f64 \<Rightarrow> f64 \<Rightarrow> f64" where
  "f64_mul x y = (let neg = (f64_sign x \<noteq> f64_sign y) in
     if is_nan x then f64_quiet x
     else if is_nan y then f64_quiet y
     else if is_inf x \<or> is_inf y then
       (if f64_mag x = 0 \<or> f64_mag y = 0 then f64_default_nan else f64_make neg inf_mag)
     else f64_of_ratio neg (mag_val (f64_mag x) * mag_val (f64_mag y)) (2 ^ 2148))"

definition f64_div :: "f64 \<Rightarrow> f64 \<Rightarrow> f64" where
  "f64_div x y = (let neg = (f64_sign x \<noteq> f64_sign y) in
     if is_nan x then f64_quiet x
     else if is_nan y then f64_quiet y
     else if is_inf x then (if is_inf y then f64_default_nan else f64_make neg inf_mag)
     else if is_inf y then f64_make neg 0
     else if f64_mag y = 0 then (if f64_mag x = 0 then f64_default_nan else f64_make neg inf_mag)
     else f64_of_ratio neg (mag_val (f64_mag x)) (mag_val (f64_mag y)))"

lemma bitlen_shift: "0 < n \<Longrightarrow> bitlen (n * 2 ^ k) = bitlen n + k"
proof (induction k)
  case (Suc k)
  then have "bitlen (n * 2 ^ Suc k) = Suc (bitlen (n * 2 ^ Suc k div 2))" by (subst bitlen.simps) simp
  also have "n * 2 ^ Suc k div 2 = n * 2 ^ k" by simp
  finally show ?case using Suc by simp
qed simp

lemma rne_shift: "rne (n * 2 ^ a) (s + a) = rne n s"
proof -
  have q: "n * 2 ^ a div 2 ^ (s + a) = n div 2 ^ s" by (simp add: power_add)
  have r: "n * 2 ^ a mod 2 ^ (s + a) = (n mod 2 ^ s) * 2 ^ a" by (simp add: power_add mult_mod_left)
  have "(2 :: nat) ^ (s + a) < 2 * ((n mod 2 ^ s) * 2 ^ a) \<longleftrightarrow> 2 ^ s < 2 * (n mod 2 ^ s)"
    "2 * ((n mod 2 ^ s) * 2 ^ a) = 2 ^ (s + a) \<longleftrightarrow> 2 * (n mod 2 ^ s) = 2 ^ s"
    by (simp_all add: power_add flip: mult.assoc)
  then show ?thesis by (simp add: rne_def q r Let_def)
qed

lemma rne_exact: "rne (n * 2 ^ a) s = (if s \<le> a then n * 2 ^ (a - s) else rne n (s - a))"
proof (cases "s \<le> a")
  case True
  have "rne (n * 2 ^ (a - s) * 2 ^ s) (0 + s) = rne (n * 2 ^ (a - s)) 0" by (rule rne_shift)
  then show ?thesis using True by (simp add: mult.assoc rne_def flip: power_add)
next
  case False
  then show ?thesis using rne_shift [of n a "s - a"] by simp
qed

text \<open>A whole number over one is the double of the whole number, and so is the quotient of two of them.\<close>

lemma f64_of_ratio_whole: "f64_of_ratio False n 1 = f64_of_nat n"
proof (cases "n = 0")
  case False
  have "round_frac (n * 2 ^ 1139) 65 = round_mag n 1074"
  proof -
    define t where "t = bitlen n + 1074 - 53"
    have len: "bitlen (n * 2 ^ 1139) - (65 + 53) = t" using False by (simp only: bitlen_shift) (simp add: t_def)
    have "rne (n * 2 ^ 1139) (t + 65) = (if t \<le> 1074 then n * 2 ^ (1074 - t) else rne n (t - 1074))"
      using rne_exact [of n 1139 "t + 65"] by (simp del: power_numeral)
    moreover have "(if t \<le> 1074 then n * 2 ^ (1074 - t) else rne n (t - 1074))
        = (if 1074 \<le> t then rne n (t - 1074) else n * 2 ^ (1074 - t))"
      by (simp add: rne_def)
    moreover have "n * 2 ^ 1139 \<noteq> 0" using False by simp
    ultimately show ?thesis using False
      by (simp only: round_frac_def round_mag_def Let_def len t_def [symmetric] if_False)
  qed
  moreover have "2 * (n * 2 ^ 1138 div 1) + (if n * 2 ^ 1138 mod 1 = 0 then 0 else 1) = n * 2 ^ 1139"
    by (simp only: div_by_1 mod_by_1 simp_thms if_True add_0_right) (simp only: mult.left_commute [of 2 n] power_Suc [symmetric] eval_nat_numeral(3))
  ultimately show ?thesis by (simp only: f64_of_ratio_def f64_of_nat_def Let_def)
qed (simp add: f64_of_ratio_def round_frac_def)

lemma f64_div_whole:
  assumes "a < 2 ^ 53" "0 < b" "b < 2 ^ 53"
  shows "f64_div (f64_of_nat a) (f64_of_nat b) = f64_of_ratio False a b"
proof -
  have val: "mag_val (f64_mag (f64_of_nat n)) = n * 2 ^ 1074" "\<not> f64_sign (f64_of_nat n)" "\<not> is_nan (f64_of_nat n)"
    "\<not> is_inf (f64_of_nat n)" if "n < 2 ^ 53" for n
  proof -
    note exact = f64_of_nat_exact [OF that]
    show sign: "\<not> f64_sign (f64_of_nat n)"
      using inf_mag_small round_mag_le_inf [of n 1074] by (simp add: f64_of_nat_def)
    show "mag_val (f64_mag (f64_of_nat n)) = n * 2 ^ 1074"
      using exact(2) sign by (simp add: f64_val_def with_sign_def f64_scale_def flip: of_nat_eq_iff [where 'a = int])
    show "\<not> is_nan (f64_of_nat n)" "\<not> is_inf (f64_of_nat n)"
      using exact(1) by (simp_all add: is_finite_def is_nan_def is_inf_def)
  qed
  have "f64_mag (f64_of_nat b) \<noteq> 0" using val(1) [OF assms(3)] assms(2) by (intro notI) simp
  then have "f64_div (f64_of_nat a) (f64_of_nat b) = f64_of_ratio False (a * 2 ^ 1074) (b * 2 ^ 1074)"
    using val assms by (simp add: f64_div_def)
  also have "\<dots> = f64_of_ratio False a b"
  proof -
    have "a * 2 ^ 1074 * 2 ^ 1138 = a * 2 ^ 1138 * 2 ^ (1074 :: nat)" by (simp only: mult_ac)
    moreover have "x * 2 ^ 1074 div (b * 2 ^ 1074) = x div b" "x * 2 ^ 1074 mod (b * 2 ^ 1074) = 0 \<longleftrightarrow> x mod b = 0" for x :: nat
      by (simp_all only: div_mult_mult2 [OF power_not_zero [of 2 1074]] mult_mod_left [symmetric] mult_eq_0_iff) simp_all
    ultimately show ?thesis by (simp only: f64_of_ratio_def Let_def)
  qed
  finally show ?thesis .
qed

end
