(* ===== verification/Account.thy ===== *)
theory Account
  imports Ieee_Double
begin

text \<open>
  The account database in shared memory: \<open>common/include/account.h\<close> and \<open>common/src/account.c\<close>.

  A pointer argument is an option (\<open>None\<close> is \<open>NULL\<close>), an out parameter is the content of the cell it
  points to, before and after. Every operation is the whole function: the tests of its arguments,
  the locks it takes and gives back on each path, its lookup, its update and its return value. The
  text it prints is left out, but the reading of the string it prints is not. A mutex that is
  already held faults as \<open>Self_Deadlock\<close> here, since one caller runs alone; the interleavings of
  several workers are another theory.

  Lemmas: the lookup finds the account of a name (\<open>account_find_Some\<close>, \<open>account_find_None\<close>); every
  operation keeps \<open>db_wf\<close>, which includes that all locks are free again, and does to the abstract
  bank \<open>db_abs\<close> (a map from names to balances) what \<open>spec_step\<close> says.
\<close>

section \<open>Mutexes\<close>

datatype mutex = Raw_Mutex | Mutex (pshared: bool) (held: bool)

definition mutex_init :: "bool \<Rightarrow> mutex" where "mutex_init shared = Mutex shared False"

fun mutex_lock :: "mutex \<Rightarrow> mutex run" where
  "mutex_lock Raw_Mutex = Fault Bad_Mutex"
| "mutex_lock (Mutex s h) = (if h then Fault Self_Deadlock else Ret (Mutex s True))"

fun mutex_unlock :: "mutex \<Rightarrow> mutex run" where
  "mutex_unlock Raw_Mutex = Fault Bad_Mutex"
| "mutex_unlock (Mutex s h) = (if h then Ret (Mutex s False) else Fault Not_Owner)"

fun mutex_destroy :: "mutex \<Rightarrow> mutex run" where
  "mutex_destroy Raw_Mutex = Fault Bad_Mutex"
| "mutex_destroy (Mutex s h) = (if h then Fault Bad_Mutex else Ret Raw_Mutex)"

section \<open>The database\<close>

definition MAX_ACCOUNTS :: nat where "MAX_ACCOUNTS = 100"
definition ACCOUNT_ID_LEN :: nat where "ACCOUNT_ID_LEN = 20"

record Account =
  account_id :: "byte list"
  balance :: f64
  active :: int
  lock :: mutex

record AccountDB =
  accounts :: "Account list"
  account_count :: nat
  db_lock :: mutex

definition zero_account :: Account where
  "zero_account = \<lparr>account_id = replicate ACCOUNT_ID_LEN 0, balance = 0, active = 0, lock = Raw_Mutex\<rparr>"

definition zero_db :: AccountDB where
  "zero_db = \<lparr>accounts = replicate MAX_ACCOUNTS zero_account, account_count = 0, db_lock = Raw_Mutex\<rparr>"

definition account_init :: "AccountDB option \<Rightarrow> (AccountDB option \<times> int) run" where
  "account_init db = (case db of None \<Rightarrow> Ret (None, -1)
   | Some _ \<Rightarrow>
      let d = zero_db\<lparr>account_count := 0, db_lock := mutex_init True\<rparr>
      in Ret (Some (d\<lparr>accounts := map (\<lambda>a. a\<lparr>lock := mutex_init True, active := 0\<rparr>) (accounts d)\<rparr>), 0))"

text \<open>\<open>find_loop as n i id\<close>: \<open>as\<close> are the accounts from \<open>i\<close> on, \<open>n\<close> is \<open>account_count - i\<close>.\<close>

fun find_loop :: "Account list \<Rightarrow> nat \<Rightarrow> nat \<Rightarrow> byte list \<Rightarrow> nat option run" where
  "find_loop [] n i s = (if n = 0 then Ret None else Fault Over_Read)"
| "find_loop (a # as) n i s =
     (if n = 0 then Ret None
      else if active a \<noteq> 0 then
        bind_run (c_strcmp (account_id a) s)
          (\<lambda>c. if c = 0 then Ret (Some i) else find_loop as (n - 1) (Suc i) s)
      else find_loop as (n - 1) (Suc i) s)"

definition account_find :: "AccountDB option \<Rightarrow> byte list option \<Rightarrow> nat option run" where
  "account_find db ident = (case (db, ident) of
     (Some d, Some s) \<Rightarrow> find_loop (accounts d) (account_count d) 0 s
   | _ \<Rightarrow> Ret None)"

text \<open>The lock calls on the fields of the database, and the store of a balance.\<close>

definition lock_db :: "AccountDB \<Rightarrow> AccountDB run" where
  "lock_db d = bind_run (mutex_lock (db_lock d)) (\<lambda>m. Ret (d\<lparr>db_lock := m\<rparr>))"

definition unlock_db :: "AccountDB \<Rightarrow> AccountDB run" where
  "unlock_db d = bind_run (mutex_unlock (db_lock d)) (\<lambda>m. Ret (d\<lparr>db_lock := m\<rparr>))"

definition upd_account :: "AccountDB \<Rightarrow> nat \<Rightarrow> (Account \<Rightarrow> Account) \<Rightarrow> AccountDB" where
  "upd_account d i f = d\<lparr>accounts := (accounts d)[i := f (accounts d ! i)]\<rparr>"

definition lock_account :: "AccountDB \<Rightarrow> nat \<Rightarrow> AccountDB run" where
  "lock_account d i = bind_run (mutex_lock (lock (accounts d ! i)))
     (\<lambda>m. Ret (upd_account d i (\<lambda>a. a\<lparr>lock := m\<rparr>)))"

definition unlock_account :: "AccountDB \<Rightarrow> nat \<Rightarrow> AccountDB run" where
  "unlock_account d i = bind_run (mutex_unlock (lock (accounts d ! i)))
     (\<lambda>m. Ret (upd_account d i (\<lambda>a. a\<lparr>lock := m\<rparr>)))"

definition set_balance :: "AccountDB \<Rightarrow> nat \<Rightarrow> f64 \<Rightarrow> AccountDB" where
  "set_balance d i b = upd_account d i (\<lambda>a. a\<lparr>balance := b\<rparr>)"

section \<open>The operations\<close>

definition account_create ::
    "AccountDB option \<Rightarrow> byte list option \<Rightarrow> f64 \<Rightarrow> (AccountDB option \<times> int) run" where
  "account_create db ident initial_balance = (case (db, ident) of
     (Some d, Some s) \<Rightarrow>
       if f64_lt initial_balance 0 then Ret (Some d, -1)
       else bind_run (lock_db d) (\<lambda>d.
         bind_run (account_find (Some d) (Some s)) (\<lambda>found.
           if found \<noteq> None then bind_run (unlock_db d) (\<lambda>d. Ret (Some d, -2))
           else if MAX_ACCOUNTS \<le> account_count d then bind_run (unlock_db d) (\<lambda>d. Ret (Some d, -3))
           else let i = account_count d in
             bind_run (c_strncpy (account_id (accounts d ! i)) s (ACCOUNT_ID_LEN - 1)) (\<lambda>name.
               let d' = (upd_account d i (\<lambda>a. a\<lparr>account_id := name[ACCOUNT_ID_LEN - 1 := 0],
                          balance := initial_balance, active := 1\<rparr>))\<lparr>account_count := i + 1\<rparr>
               in bind_run (unlock_db d') (\<lambda>d'.
                    bind_run (c_str s) (\<lambda>printed. Ret (Some d', 0))))))
   | _ \<Rightarrow> Ret (db, -1))"

definition account_deposit :: "AccountDB option \<Rightarrow> byte list option \<Rightarrow> f64 \<Rightarrow> f64 option \<Rightarrow>
    (AccountDB option \<times> f64 option \<times> int) run" where
  "account_deposit db ident amount new_balance = (case (db, ident) of
     (Some d, Some s) \<Rightarrow>
       if f64_le amount 0 then Ret (Some d, new_balance, -1)
       else bind_run (lock_db d) (\<lambda>d.
         bind_run (account_find (Some d) (Some s)) (\<lambda>found. case found of
             None \<Rightarrow> bind_run (unlock_db d) (\<lambda>d. Ret (Some d, new_balance, -2))
           | Some i \<Rightarrow>
               bind_run (lock_account d i) (\<lambda>d.
               bind_run (unlock_db d) (\<lambda>d.
                 let b = f64_add (balance (accounts d ! i)) amount; d = set_balance d i b
                 in bind_run (c_str s) (\<lambda>printed.
                    bind_run (unlock_account d i) (\<lambda>d.
                      Ret (Some d, map_option (\<lambda>_. b) new_balance, 0)))))))
   | _ \<Rightarrow> Ret (db, new_balance, -1))"

definition account_withdraw :: "AccountDB option \<Rightarrow> byte list option \<Rightarrow> f64 \<Rightarrow> f64 option \<Rightarrow>
    (AccountDB option \<times> f64 option \<times> int) run" where
  "account_withdraw db ident amount new_balance = (case (db, ident) of
     (Some d, Some s) \<Rightarrow>
       if f64_le amount 0 then Ret (Some d, new_balance, -1)
       else bind_run (lock_db d) (\<lambda>d.
         bind_run (account_find (Some d) (Some s)) (\<lambda>found. case found of
             None \<Rightarrow> bind_run (unlock_db d) (\<lambda>d. Ret (Some d, new_balance, -2))
           | Some i \<Rightarrow>
               bind_run (lock_account d i) (\<lambda>d.
               bind_run (unlock_db d) (\<lambda>d.
                 if f64_lt (balance (accounts d ! i)) amount then
                   bind_run (unlock_account d i) (\<lambda>d. Ret (Some d, new_balance, -3))
                 else
                   let b = f64_sub (balance (accounts d ! i)) amount; d = set_balance d i b
                   in bind_run (c_str s) (\<lambda>printed.
                      bind_run (unlock_account d i) (\<lambda>d.
                        Ret (Some d, map_option (\<lambda>_. b) new_balance, 0)))))))
   | _ \<Rightarrow> Ret (db, new_balance, -1))"

definition account_get_balance :: "AccountDB option \<Rightarrow> byte list option \<Rightarrow> f64 option \<Rightarrow>
    (AccountDB option \<times> f64 option \<times> int) run" where
  "account_get_balance db ident out = (case (db, ident, out) of
     (Some d, Some s, Some junk) \<Rightarrow>
       bind_run (lock_db d) (\<lambda>d.
         bind_run (account_find (Some d) (Some s)) (\<lambda>found. case found of
             None \<Rightarrow> bind_run (unlock_db d) (\<lambda>d. Ret (Some d, out, -2))
           | Some i \<Rightarrow>
               bind_run (lock_account d i) (\<lambda>d.
               bind_run (unlock_db d) (\<lambda>d.
                 let b = balance (accounts d ! i)
                 in bind_run (c_str s) (\<lambda>printed.
                    bind_run (unlock_account d i) (\<lambda>d. Ret (Some d, Some b, 0)))))))
   | _ \<Rightarrow> Ret (db, out, -1))"

fun destroy_locks :: "Account list \<Rightarrow> Account list run" where
  "destroy_locks [] = Ret []"
| "destroy_locks (a # as) = bind_run (mutex_destroy (lock a)) (\<lambda>m.
     bind_run (destroy_locks as) (\<lambda>rest. Ret (a\<lparr>lock := m\<rparr> # rest)))"

definition account_cleanup :: "AccountDB option \<Rightarrow> AccountDB option run" where
  "account_cleanup db = (case db of None \<Rightarrow> Ret None
   | Some d \<Rightarrow> bind_run (mutex_destroy (db_lock d)) (\<lambda>m.
       bind_run (destroy_locks (accounts d)) (\<lambda>as. Ret (Some (d\<lparr>db_lock := m, accounts := as\<rparr>)))))"

section \<open>Well-formed databases\<close>

definition name_of :: "Account \<Rightarrow> byte list" where "name_of a = string_of (account_id a)"

definition live_accounts :: "AccountDB \<Rightarrow> Account list" where
  "live_accounts d = take (account_count d) (accounts d)"

definition db_shape :: "AccountDB \<Rightarrow> bool" where
  "db_shape d \<longleftrightarrow> length (accounts d) = MAX_ACCOUNTS \<and> account_count d \<le> MAX_ACCOUNTS
     \<and> (\<forall>a\<in>set (accounts d). length (account_id a) = ACCOUNT_ID_LEN)
     \<and> (\<forall>a\<in>set (live_accounts d). active a \<noteq> 0 \<and> terminated (account_id a))
     \<and> distinct (map name_of (live_accounts d))"

text \<open>All mutexes are initialised, shared between processes, and free.\<close>

definition db_quiet :: "AccountDB \<Rightarrow> bool" where
  "db_quiet d \<longleftrightarrow> db_lock d = Mutex True False \<and> (\<forall>a\<in>set (accounts d). lock a = Mutex True False)"

definition db_wf :: "AccountDB \<Rightarrow> bool" where "db_wf d \<longleftrightarrow> db_shape d \<and> db_quiet d"

definition db_abs :: "AccountDB \<Rightarrow> byte list \<rightharpoonup> f64" where
  "db_abs d = map_of (map (\<lambda>a. (name_of a, balance a)) (live_accounts d))"

text \<open>The arguments the server passes: an array of 20 bytes that holds a string.\<close>

definition valid_id :: "byte list \<Rightarrow> bool" where
  "valid_id s \<longleftrightarrow> length s = ACCOUNT_ID_LEN \<and> terminated s"

lemma account_init_wf: "account_init (Some d) = Ret (d', r) \<Longrightarrow>
    r = 0 \<and> (\<exists>d0. d' = Some d0 \<and> db_wf d0 \<and> db_abs d0 = Map.empty)"
  by (auto simp: account_init_def Let_def zero_db_def zero_account_def mutex_init_def db_wf_def
      db_shape_def db_quiet_def live_accounts_def db_abs_def)

lemma find_loop_cases:
  assumes "n \<le> length as" "\<forall>a\<in>set (take n as). active a \<noteq> 0 \<and> terminated (account_id a)" "terminated s"
  shows "find_loop as n i s = Ret None \<and> string_of s \<notin> name_of ` set (take n as)
    \<or> (\<exists>j<n. find_loop as n i s = Ret (Some (i + j)) \<and> name_of (as ! j) = string_of s)"
  using assms
proof (induction as n i s rule: find_loop.induct)
  case (2 a as n i s)
  show ?case
  proof (cases n)
    case (Suc m)
    then have a: "active a \<noteq> 0" "terminated (account_id a)" using 2(4) by simp_all
    obtain c where c: "c_strcmp (account_id a) s = Ret c" "c = 0 \<longleftrightarrow> name_of a = string_of s"
      using c_strcmp_terminated [OF a(2) 2(5)] by (auto simp: name_of_def)
    show ?thesis
    proof (cases "c = 0")
      case True
      then show ?thesis using a c Suc by (intro disjI2 exI [of _ 0]) simp
    next
      case False
      have "find_loop as m (Suc i) s = Ret None \<and> string_of s \<notin> name_of ` set (take m as)
        \<or> (\<exists>j<m. find_loop as m (Suc i) s = Ret (Some (Suc i + j)) \<and> name_of (as ! j) = string_of s)"
        using 2(1) [of c] a False 2(3-5) Suc by simp
      then show ?thesis
      proof (elim disjE exE conjE)
        fix j assume "j < m" "find_loop as m (Suc i) s = Ret (Some (Suc i + j))"
          "name_of (as ! j) = string_of s"
        then show ?thesis using a c False Suc by (intro disjI2 exI [of _ "Suc j"]) simp
      qed (use a c False Suc in auto)
    qed
  qed simp
qed simp

lemma live_length: "db_shape d \<Longrightarrow> length (live_accounts d) = account_count d"
  by (simp add: db_shape_def live_accounts_def)

lemma live_nth: "j < account_count d \<Longrightarrow> live_accounts d ! j = accounts d ! j"
  by (simp add: live_accounts_def)

lemma db_abs_nth:
  assumes "db_shape d" "i < account_count d"
  shows "db_abs d (name_of (accounts d ! i)) = Some (balance (accounts d ! i))"
proof -
  have "(name_of (accounts d ! i), balance (accounts d ! i)) \<in>
      set (map (\<lambda>a. (name_of a, balance a)) (live_accounts d))"
    using assms nth_mem [of i "live_accounts d"] by (simp add: live_length live_nth image_iff) blast
  moreover have "distinct (map fst (map (\<lambda>a. (name_of a, balance a)) (live_accounts d)))"
    using assms(1) by (simp add: db_shape_def comp_def)
  ultimately show ?thesis unfolding db_abs_def by (simp only: map_of_eq_Some_iff)
qed

lemma db_abs_None: "db_abs d k = None \<longleftrightarrow> k \<notin> name_of ` set (live_accounts d)"
  by (simp add: db_abs_def map_of_eq_None_iff image_image)

lemma account_find_cases:
  assumes "db_shape d" "terminated s"
  obtains "account_find (Some d) (Some s) = Ret None" "db_abs d (string_of s) = None"
  | i where "account_find (Some d) (Some s) = Ret (Some i)" "i < account_count d"
      "name_of (accounts d ! i) = string_of s" "db_abs d (string_of s) = Some (balance (accounts d ! i))"
proof -
  have "find_loop (accounts d) (account_count d) 0 s = Ret None
      \<and> string_of s \<notin> name_of ` set (live_accounts d)
    \<or> (\<exists>j<account_count d. find_loop (accounts d) (account_count d) 0 s = Ret (Some (0 + j))
      \<and> name_of (accounts d ! j) = string_of s)"
    using assms unfolding live_accounts_def by (intro find_loop_cases) (auto simp: db_shape_def live_accounts_def)
  then show thesis
    using that assms(1) db_abs_nth by (force simp: account_find_def db_abs_None)
qed

section \<open>What the lock calls and the store do\<close>

lemma upd_account_simps [simp]:
  "account_count (upd_account d i f) = account_count d"
  "db_lock (upd_account d i f) = db_lock d"
  "length (accounts (upd_account d i f)) = length (accounts d)"
  "i < length (accounts d) \<Longrightarrow> accounts (upd_account d i f) ! i = f (accounts d ! i)"
  "i < length (accounts d) \<Longrightarrow> upd_account (upd_account d i f) i g = upd_account d i (\<lambda>a. g (f a))"
  "upd_account (d\<lparr>db_lock := m\<rparr>) i f = (upd_account d i f)\<lparr>db_lock := m\<rparr>"
  by (simp_all add: upd_account_def)

lemma upd_account_id: "f (accounts d ! i) = accounts d ! i \<Longrightarrow> upd_account d i f = d"
  by (simp add: upd_account_def)

lemma upd_account_cong: "f (accounts d ! i) = g (accounts d ! i) \<Longrightarrow> upd_account d i f = upd_account d i g"
  by (simp add: upd_account_def)

lemma account_find_lock [simp]: "account_find (Some (d\<lparr>db_lock := m\<rparr>)) s = account_find (Some d) s"
  by (simp add: account_find_def split: option.splits)

lemma quiet_nth: "db_wf d \<Longrightarrow> i < account_count d \<Longrightarrow> lock (accounts d ! i) = Mutex True False"
  by (simp add: db_wf_def db_quiet_def db_shape_def)

lemma wf_length: "db_wf d \<Longrightarrow> length (accounts d) = MAX_ACCOUNTS"
  "db_wf d \<Longrightarrow> account_count d \<le> MAX_ACCOUNTS" "db_wf d \<Longrightarrow> db_lock d = Mutex True False"
  by (simp_all add: db_wf_def db_quiet_def db_shape_def)

lemma lock_db_wf: "db_wf d \<Longrightarrow> lock_db d = Ret (d\<lparr>db_lock := Mutex True True\<rparr>)"
  by (simp add: lock_db_def wf_length)

lemma unlock_db_held [simp]: "unlock_db (d\<lparr>db_lock := Mutex True True\<rparr>) = Ret (d\<lparr>db_lock := Mutex True False\<rparr>)"
  by (simp add: unlock_db_def)

lemma lock_account_wf:
  "db_wf d \<Longrightarrow> i < account_count d \<Longrightarrow> lock_account (d\<lparr>db_lock := m\<rparr>) i =
     Ret ((upd_account d i (\<lambda>a. a\<lparr>lock := Mutex True True\<rparr>))\<lparr>db_lock := m\<rparr>)"
  by (simp add: lock_account_def quiet_nth upd_account_def)

lemma unlock_account_held:
  "i < length (accounts d) \<Longrightarrow> lock (accounts d ! i) = Mutex True True \<Longrightarrow>
     unlock_account d i = Ret (upd_account d i (\<lambda>a. a\<lparr>lock := Mutex True False\<rparr>))"
  by (simp add: unlock_account_def)

lemma db_lock_same: "db_lock d = m \<Longrightarrow> d\<lparr>db_lock := m\<rparr> = d"
  by (cases d) simp

lemma wf_unlocked: "db_wf d \<Longrightarrow> d\<lparr>db_lock := Mutex True False\<rparr> = d"
  by (rule db_lock_same) (rule wf_length)

lemma wf_shape: "db_wf d \<Longrightarrow> db_shape d"
  by (simp add: db_wf_def)

lemma lock_same: "lock a = m \<Longrightarrow> a\<lparr>lock := m\<rparr> = a"
  by (cases a) simp

lemma set_balance_shape:
  assumes "db_shape d" "i < account_count d"
  shows "db_shape (set_balance d i b)"
    and "db_abs (set_balance d i b) = (db_abs d)(name_of (accounts d ! i) \<mapsto> b)"
proof -
  let ?a = "(accounts d ! i)\<lparr>balance := b\<rparr>"
  have len: "i < length (accounts d)" using assms by (simp add: db_shape_def)
  have acc: "accounts (set_balance d i b) = (accounts d)[i := ?a]"
    and live: "live_accounts (set_balance d i b) = (live_accounts d)[i := ?a]"
    by (simp_all add: set_balance_def upd_account_def live_accounts_def take_update_swap nth_take)
  have mem: "accounts d ! i \<in> set (accounts d)" "accounts d ! i \<in> set (live_accounts d)"
    using assms len nth_mem [of i "live_accounts d"] by (simp_all add: live_nth live_length)
  have name: "name_of ?a = name_of (accounts d ! i)" by (simp add: name_of_def)
  have names: "map name_of ((live_accounts d)[i := ?a]) = map name_of (live_accounts d)"
    by (simp add: map_update name list_update_same_conv assms live_length [of d] live_nth)
  show "db_shape (set_balance d i b)"
    using assms mem unfolding db_shape_def acc live names
    by (auto simp: set_balance_def dest!: set_update_subset_insert [THEN subsetD])
  let ?ps = "map (\<lambda>a. (name_of a, balance a)) (live_accounts d)"
  have "i < length ?ps" "fst (?ps ! i) = name_of (accounts d ! i)"
    using assms by (simp_all add: live_length live_nth)
  moreover have "distinct (map fst ?ps)"
    using assms(1) by (simp add: db_shape_def comp_def)
  ultimately show "db_abs (set_balance d i b) = (db_abs d)(name_of (accounts d ! i) \<mapsto> b)"
    using map_of_list_update [of ?ps i b] by (simp add: db_abs_def live map_update name)
qed

lemma set_balance_props:
  assumes "db_wf d" "i < account_count d"
  shows "db_wf (set_balance d i b)"
    and "db_abs (set_balance d i b) = (db_abs d)(name_of (accounts d ! i) \<mapsto> b)"
proof -
  note shape = set_balance_shape [OF wf_shape [OF assms(1)] assms(2)]
  have "i < length (accounts d)" using assms wf_length [OF assms(1)] by simp
  then have "db_quiet (set_balance d i b)"
    using assms(1) by (auto simp: db_wf_def db_quiet_def set_balance_def upd_account_def
        dest!: set_update_subset_insert [THEN subsetD])
  with shape show "db_wf (set_balance d i b)" "db_abs (set_balance d i b) = (db_abs d)(name_of (accounts d ! i) \<mapsto> b)"
    by (simp_all add: db_wf_def)
qed

section \<open>The bank the database implements\<close>

datatype account_op =
    Create "byte list" f64
  | Deposit "byte list" f64
  | Withdraw "byte list" f64
  | Query "byte list"

type_synonym bank = "byte list \<rightharpoonup> f64"

text \<open>
  The specification: a bank maps the names in use to their balances. A result is the return value
  and, where the operation writes one, the balance it reports.
\<close>

fun spec_step :: "bank \<Rightarrow> account_op \<Rightarrow> bank \<times> int \<times> f64 option" where
  "spec_step m (Create s x) =
     (if f64_lt x 0 then (m, -1, None)
      else if m (string_of s) \<noteq> None then (m, -2, None)
      else if MAX_ACCOUNTS \<le> card (dom m) then (m, -3, None)
      else (m(string_of s \<mapsto> x), 0, None))"
| "spec_step m (Deposit s a) =
     (if f64_le a 0 then (m, -1, None)
      else case m (string_of s) of None \<Rightarrow> (m, -2, None)
        | Some b \<Rightarrow> (m(string_of s \<mapsto> f64_add b a), 0, Some (f64_add b a)))"
| "spec_step m (Withdraw s a) =
     (if f64_le a 0 then (m, -1, None)
      else case m (string_of s) of None \<Rightarrow> (m, -2, None)
        | Some b \<Rightarrow> if f64_lt b a then (m, -3, None)
                     else (m(string_of s \<mapsto> f64_sub b a), 0, Some (f64_sub b a)))"
| "spec_step m (Query s) =
     (case m (string_of s) of None \<Rightarrow> (m, -2, None) | Some b \<Rightarrow> (m, 0, Some b))"

text \<open>The cell of an out parameter after the call: written where the operation reports a balance.\<close>

definition out_cell :: "f64 option \<Rightarrow> f64 option \<Rightarrow> f64 option" where
  "out_cell cell v = (case v of None \<Rightarrow> cell | Some x \<Rightarrow> map_option (\<lambda>_. x) cell)"

lemma card_dom_abs:
  assumes "db_shape d" shows "card (dom (db_abs d)) = account_count d"
proof -
  have "dom (db_abs d) = set (map name_of (live_accounts d))"
    by (simp add: db_abs_def dom_map_of_conv_image_fst image_image)
  moreover have "card (set (map name_of (live_accounts d))) = length (map name_of (live_accounts d))"
    using assms by (intro distinct_card) (simp add: db_shape_def)
  ultimately show ?thesis using live_length [OF assms] by simp
qed

text \<open>A transaction on a found account: lock, unlock, store and unlock come to one store.\<close>

lemma transaction_end:
  assumes "db_wf d" "i < account_count d"
  defines "L \<equiv> (upd_account d i (\<lambda>a. a\<lparr>lock := Mutex True True\<rparr>))\<lparr>db_lock := Mutex True False\<rparr>"
  shows "i < length (accounts d)"
    and "unlock_account L i = Ret d"
    and "unlock_account (set_balance L i b) i = Ret (set_balance d i b)"
proof -
  have i: "i < length (accounts d)" using assms wf_length [OF assms(1)] by simp
  note q = quiet_nth [OF assms(1,2)] and m = wf_length(3) [OF assms(1)]
  have a: "(accounts d ! i)\<lparr>lock := Mutex True False\<rparr> = accounts d ! i" by (rule lock_same [OF q])
  have d: "d\<lparr>db_lock := Mutex True False\<rparr> = d" by (rule db_lock_same [OF m])
  show "i < length (accounts d)" by (rule i)
  have "unlock_account L i = Ret (upd_account d i (\<lambda>a. a\<lparr>lock := Mutex True False\<rparr>)\<lparr>db_lock := Mutex True False\<rparr>)"
    using i by (simp add: L_def unlock_account_held)
  then show "unlock_account L i = Ret d" by (simp add: upd_account_id a d)
  have "unlock_account (set_balance L i b) i =
      Ret ((upd_account d i (\<lambda>a. a\<lparr>balance := b, lock := Mutex True False\<rparr>))\<lparr>db_lock := Mutex True False\<rparr>)"
    using i by (simp add: L_def unlock_account_held set_balance_def)
  moreover have "upd_account d i (\<lambda>a. a\<lparr>balance := b, lock := Mutex True False\<rparr>) = set_balance d i b"
    unfolding set_balance_def by (rule upd_account_cong) (cases "accounts d ! i", use q in simp)
  moreover have "(set_balance d i b)\<lparr>db_lock := Mutex True False\<rparr> = set_balance d i b"
    by (rule db_lock_same) (simp add: set_balance_def m)
  ultimately show "unlock_account (set_balance L i b) i = Ret (set_balance d i b)" by simp
qed

lemmas account_run = lock_db_wf Let_def out_cell_def account_create_def account_deposit_def
  account_withdraw_def account_get_balance_def

lemma account_deposit_runs:
  assumes "db_wf d" "terminated s"
  shows "\<exists>d' r v. account_deposit (Some d) (Some s) a nb = Ret (Some d', out_cell nb v, r) \<and> db_wf d'
    \<and> spec_step (db_abs d) (Deposit s a) = (db_abs d', r, v) \<and> (r \<noteq> 0 \<longrightarrow> d' = d)"
proof -
  note shape = wf_shape [OF assms(1)] and same = wf_unlocked [OF assms(1)]
  show ?thesis
  proof (cases rule: account_find_cases [OF shape assms(2)])
    case 1
    then show ?thesis using assms by (simp add: account_run same)
  next
    case (2 i)
    note t = transaction_end [OF assms(1) 2(2)] and l = lock_account_wf [OF assms(1) 2(2)]
    show ?thesis using 2 assms set_balance_props [OF assms(1) 2(2)] by (simp add: account_run l t)
  qed
qed

lemma account_withdraw_runs:
  assumes "db_wf d" "terminated s"
  shows "\<exists>d' r v. account_withdraw (Some d) (Some s) a nb = Ret (Some d', out_cell nb v, r) \<and> db_wf d'
    \<and> spec_step (db_abs d) (Withdraw s a) = (db_abs d', r, v) \<and> (r \<noteq> 0 \<longrightarrow> d' = d)"
proof -
  note shape = wf_shape [OF assms(1)] and same = wf_unlocked [OF assms(1)]
  show ?thesis
  proof (cases rule: account_find_cases [OF shape assms(2)])
    case 1
    then show ?thesis using assms by (simp add: account_run same)
  next
    case (2 i)
    note t = transaction_end [OF assms(1) 2(2)] and l = lock_account_wf [OF assms(1) 2(2)]
    show ?thesis using 2 assms set_balance_props [OF assms(1) 2(2)] by (simp add: account_run l t)
  qed
qed

lemma account_get_balance_runs:
  assumes "db_wf d" "terminated s"
  shows "\<exists>r v. account_get_balance (Some d) (Some s) (Some junk) = Ret (Some d, out_cell (Some junk) v, r)
    \<and> spec_step (db_abs d) (Query s) = (db_abs d, r, v)"
proof -
  note shape = wf_shape [OF assms(1)] and same = wf_unlocked [OF assms(1)]
  show ?thesis
  proof (cases rule: account_find_cases [OF shape assms(2)])
    case 1
    then show ?thesis using assms by (simp add: account_run same)
  next
    case (2 i)
    note t = transaction_end [OF assms(1) 2(2)] and l = lock_account_wf [OF assms(1) 2(2)]
    show ?thesis using 2 assms by (simp add: account_run l t)
  qed
qed

lemma stored_name:
  assumes "valid_id s" "length dst = ACCOUNT_ID_LEN"
  shows "\<exists>name. c_strncpy dst s (ACCOUNT_ID_LEN - 1) = Ret name
    \<and> length (name[ACCOUNT_ID_LEN - 1 := 0]) = ACCOUNT_ID_LEN
    \<and> terminated (name[ACCOUNT_ID_LEN - 1 := 0]) \<and> string_of (name[ACCOUNT_ID_LEN - 1 := 0]) = string_of s"
proof -
  define k where "k = length (string_of s)"
  have k: "k \<le> 19" using string_of_shorter [of s] assms(1)
    by (simp add: k_def valid_id_def ACCOUNT_ID_LEN_def)
  let ?image = "string_of s @ replicate (19 - k) 0"
  have len: "length ?image = 19" using k by (simp add: k_def)
  have "strncpy_image s 19 = Ret ?image"
    using strncpy_image_terminated [of s 19] assms(1) k by (simp add: valid_id_def k_def)
  then have "c_strncpy dst s 19 = Ret (put_bytes dst ?image)"
    using assms(2) len by (simp add: c_strncpy_def c_write_def ACCOUNT_ID_LEN_def)
  moreover have "\<exists>x. drop 19 dst = [x]"
    using assms(2) by (cases "drop 19 dst") (auto simp: ACCOUNT_ID_LEN_def dest: arg_cong [of _ _ length])
  then have "(put_bytes dst ?image)[19 := 0] = ?image @ [0]"
    using len by (auto simp: put_bytes_def list_update_append)
  moreover have "?image @ [0] = string_of s @ 0 # replicate (19 - k) 0"
    by (simp add: replicate_append_same)
  moreover have "length (put_bytes dst ?image) = 20"
    using assms(2) len by (simp add: ACCOUNT_ID_LEN_def)
  ultimately show ?thesis by (simp add: ACCOUNT_ID_LEN_def)
qed

lemma add_account_shape:
  fixes d acc
  defines "d' \<equiv> (upd_account d (account_count d) (\<lambda>_. acc))\<lparr>account_count := Suc (account_count d)\<rparr>"
  assumes "db_shape d" "account_count d < MAX_ACCOUNTS"
    "length (account_id acc) = ACCOUNT_ID_LEN" "terminated (account_id acc)" "active acc \<noteq> 0"
    "db_abs d (name_of acc) = None"
  shows "db_shape d'" "db_abs d' = (db_abs d)(name_of acc \<mapsto> balance acc)"
proof -
  have len: "account_count d < length (accounts d)" using assms(2,3) by (simp add: db_shape_def)
  have live: "live_accounts d' = live_accounts d @ [acc]"
    using len by (simp add: d'_def live_accounts_def upd_account_def take_Suc_conv_app_nth)
  have acc: "set (accounts d') \<subseteq> insert acc (set (accounts d))"
    by (simp add: d'_def upd_account_def set_update_subset_insert)
  have new: "name_of acc \<notin> name_of ` set (live_accounts d)" using assms(7) by (simp add: db_abs_None)
  show "db_shape d'"
    using assms(2-6) acc new unfolding db_shape_def live by (auto simp: d'_def)
  show "db_abs d' = (db_abs d)(name_of acc \<mapsto> balance acc)"
    using new unfolding db_abs_def live map_append list.map by (intro map_of_snoc) (simp add: image_image)
qed

lemma add_account_props:
  fixes d acc
  defines "d' \<equiv> (upd_account d (account_count d) (\<lambda>_. acc))\<lparr>account_count := Suc (account_count d)\<rparr>"
  assumes "db_wf d" "account_count d < MAX_ACCOUNTS" "lock acc = Mutex True False"
    "length (account_id acc) = ACCOUNT_ID_LEN" "terminated (account_id acc)" "active acc \<noteq> 0"
    "db_abs d (name_of acc) = None"
  shows "db_wf d'" "db_abs d' = (db_abs d)(name_of acc \<mapsto> balance acc)"
proof -
  note shape = add_account_shape [OF wf_shape [OF assms(2)] assms(3,5,6,7,8), folded d'_def]
  have "set (accounts d') \<subseteq> insert acc (set (accounts d))"
    by (simp add: d'_def upd_account_def set_update_subset_insert)
  then have "db_quiet d'" using assms(2,4) unfolding db_wf_def db_quiet_def by (auto simp: d'_def)
  with shape show "db_wf d'" "db_abs d' = (db_abs d)(name_of acc \<mapsto> balance acc)"
    by (simp_all add: db_wf_def)
qed

lemma account_create_runs:
  assumes "db_wf d" "valid_id s"
  shows "\<exists>d' r. account_create (Some d) (Some s) x = Ret (Some d', r) \<and> db_wf d'
    \<and> spec_step (db_abs d) (Create s x) = (db_abs d', r, None) \<and> (r \<noteq> 0 \<longrightarrow> d' = d)"
proof -
  note shape = wf_shape [OF assms(1)] and same = wf_unlocked [OF assms(1)]
  have nul: "terminated s" using assms(2) by (simp add: valid_id_def)
  note run = account_run card_dom_abs [OF shape] assms(1) nul
  show ?thesis
  proof (cases rule: account_find_cases [OF shape nul])
    case 1
    show ?thesis
    proof (cases "MAX_ACCOUNTS \<le> account_count d")
      case True
      then show ?thesis using 1 by (simp add: run same)
    next
      case False
      let ?i = "account_count d"
      have len: "?i < length (accounts d)" using False assms(1) by (simp add: wf_length)
      then have mem: "accounts d ! ?i \<in> set (accounts d)" by simp
      then have "length (account_id (accounts d ! ?i)) = ACCOUNT_ID_LEN"
        using shape by (simp add: db_shape_def)
      from stored_name [OF assms(2) this] obtain name where name:
        "c_strncpy (account_id (accounts d ! ?i)) s (ACCOUNT_ID_LEN - 1) = Ret name"
        "length (name[ACCOUNT_ID_LEN - 1 := 0]) = ACCOUNT_ID_LEN"
        "terminated (name[ACCOUNT_ID_LEN - 1 := 0])" "string_of (name[ACCOUNT_ID_LEN - 1 := 0]) = string_of s"
        by blast
      define acc where "acc = (accounts d ! ?i)\<lparr>account_id := name[ACCOUNT_ID_LEN - 1 := 0], balance := x, active := 1\<rparr>"
      define d' where "d' = (upd_account d ?i (\<lambda>_. acc))\<lparr>account_count := Suc ?i\<rparr>"
      have "lock acc = Mutex True False"
        using mem assms(1) by (simp add: acc_def db_wf_def db_quiet_def)
      then have props: "db_wf d'" "db_abs d' = (db_abs d)(string_of s \<mapsto> x)"
        using add_account_props [of d acc] assms(1) False name 1(2) by (simp_all add: acc_def d'_def name_of_def)
      have "(upd_account d ?i (\<lambda>a. a\<lparr>account_id := name[ACCOUNT_ID_LEN - 1 := 0], balance := x, active := 1\<rparr>))
          = upd_account d ?i (\<lambda>_. acc)"
        by (rule upd_account_cong) (simp add: acc_def)
      then have "account_create (Some d) (Some s) x = (if f64_lt x 0 then Ret (Some d, -1)
          else Ret (Some (d'\<lparr>db_lock := Mutex True False\<rparr>), 0))"
        using 1 False by (simp add: run name(1) [unfolded One_nat_def] d'_def unlock_db_def)
      then show ?thesis using props 1 False wf_unlocked [OF props(1)] assms(1) by (simp add: card_dom_abs [OF shape])
    qed
  next
    case (2 i)
    then show ?thesis by (simp add: run same)
  qed
qed

section \<open>Histories of operations\<close>

fun op_id :: "account_op \<Rightarrow> byte list" where
  "op_id (Create s x) = s" | "op_id (Deposit s a) = s" | "op_id (Withdraw s a) = s" | "op_id (Query s) = s"

definition valid_op :: "account_op \<Rightarrow> bool" where "valid_op x \<longleftrightarrow> valid_id (op_id x)"

text \<open>One operation of a client of the database; \<open>junk\<close> is what its out parameter held before.\<close>

fun account_step :: "f64 \<Rightarrow> AccountDB option \<Rightarrow> account_op \<Rightarrow> (AccountDB option \<times> int \<times> f64 option) run" where
  "account_step junk db (Create s x) =
     bind_run (account_create db (Some s) x) (\<lambda>(db', r). Ret (db', r, None))"
| "account_step junk db (Deposit s a) =
     bind_run (account_deposit db (Some s) a (Some junk)) (\<lambda>(db', v, r). Ret (db', r, if r = 0 then v else None))"
| "account_step junk db (Withdraw s a) =
     bind_run (account_withdraw db (Some s) a (Some junk)) (\<lambda>(db', v, r). Ret (db', r, if r = 0 then v else None))"
| "account_step junk db (Query s) =
     bind_run (account_get_balance db (Some s) (Some junk)) (\<lambda>(db', v, r). Ret (db', r, if r = 0 then v else None))"

definition ptr_wf :: "AccountDB option \<Rightarrow> bool" where
  "ptr_wf db \<longleftrightarrow> (case db of None \<Rightarrow> False | Some d \<Rightarrow> db_wf d)"

definition ptr_abs :: "AccountDB option \<Rightarrow> bank" where
  "ptr_abs db = (case db of None \<Rightarrow> Map.empty | Some d \<Rightarrow> db_abs d)"

lemma spec_step_status: "spec_step m x = (m', r, v) \<Longrightarrow> (r = 0 \<longrightarrow> v \<noteq> None \<or> (\<exists>s b. x = Create s b)) \<and> (r \<noteq> 0 \<longrightarrow> v = None)"
  by (cases x) (auto simp: Let_def split: if_splits option.splits dest: sym)

text \<open>What every step of the specification keeps.\<close>

definition bank_nonneg :: "bank \<Rightarrow> bool" where
  "bank_nonneg m \<longleftrightarrow> (\<forall>k b. m k = Some b \<longrightarrow> f64_nonneg b)"

lemma spec_step_nonneg: "bank_nonneg m \<Longrightarrow> bank_nonneg (fst (spec_step m x))"
proof -
  assume m: "bank_nonneg m"
  have "f64_nonneg a" if "\<not> f64_le a 0" for a
    using that by (auto simp: f64_lt_def f64_le_def)
  then show ?thesis using m unfolding bank_nonneg_def
    by (cases x) (auto simp: Let_def f64_add_nonneg f64_sub_nonneg split: option.splits)
qed

lemma spec_step_dom: "dom m \<subseteq> dom (fst (spec_step m x))"
  by (cases x) (auto simp: Let_def split: option.splits)

text \<open>One bank comes from another without losing an account or overdrawing one.\<close>

definition bank_grows :: "bank \<Rightarrow> bank \<Rightarrow> bool" where
  "bank_grows m m' \<longleftrightarrow> dom m \<subseteq> dom m' \<and> (bank_nonneg m \<longrightarrow> bank_nonneg m')"

lemma bank_grows_refl [simp]: "bank_grows m m"
  by (simp add: bank_grows_def)

lemma bank_grows_trans: "bank_grows m1 m2 \<Longrightarrow> bank_grows m2 m3 \<Longrightarrow> bank_grows m1 m3"
  by (auto simp: bank_grows_def)

lemma spec_step_grows: "spec_step m x = (m', r, v) \<Longrightarrow> bank_grows m m'"
  using spec_step_dom [of m x] spec_step_nonneg [of m x] by (simp add: bank_grows_def)

lemma account_step_runs:
  assumes "db_wf d" "valid_op x"
  shows "\<exists>d' r v. account_step junk (Some d) x = Ret (Some d', r, v) \<and> db_wf d'
    \<and> spec_step (db_abs d) x = (db_abs d', r, v) \<and> (r \<noteq> 0 \<longrightarrow> d' = d)"
proof (cases x)
  case (Create s b)
  then show ?thesis using account_create_runs [of d s b] assms by (auto simp: valid_op_def)
next
  case (Deposit s a)
  then obtain d' r v where "account_deposit (Some d) (Some s) a (Some junk) = Ret (Some d', out_cell (Some junk) v, r)"
    "db_wf d'" "spec_step (db_abs d) x = (db_abs d', r, v)" "r \<noteq> 0 \<longrightarrow> d' = d"
    using account_deposit_runs [of d s a "Some junk"] assms by (auto simp: valid_op_def valid_id_def)
  then show ?thesis using spec_step_status [of "db_abs d" x "db_abs d'" r v] Deposit
    by (auto simp: out_cell_def split: option.splits)
next
  case (Withdraw s a)
  then obtain d' r v where "account_withdraw (Some d) (Some s) a (Some junk) = Ret (Some d', out_cell (Some junk) v, r)"
    "db_wf d'" "spec_step (db_abs d) x = (db_abs d', r, v)" "r \<noteq> 0 \<longrightarrow> d' = d"
    using account_withdraw_runs [of d s a "Some junk"] assms by (auto simp: valid_op_def valid_id_def)
  then show ?thesis using spec_step_status [of "db_abs d" x "db_abs d'" r v] Withdraw
    by (auto simp: out_cell_def split: option.splits)
next
  case (Query s)
  then obtain r v where "account_get_balance (Some d) (Some s) (Some junk) = Ret (Some d, out_cell (Some junk) v, r)"
    "spec_step (db_abs d) x = (db_abs d, r, v)"
    using account_get_balance_runs [of d s junk] assms by (auto simp: valid_op_def valid_id_def)
  then show ?thesis using spec_step_status [of "db_abs d" x "db_abs d" r v] Query assms(1)
    by (auto simp: out_cell_def split: option.splits)
qed

text \<open>
  The interface the server relies on: whatever stores the accounts implements the bank. Its clients
  learn that no history makes a balance negative, removes an account, or touches the balance of an
  account that none of its operations names.
\<close>

locale account_service = implements wf abs valid_op step spec_step
  for wf :: "'s \<Rightarrow> bool" and abs :: "'s \<Rightarrow> bank"
    and step :: "'s \<Rightarrow> account_op \<Rightarrow> ('s \<times> int \<times> f64 option) run"
begin

lemma never_negative:
  assumes "wf s" "\<forall>x\<in>set xs. valid_op x" "run_steps step s xs = Ret (s', rs)"
    and "\<forall>k b. abs s k = Some b \<longrightarrow> f64_nonneg b"
  shows "\<forall>k b. abs s' k = Some b \<longrightarrow> f64_nonneg b"
proof -
  have "bank_nonneg (fst (spec_step m x))" if "bank_nonneg m" for m x
    using that by (rule spec_step_nonneg)
  then show ?thesis
    using run_invariant [OF assms(1,2), of bank_nonneg s' rs] assms(3,4) unfolding bank_nonneg_def by blast
qed

lemma accounts_stay:
  assumes "wf s" "\<forall>x\<in>set xs. valid_op x" "run_steps step s xs = Ret (s', rs)"
  shows "dom (abs s) \<subseteq> dom (abs s')"
proof -
  have "D \<subseteq> dom (fst (spec_step m x))" if "D \<subseteq> dom m" for D m x
    using that spec_step_dom [of m x] by blast
  then show ?thesis
    using run_invariant [OF assms(1,2), of "\<lambda>m. dom (abs s) \<subseteq> dom m" s' rs] assms(3) by blast
qed

lemma others_untouched:
  assumes "wf s" "\<forall>x\<in>set xs. valid_op x" "run_steps step s xs = Ret (s', rs)"
    and "\<forall>x\<in>set xs. string_of (op_id x) \<noteq> k"
  shows "abs s' k = abs s k"
proof -
  have "fst (spec_step m x) k = m k" if "string_of (op_id x) \<noteq> k" for m x
    using that by (cases x) (auto simp: Let_def split: option.splits)
  then have "fst (run_spec spec_step (abs s) xs) k = abs s k"
    using run_spec_invariant [of xs "\<lambda>m. m k = abs s k" spec_step "abs s"] assms(4) by simp
  then show ?thesis using run_implements [OF assms(1,2)] assms(3) by force
qed

end

interpretation account_db: account_service ptr_wf ptr_abs "account_step junk" for junk
proof unfold_locales
  fix db x assume "ptr_wf db" "valid_op x"
  then obtain d where "db = Some d" "db_wf d" by (auto simp: ptr_wf_def split: option.splits)
  with \<open>valid_op x\<close> account_step_runs [of d x junk]
  show "\<exists>s' r. account_step junk db x = Ret (s', r) \<and> ptr_wf s' \<and> spec_step (ptr_abs db) x = (ptr_abs s', r)"
    by (auto simp: ptr_wf_def ptr_abs_def)
qed

section \<open>Names without a terminator\<close>

lemma find_loop_unterminated:
  assumes "n \<le> length as" "\<not> terminated s" "length s = ACCOUNT_ID_LEN"
    and "\<forall>a\<in>set (take n as). terminated (account_id a) \<and> length (account_id a) = ACCOUNT_ID_LEN"
  shows "find_loop as n i s = Ret None"
  using assms
proof (induction as n i s rule: find_loop.induct)
  case (2 a as n i s)
  show ?case
  proof (cases n)
    case (Suc m)
    then have "string_of (account_id a) \<noteq> string_of s"
      using 2(4-6) string_of_shorter [of "account_id a"] by (auto simp: takeWhile_eq_all_conv [THEN iffD2])
    then obtain c where "c_strcmp (account_id a) s = Ret c" "c \<noteq> 0"
      using c_strcmp_bounded [of "account_id a" s] 2(5,6) Suc by auto
    then show ?thesis using 2 Suc by simp
  qed simp
qed simp

lemma account_find_unterminated:
  assumes "db_shape d" "\<not> terminated s" "length s = ACCOUNT_ID_LEN"
  shows "account_find (Some d) (Some s) = Ret None"
  using assms find_loop_unterminated [of "account_count d" "accounts d" s 0]
  by (auto simp: account_find_def db_shape_def live_accounts_def dest: in_set_takeD)

text \<open>The operations on an array of the right size that may hold no string.\<close>

definition kept :: "AccountDB \<Rightarrow> AccountDB option \<Rightarrow> bool" where
  "kept d db \<longleftrightarrow> (\<exists>d'. db = Some d' \<and> db_wf d' \<and> bank_grows (db_abs d) (db_abs d'))"

lemma kept_refl [simp]: "db_wf d \<Longrightarrow> kept d (Some d)"
  by (simp add: kept_def)

lemma account_create_guarded:
  assumes "db_wf d" "length s = ACCOUNT_ID_LEN"
  shows "guarded (\<lambda>(db, r). kept d db) (account_create (Some d) (Some s) x)"
proof (cases "terminated s")
  case True
  then obtain d' r where "account_create (Some d) (Some s) x = Ret (Some d', r)" "db_wf d'"
    "spec_step (db_abs d) (Create s x) = (db_abs d', r, None)"
    using account_create_runs [OF assms(1), of s x] assms(2) by (auto simp: valid_id_def)
  then show ?thesis 
    by (auto simp: kept_def simp del: spec_step.simps dest: spec_step_grows)
next
  case False
  let ?i = "account_count d"
  have "strncpy_image s 19 = Ret (take 19 s)"
    using assms(2) False by (intro strncpy_image_prefix) (auto simp: ACCOUNT_ID_LEN_def dest: in_set_takeD)
  moreover have "length (account_id (accounts d ! ?i)) = ACCOUNT_ID_LEN" if "?i < MAX_ACCOUNTS"
    using assms(1) that by (simp add: db_wf_def db_shape_def)
  ultimately have "\<exists>name. c_strncpy (account_id (accounts d ! ?i)) s (ACCOUNT_ID_LEN - Suc 0) = Ret name"
    if "?i < MAX_ACCOUNTS"
    using assms(2) that by (simp add: c_strncpy_def c_write_def ACCOUNT_ID_LEN_def)
  then show ?thesis
    using assms False account_find_unterminated [OF wf_shape [OF assms(1)] False assms(2)] wf_unlocked [OF assms(1)]
    by (auto simp: account_run unlock_db_def)
qed

lemma account_deposit_guarded:
  assumes "db_wf d" "length s = ACCOUNT_ID_LEN"
  shows "guarded (\<lambda>(db, v, r). kept d db \<and> v \<noteq> None) (account_deposit (Some d) (Some s) a (Some junk))"
proof (cases "terminated s")
  case True
  then obtain d' r v where "account_deposit (Some d) (Some s) a (Some junk) = Ret (Some d', out_cell (Some junk) v, r)"
    "db_wf d'" "spec_step (db_abs d) (Deposit s a) = (db_abs d', r, v)"
    using account_deposit_runs [OF assms(1), of s a "Some junk"] by auto
  then show ?thesis 
    by (auto simp: kept_def out_cell_def simp del: spec_step.simps dest: spec_step_grows split: option.splits)
next
  case False
  then show ?thesis
    using assms account_find_unterminated [OF wf_shape [OF assms(1)] False assms(2)] wf_unlocked [OF assms(1)]
    by (auto simp: account_run unlock_db_def)
qed

lemma account_withdraw_guarded:
  assumes "db_wf d" "length s = ACCOUNT_ID_LEN"
  shows "guarded (\<lambda>(db, v, r). kept d db \<and> v \<noteq> None) (account_withdraw (Some d) (Some s) a (Some junk))"
proof (cases "terminated s")
  case True
  then obtain d' r v where "account_withdraw (Some d) (Some s) a (Some junk) = Ret (Some d', out_cell (Some junk) v, r)"
    "db_wf d'" "spec_step (db_abs d) (Withdraw s a) = (db_abs d', r, v)"
    using account_withdraw_runs [OF assms(1), of s a "Some junk"] by auto
  then show ?thesis 
    by (auto simp: kept_def out_cell_def simp del: spec_step.simps dest: spec_step_grows split: option.splits)
next
  case False
  then show ?thesis
    using assms account_find_unterminated [OF wf_shape [OF assms(1)] False assms(2)] wf_unlocked [OF assms(1)]
    by (auto simp: account_run unlock_db_def)
qed

lemma account_get_balance_guarded:
  assumes "db_wf d" "length s = ACCOUNT_ID_LEN"
  shows "guarded (\<lambda>(db, v, r). db = Some d \<and> v \<noteq> None) (account_get_balance (Some d) (Some s) (Some junk))"
proof (cases "terminated s")
  case True
  then show ?thesis using account_get_balance_runs [OF assms(1), of s junk]
    by (auto simp: out_cell_def split: option.splits)
next
  case False
  then show ?thesis
    using assms account_find_unterminated [OF wf_shape [OF assms(1)] False assms(2)] wf_unlocked [OF assms(1)]
    by (auto simp: account_run unlock_db_def)
qed

section \<open>Concrete databases\<close>

definition init_db :: AccountDB where
  "init_db = \<lparr>accounts = replicate MAX_ACCOUNTS (zero_account\<lparr>lock := Mutex True False\<rparr>),
     account_count = 0, db_lock = Mutex True False\<rparr>"

lemma account_init_eq: "account_init (Some d) = Ret (Some init_db, 0)"
  by (simp add: account_init_def Let_def zero_db_def zero_account_def init_db_def mutex_init_def)

lemma init_db_wf [simp]: "db_wf init_db" and init_db_abs [simp]: "db_abs init_db = Map.empty"
  using account_init_wf [OF account_init_eq] by simp_all

definition id_of :: "string \<Rightarrow> byte list" where
  "id_of s = chars s @ replicate (ACCOUNT_ID_LEN - length s) 0"

definition alice :: "byte list" where "alice = id_of ''alice''"

lemma alice_string [simp]: "string_of alice = chars ''alice''"
  by (simp add: alice_def id_of_def chars_def ACCOUNT_ID_LEN_def)

lemma alice_valid [simp]: "valid_id alice" "terminated alice" "length alice = 20"
  by (simp_all add: alice_def id_of_def valid_id_def ACCOUNT_ID_LEN_def)

text \<open>One account, \<open>alice\<close>, with a balance of 1000.\<close>

definition demo_db :: AccountDB where
  "demo_db = (upd_account init_db 0 (\<lambda>_. \<lparr>account_id = alice, balance = f64_of_nat 1000, active = 1,
     lock = Mutex True False\<rparr>))\<lparr>account_count := 1\<rparr>"

lemma demo_db_wf [simp]: "db_wf demo_db"
  and demo_db_abs [simp]: "db_abs demo_db = [chars ''alice'' \<mapsto> f64_of_nat 1000]"
  using add_account_props [of init_db "\<lparr>account_id = alice, balance = f64_of_nat 1000, active = 1,
     lock = Mutex True False\<rparr>"]
  by (simp_all add: demo_db_def init_db_def name_of_def MAX_ACCOUNTS_def ACCOUNT_ID_LEN_def
      init_db_wf [unfolded init_db_def MAX_ACCOUNTS_def] init_db_abs [unfolded init_db_def MAX_ACCOUNTS_def])

section \<open>Properties\<close>

text \<open>
  C1: every operation of the account database (create, deposit, withdraw, query) on a well-formed
  database, for any account name that is a string in its array, returns, leaves the database
  well-formed with every mutex free again, has exactly the effect and result of the specification
  on the map from names to balances, and leaves the database unchanged when it reports an error.
\<close>

theorem account_operations_refine:
  assumes "db_wf d" "valid_op x"
  shows "\<exists>d' r v. account_step junk (Some d) x = Ret (Some d', r, v) \<and> db_wf d'
    \<and> spec_step (db_abs d) x = (db_abs d', r, v) \<and> (r \<noteq> 0 \<longrightarrow> d' = d)"
  by (rule account_step_runs [OF assms])

theorem account_operations_refine_witness:
  "\<exists>d' r v. account_step 0 (Some demo_db) (Withdraw alice (f64_of_nat 300)) = Ret (Some d', r, v)
    \<and> db_wf d' \<and> db_abs d' (chars ''alice'') = Some (f64_of_nat 700) \<and> r = 0"
proof -
  have "valid_op (Withdraw alice (f64_of_nat 300))" by (simp add: valid_op_def)
  from account_operations_refine [OF demo_db_wf this, of 0] show ?thesis
    by (auto simp: f64_of_nat_lt f64_of_nat_le [of _ 0, simplified] f64_of_nat_sub
        dest!: sym [of _ "db_abs _"])
qed

text \<open>
  C11: whatever sequence of operations is run from the database \<open>account_init\<close> leaves, it returns, and
  no balance ever compares below zero: no path overdraws an account, and the rounding of \<open>+\<close> and
  \<open>-\<close> does not either. (A balance may be
  infinite or NaN.)
\<close>

theorem balances_never_negative:
  assumes "\<forall>x\<in>set xs. valid_op x"
  shows "\<exists>d rs. run_steps (account_step junk) (Some init_db) xs = Ret (Some d, rs) \<and> db_wf d
    \<and> (\<forall>k b. db_abs d k = Some b \<longrightarrow> \<not> f64_lt b 0)"
proof -
  have wf: "ptr_wf (Some init_db)" by (simp add: ptr_wf_def)
  obtain db rs where run: "run_steps (account_step junk) (Some init_db) xs = Ret (db, rs)" "ptr_wf db"
    using account_db.run_implements [OF wf assms] by blast
  moreover have "\<forall>k b. ptr_abs db k = Some b \<longrightarrow> f64_nonneg b"
    by (rule account_db.never_negative [OF wf assms run(1)]) (simp add: ptr_abs_def)
  ultimately show ?thesis by (cases db) (auto simp: ptr_wf_def ptr_abs_def)
qed

theorem balances_never_negative_witness:
  "\<exists>d rs. run_steps (account_step 0) (Some init_db)
      [Create alice (f64_of_nat 5), Withdraw alice (f64_of_nat 7)] = Ret (Some d, rs) \<and> db_wf d
    \<and> (\<forall>k b. db_abs d k = Some b \<longrightarrow> \<not> f64_lt b 0)"
  by (rule balances_never_negative) (simp add: valid_op_def)

text \<open>
  C30: accounts are isolated and permanent. A history of operations that never names an account
  leaves its balance as it was, bit for bit, and no history removes an account.
\<close>

theorem histories_isolate_accounts:
  assumes "db_wf d" "\<forall>x\<in>set xs. valid_op x" "\<forall>x\<in>set xs. string_of (op_id x) \<noteq> k"
  shows "\<exists>d' rs. run_steps (account_step junk) (Some d) xs = Ret (Some d', rs)
    \<and> db_abs d' k = db_abs d k \<and> dom (db_abs d) \<subseteq> dom (db_abs d')"
proof -
  have wf: "ptr_wf (Some d)" using assms(1) by (simp add: ptr_wf_def)
  obtain db rs where run: "run_steps (account_step junk) (Some d) xs = Ret (db, rs)" "ptr_wf db"
    using account_db.run_implements [OF wf assms(2)] by blast
  with account_db.others_untouched [OF wf assms(2) run(1) assms(3)] account_db.accounts_stay [OF wf assms(2) run(1)]
  show ?thesis by (cases db) (auto simp: ptr_wf_def ptr_abs_def)
qed

theorem histories_isolate_accounts_witness:
  "\<exists>d' rs. run_steps (account_step 0) (Some demo_db) [Create (id_of ''bob'') 0, Deposit (id_of ''bob'') 1]
      = Ret (Some d', rs) \<and> db_abs d' (chars ''alice'') = Some (f64_of_nat 1000)"
proof -
  have "valid_op (Create (id_of ''bob'') 0)" "valid_op (Deposit (id_of ''bob'') 1)"
    "string_of (id_of ''bob'') \<noteq> chars ''alice''"
    by (simp_all add: valid_op_def valid_id_def id_of_def ACCOUNT_ID_LEN_def chars_def)
  with histories_isolate_accounts [OF demo_db_wf, of "[Create (id_of ''bob'') 0, Deposit (id_of ''bob'') 1]"
      "chars ''alice''" 0]
  show ?thesis by force
qed

text \<open>
  C31: money in whole units is exact. On an account whose balance is a whole number, a deposit of a positive
  whole amount, where the two together stay below \<open>2 ^ 53\<close>, succeeds and adds exactly that amount, and
  withdrawing it again succeeds and gives the abstract bank as it was, bit for bit. (A balance such as 0.1
  need not come back.)
\<close>

theorem whole_deposit_withdraw_exact:
  assumes "db_wf d" "valid_id s" "db_abs d (string_of s) = Some (f64_of_nat n)"
    and "0 < m" "n + m < 2 ^ 53"
  shows "\<exists>d1 d2. account_deposit (Some d) (Some s) (f64_of_nat m) nb
        = Ret (Some d1, map_option (\<lambda>_. f64_of_nat (n + m)) nb, 0)
      \<and> db_abs d1 (string_of s) = Some (f64_of_nat (n + m))
      \<and> account_withdraw (Some d1) (Some s) (f64_of_nat m) nb
        = Ret (Some d2, map_option (\<lambda>_. f64_of_nat n) nb, 0)
      \<and> db_abs d2 = db_abs d"
proof -
  have pos: "\<not> f64_le (f64_of_nat m) 0" using assms(4,5) f64_of_nat_le [of m 0] by simp
  have fits: "\<not> f64_lt (f64_of_nat (n + m)) (f64_of_nat m)" using assms(5) by (simp add: f64_of_nat_lt)
  have add: "f64_add (f64_of_nat n) (f64_of_nat m) = f64_of_nat (n + m)"
    "f64_sub (f64_of_nat (n + m)) (f64_of_nat m) = f64_of_nat n"
    using assms(5) by (simp_all add: f64_of_nat_add f64_of_nat_sub)
  have nul: "terminated s" using assms(2) by (simp add: valid_id_def)
  obtain d1 where d1: "account_deposit (Some d) (Some s) (f64_of_nat m) nb
      = Ret (Some d1, map_option (\<lambda>_. f64_of_nat (n + m)) nb, 0)" "db_wf d1"
    "db_abs d1 = (db_abs d)(string_of s \<mapsto> f64_of_nat (n + m))"
    using account_deposit_runs [OF assms(1) nul, of "f64_of_nat m" nb] assms(3) pos
    by (auto simp: add out_cell_def)
  then obtain d2 where "account_withdraw (Some d1) (Some s) (f64_of_nat m) nb
      = Ret (Some d2, map_option (\<lambda>_. f64_of_nat n) nb, 0)"
    "db_abs d2 = (db_abs d1)(string_of s \<mapsto> f64_of_nat n)"
    using account_withdraw_runs [OF d1(2) nul, of "f64_of_nat m" nb] pos fits
    by (auto simp: add out_cell_def)
  then show ?thesis using d1 assms(3) by (auto simp: fun_upd_idem)
qed

theorem whole_deposit_withdraw_exact_witness:
  "\<exists>d1 d2. account_deposit (Some demo_db) (Some alice) (f64_of_nat 100) (Some 0)
        = Ret (Some d1, Some (f64_of_nat 1100), 0)
      \<and> account_withdraw (Some d1) (Some alice) (f64_of_nat 100) (Some 0) = Ret (Some d2, Some (f64_of_nat 1000), 0)
      \<and> db_abs d2 = [chars ''alice'' \<mapsto> f64_of_nat 1000]"
  using whole_deposit_withdraw_exact [OF demo_db_wf, of alice 1000 100 "Some 0"] by force

text \<open>
  Amounts that do not add up exactly still move a balance the right way. On an account with a
  finite balance, a deposit of a positive finite amount succeeds and stores and reports a balance
  that is not lower; a withdrawal is refused as -3 exactly when the balance is below the amount, and
  otherwise stores and reports a balance that is neither higher nor negative, whatever the rounding.
\<close>

theorem transactions_monotone:
  assumes "db_wf d" "terminated s" "db_abs d (string_of s) = Some b" "is_finite b" "is_finite a"
    and "\<not> f64_le a 0"
  shows "(\<exists>d' v. account_deposit (Some d) (Some s) a (Some junk) = Ret (Some d', Some v, 0)
        \<and> db_abs d' = (db_abs d)(string_of s \<mapsto> v) \<and> f64_le b v)
    \<and> (if f64_lt b a then account_withdraw (Some d) (Some s) a (Some junk) = Ret (Some d, Some junk, -3)
       else \<exists>d' v. account_withdraw (Some d) (Some s) a (Some junk) = Ret (Some d', Some v, 0)
        \<and> db_abs d' = (db_abs d)(string_of s \<mapsto> v) \<and> f64_le v b \<and> \<not> f64_lt v 0)"
proof -
  have pos: "f64_le 0 a" "f64_nonneg a" using assms(5,6) by (simp_all add: f64_le_val f64_lt_val)
  have "\<exists>d' v. account_deposit (Some d) (Some s) a (Some junk) = Ret (Some d', Some v, 0)
        \<and> db_abs d' = (db_abs d)(string_of s \<mapsto> v) \<and> f64_le b v"
    using account_deposit_runs [OF assms(1,2), of a "Some junk"] assms(3,4,6) pos f64_add_increases [of b a]
    by (auto simp: out_cell_def dest!: sym [of _ "db_abs _"])
  moreover have "if f64_lt b a then account_withdraw (Some d) (Some s) a (Some junk) = Ret (Some d, Some junk, -3)
       else \<exists>d' v. account_withdraw (Some d) (Some s) a (Some junk) = Ret (Some d', Some v, 0)
        \<and> db_abs d' = (db_abs d)(string_of s \<mapsto> v) \<and> f64_le v b \<and> \<not> f64_lt v 0"
    using account_withdraw_runs [OF assms(1,2), of a "Some junk"] assms(3-6) pos
      f64_sub_decreases [of b a] f64_sub_nonneg [of b a]
    by (auto simp: out_cell_def dest!: sym [of _ "db_abs _"])
  ultimately show ?thesis by blast
qed

theorem transactions_monotone_witness:
  "\<exists>d' v. account_withdraw (Some demo_db) (Some alice) (f64_of_nat 300) (Some 0) = Ret (Some d', Some v, 0)
      \<and> db_abs d' (chars ''alice'') = Some v \<and> f64_le v (f64_of_nat 1000)"
  using transactions_monotone [OF demo_db_wf, of alice "f64_of_nat 1000" "f64_of_nat 300" 0]
    f64_of_nat_exact [of 1000] f64_of_nat_exact [of 300] f64_of_nat_le [of 300 0]
  by (auto simp: f64_of_nat_lt)

text \<open>
  C34: the checks on amounts let a NaN through. A deposit of a NaN is accepted and makes the balance
  a NaN, and from then on every withdrawal of every positive amount succeeds.
\<close>

theorem nan_deposit_lifts_the_limit:
  assumes "db_wf d" "terminated s" "db_abs d (string_of s) = Some b" "is_nan a" "\<not> f64_le w 0"
  shows "\<exists>d1 v1 d2 v2 c. account_deposit (Some d) (Some s) a nb = Ret (Some d1, v1, 0)
    \<and> account_withdraw (Some d1) (Some s) w nb = Ret (Some d2, v2, 0)
    \<and> db_abs d2 (string_of s) = Some c \<and> is_nan c"
proof -
  have nan: "is_nan (f64_add b a)" "is_nan (f64_sub (f64_add b a) w)"
    using assms(4) by (simp_all add: f64_add_is_nan f64_sub_is_nan)
  obtain d1 v1 where d1: "account_deposit (Some d) (Some s) a nb = Ret (Some d1, v1, 0)" "db_wf d1"
    "db_abs d1 = (db_abs d)(string_of s \<mapsto> f64_add b a)"
    using account_deposit_runs [OF assms(1,2), of a nb] assms(3,4) by auto
  then obtain d2 v2 where "account_withdraw (Some d1) (Some s) w nb = Ret (Some d2, v2, 0)"
    "db_abs d2 = (db_abs d1)(string_of s \<mapsto> f64_sub (f64_add b a) w)"
    using account_withdraw_runs [OF d1(2) assms(2), of w nb] assms(5) nan by auto
  then show ?thesis using d1 nan by force
qed

theorem nan_deposit_lifts_the_limit_witness:
  "\<exists>d1 v1 d2 v2 c. account_deposit (Some demo_db) (Some alice) f64_default_nan None = Ret (Some d1, v1, 0)
    \<and> account_withdraw (Some d1) (Some alice) (f64_of_nat 1000000) None = Ret (Some d2, v2, 0)
    \<and> db_abs d2 (chars ''alice'') = Some c \<and> is_nan c"
  using nan_deposit_lifts_the_limit [OF demo_db_wf, of alice "f64_of_nat 1000" f64_default_nan
      "f64_of_nat 1000000" None] f64_of_nat_le [of 1000000 0] by simp

text \<open>
  \<open>account_create\<close> needs its caller to pass a string. For an array of 20 bytes with no terminator
  (what an unpacked request may hold), a new account runs past the array, in the message it prints.
\<close>

theorem account_create_overreads:
  assumes "db_wf d" "account_count d < MAX_ACCOUNTS" "length s = ACCOUNT_ID_LEN" "\<not> terminated s"
    and "\<not> f64_lt x 0"
  shows "account_create (Some d) (Some s) x = Fault Over_Read"
proof -
  have "strncpy_image s 19 = Ret (take 19 s)"
    using assms(3,4) by (intro strncpy_image_prefix) (auto simp: ACCOUNT_ID_LEN_def dest: in_set_takeD)
  moreover have "length (account_id (accounts d ! account_count d)) = ACCOUNT_ID_LEN"
    using assms(1,2) by (simp add: db_wf_def db_shape_def)
  ultimately have "\<exists>name. c_strncpy (account_id (accounts d ! account_count d)) s (ACCOUNT_ID_LEN - Suc 0) = Ret name"
    using assms(3) by (simp add: c_strncpy_def c_write_def ACCOUNT_ID_LEN_def)
  then show ?thesis using assms account_find_unterminated [OF wf_shape [OF assms(1)] assms(4,3)]
    by (auto simp: account_run unlock_db_def)
qed

theorem account_create_overreads_witness:
  "account_create (Some init_db) (Some (replicate 20 65)) (f64_of_nat 5) = Fault Over_Read"
  by (rule account_create_overreads [OF init_db_wf])
     (simp_all add: init_db_def MAX_ACCOUNTS_def ACCOUNT_ID_LEN_def f64_of_nat_lt [of _ 0, simplified])

lemma destroy_locks_free:
  "\<forall>a\<in>set as. lock a = Mutex True False \<Longrightarrow>
     destroy_locks as = Ret (map (\<lambda>a. a\<lparr>lock := Raw_Mutex\<rparr>) as)"
  by (induction as) auto

text \<open>
  The life of the database. \<open>account_init\<close> overwrites any memory with an empty well-formed
  database whose 101 mutexes are shared between processes and free; from any well-formed database
  \<open>account_cleanup\<close> returns with all of them destroyed and the accounts as they were; a null pointer
  is refused by the one and ignored by the other.
\<close>

theorem database_lifecycle:
  assumes "db_wf d"
  shows "account_init (Some d0) = Ret (Some init_db, 0) \<and> db_wf init_db \<and> db_abs init_db = Map.empty
    \<and> account_init None = Ret (None, -1) \<and> account_cleanup None = Ret None
    \<and> (\<exists>d'. account_cleanup (Some d) = Ret (Some d') \<and> db_lock d' = Raw_Mutex
        \<and> (\<forall>a\<in>set (accounts d'). lock a = Raw_Mutex) \<and> db_abs d' = db_abs d)"
proof -
  let ?free = "\<lambda>a. a\<lparr>lock := Raw_Mutex\<rparr>"
  have "account_cleanup (Some d) = Ret (Some (d\<lparr>db_lock := Raw_Mutex, accounts := map ?free (accounts d)\<rparr>))"
    using assms by (simp add: account_cleanup_def db_wf_def db_quiet_def destroy_locks_free)
  moreover have "db_abs (d\<lparr>db_lock := Raw_Mutex, accounts := map ?free (accounts d)\<rparr>) = db_abs d"
    by (simp add: db_abs_def live_accounts_def take_map comp_def name_of_def)
  ultimately show ?thesis
    by (auto simp: account_init_eq) (simp_all add: account_init_def account_cleanup_def)
qed

theorem database_lifecycle_witness:
  "\<exists>d'. account_cleanup (Some demo_db) = Ret (Some d') \<and> db_lock d' = Raw_Mutex
      \<and> db_abs d' = [chars ''alice'' \<mapsto> f64_of_nat 1000]"
  using database_lifecycle [OF demo_db_wf, of init_db] by auto

end
