(* ===== verification/Protocol.thy ===== *)
theory Protocol
  imports C_Memory "HOL-Library.Multiset"
begin

text \<open>
  The application protocol: \<open>common/src/crypto.c\<close> (the checksum), \<open>common/include/protocol.h\<close> (the
  packet, the operation and status codes, the payload structs) and \<open>common/src/protocol.c\<close>
  (\<open>pack_request\<close>, \<open>unpack_request\<close> and their response versions).

  Structs are records of their fields, arrays of \<open>char\<close> are lists of bytes; every struct that is sent
  is packed, and comes with its byte image and the reading of it. The fields of a header hold what
  the C fields hold: integers in network byte order where the code stores \<open>htonl\<close> of them.
  \<open>rand ()\<close> is an argument. The locale \<open>wire_struct\<close> is the contract of a payload struct (its image
  has a fixed size and determines it); the round trip of a packed request is proved once from it,
  and it is interpreted for the seven structs of the protocol.
\<close>

section \<open>The checksum of crypto.c\<close>

text \<open>The loop reads \<open>bytes[i]\<close> for \<open>i < len\<close> and wraps in 16 bits.\<close>

fun checksum_loop :: "byte list \<Rightarrow> nat \<Rightarrow> u16 \<Rightarrow> u16 run" where
  "checksum_loop [] len acc = (if len = 0 then Ret acc else Fault Over_Read)"
| "checksum_loop (b # bs) len acc =
     (if len = 0 then Ret acc else checksum_loop bs (len - 1) (acc + ucast b))"

definition calculate_checksum :: "byte list \<Rightarrow> nat \<Rightarrow> u16 run" where
  "calculate_checksum dat len = checksum_loop dat len 0"

definition verify_checksum :: "u16 \<Rightarrow> byte list \<Rightarrow> nat \<Rightarrow> int run" where
  "verify_checksum received_sum dat len =
     bind_run (calculate_checksum dat len) (\<lambda>calculated. Ret (if received_sum = calculated then 1 else 0))"

definition byte_sum :: "byte list \<Rightarrow> nat" where "byte_sum bs = sum_list (map unat bs)"

lemma byte_sum_simps [simp]:
  "byte_sum [] = 0" "byte_sum (b # bs) = unat b + byte_sum bs"
  "byte_sum (xs @ ys) = byte_sum xs + byte_sum ys"
  by (simp_all add: byte_sum_def)

lemma checksum_loop_eq:
  "checksum_loop bs len acc =
     (if len \<le> length bs then Ret (acc + word_of_nat (byte_sum (take len bs))) else Fault Over_Read)"
proof (induction bs len acc rule: checksum_loop.induct)
  case (2 b bs len acc)
  then show ?case by (cases len) (simp_all add: unsigned_ucast_eq add.assoc)
qed simp

lemma calculate_checksum_eq:
  "calculate_checksum bs len =
     (if len \<le> length bs then Ret (word_of_nat (byte_sum (take len bs))) else Fault Over_Read)"
  by (simp add: calculate_checksum_def checksum_loop_eq)

text \<open>Bytes that differ in one place have different checksums.\<close>

lemma byte_sum_update:
  "i < length bs \<Longrightarrow> byte_sum (bs[i := b]) + unat (bs ! i) = byte_sum bs + unat b"
  by (induction bs arbitrary: i) (auto split: nat.splits)

lemma checksum_update_differs:
  assumes "i < length bs" "b \<noteq> bs ! i"
  shows "(word_of_nat (byte_sum (bs[i := b])) :: u16) \<noteq> word_of_nat (byte_sum bs)"
proof
  assume "(word_of_nat (byte_sum (bs[i := b])) :: u16) = word_of_nat (byte_sum bs)"
  then have "(word_of_nat (byte_sum (bs[i := b]) + unat (bs ! i)) :: u16) =
      word_of_nat (byte_sum bs + unat (bs ! i))" by simp
  then have "(word_of_nat (unat b) :: u16) = word_of_nat (unat (bs ! i))"
    by (simp only: byte_sum_update [OF assms(1)] of_nat_add add_left_cancel)
  moreover have "unat (word_of_nat (unat x) :: u16) = unat x" for x :: byte
    using order.strict_trans [OF unat_byte_less [of x], of 65536]
    by (simp add: unsigned_ucast_eq take_bit_nat_eq_self_iff)
  ultimately have "unat b = unat (bs ! i)" by metis
  with assms(2) show False by (simp add: word_unat_eq_iff)
qed

section \<open>Packets\<close>

definition MAX_DATA_SIZE :: nat where "MAX_DATA_SIZE = 1024"
definition PROTOCOL_HEADER_SIZE :: nat where "PROTOCOL_HEADER_SIZE = 12"
definition PACKET_SIZE :: nat where "PACKET_SIZE = PROTOCOL_HEADER_SIZE + MAX_DATA_SIZE"

definition OP_CREATE_ACCOUNT :: u16 where "OP_CREATE_ACCOUNT = 0x0001"
definition OP_DEPOSIT :: u16 where "OP_DEPOSIT = 0x0002"
definition OP_WITHDRAW :: u16 where "OP_WITHDRAW = 0x0003"
definition OP_BALANCE :: u16 where "OP_BALANCE = 0x0004"
definition OP_RESPONSE :: u16 where "OP_RESPONSE = 0x00FF"
definition OP_REQ_OTP :: u16 where "OP_REQ_OTP = 0x0005"
definition OP_LOGIN :: u16 where "OP_LOGIN = 0x0006"

definition STATUS_SUCCESS :: int where "STATUS_SUCCESS = 0"
definition STATUS_ERROR :: int where "STATUS_ERROR = -1"
definition STATUS_ACCOUNT_NOT_FOUND :: int where "STATUS_ACCOUNT_NOT_FOUND = -2"
definition STATUS_INSUFFICIENT_FUNDS :: int where "STATUS_INSUFFICIENT_FUNDS = -3"
definition STATUS_ACCOUNT_EXISTS :: int where "STATUS_ACCOUNT_EXISTS = -4"
definition STATUS_DB_FULL :: int where "STATUS_DB_FULL = -5"
definition STATUS_INVALID_AMOUNT :: int where "STATUS_INVALID_AMOUNT = -6"

lemmas op_defs = OP_CREATE_ACCOUNT_def OP_DEPOSIT_def OP_WITHDRAW_def OP_BALANCE_def
  OP_RESPONSE_def OP_REQ_OTP_def OP_LOGIN_def
lemmas status_defs = STATUS_SUCCESS_def STATUS_ERROR_def STATUS_ACCOUNT_NOT_FOUND_def
  STATUS_INSUFFICIENT_FUNDS_def STATUS_ACCOUNT_EXISTS_def STATUS_DB_FULL_def
  STATUS_INVALID_AMOUNT_def
lemmas size_defs = MAX_DATA_SIZE_def PROTOCOL_HEADER_SIZE_def PACKET_SIZE_def

record PacketHeader =
  hlength :: u32      \<comment> \<open>\<open>length\<close>\<close>
  op_code :: u16
  checksum :: u16
  req_id :: u32

record BankingPacket =
  header :: PacketHeader
  data :: "byte list"

definition packet_wf :: "BankingPacket \<Rightarrow> bool" where
  "packet_wf p \<longleftrightarrow> length (data p) = MAX_DATA_SIZE"

definition header_bytes :: "PacketHeader \<Rightarrow> byte list" where
  "header_bytes h = bytes32 (hlength h) @ bytes16 (op_code h) @ bytes16 (checksum h) @ bytes32 (req_id h)"

definition packet_bytes :: "BankingPacket \<Rightarrow> byte list" where
  "packet_bytes p = header_bytes (header p) @ data p"

definition header_of_bytes :: "byte list \<Rightarrow> PacketHeader" where
  "header_of_bytes bs = \<lparr>hlength = word32 (take 4 bs), op_code = word16 (take 2 (drop 4 bs)),
     checksum = word16 (take 2 (drop 6 bs)), req_id = word32 (take 4 (drop 8 bs))\<rparr>"

definition packet_of_bytes :: "byte list \<Rightarrow> BankingPacket" where
  "packet_of_bytes bs = \<lparr>header = header_of_bytes bs, data = take MAX_DATA_SIZE (drop PROTOCOL_HEADER_SIZE bs)\<rparr>"

lemma length_header_bytes [simp, width_simps]: "length (header_bytes h) = 12"
  by (simp add: header_bytes_def)

lemma length_packet_bytes [width_simps]: "packet_wf p \<Longrightarrow> length (packet_bytes p) = PACKET_SIZE"
  by (simp add: packet_bytes_def packet_wf_def size_defs)

lemma header_of_header_bytes [simp, roundtrip_simps]: "header_of_bytes (header_bytes h @ bs) = h"
  by (simp add: header_of_bytes_def header_bytes_def)

lemma packet_of_packet_bytes [roundtrip_simps]:
  "packet_wf p \<Longrightarrow> packet_of_bytes (packet_bytes p) = p"
  by (simp add: packet_of_bytes_def packet_bytes_def packet_wf_def size_defs)

lemma packet_of_bytes_wf: "length bs = PACKET_SIZE \<Longrightarrow> packet_wf (packet_of_bytes bs)"
  by (simp add: packet_of_bytes_def packet_wf_def size_defs)

section \<open>Packing and unpacking\<close>

text \<open>
  \<open>ntohl (packet->header.length) - PROTOCOL_HEADER_SIZE\<close> is a \<open>size_t\<close>: the 32-bit length is widened
  to 64 bits and the difference wraps around when the length is below the header's size.
\<close>

definition packet_data_size :: "BankingPacket \<Rightarrow> nat" where
  "packet_data_size packet =
     unat (ucast (ntohl (hlength (header packet))) - word_of_nat PROTOCOL_HEADER_SIZE :: size_t)"

definition verify_packet_checksum :: "BankingPacket \<Rightarrow> int run" where
  "verify_packet_checksum packet =
     bind_run (calculate_checksum (data packet) (packet_data_size packet))
       (\<lambda>calculated. Ret (if calculated = ntohs (checksum (header packet)) then 0 else -1))"

text \<open>\<open>if (data && data_size > 0) memcpy (packet->data, data, data_size)\<close> into the cleared packet.\<close>

definition copy_payload :: "byte list option \<Rightarrow> nat \<Rightarrow> byte list run" where
  "copy_payload dat data_size = (let zeroed = replicate MAX_DATA_SIZE 0 in
     case dat of None \<Rightarrow> Ret zeroed
     | Some d \<Rightarrow> if data_size = 0 then Ret zeroed
                 else if length d < data_size then Fault Over_Read
                 else Ret (put_bytes zeroed (take data_size d)))"

definition pack_request ::
    "u32 \<Rightarrow> BankingPacket \<Rightarrow> u16 \<Rightarrow> byte list option \<Rightarrow> nat \<Rightarrow> (BankingPacket \<times> int) run" where
  "pack_request rnd packet opcode dat data_size =
     (if MAX_DATA_SIZE < data_size then Ret (packet, -1)
      else bind_run (copy_payload dat data_size) (\<lambda>buf.
           bind_run (calculate_checksum buf data_size) (\<lambda>c.
           Ret (\<lparr>header = \<lparr>hlength = htonl (word_of_nat (PROTOCOL_HEADER_SIZE + data_size)),
                            op_code = htons opcode, checksum = htons c, req_id = rnd\<rparr>,
                 data = buf\<rparr>, 0))))"

definition unpack_request ::
    "BankingPacket \<Rightarrow> byte list \<Rightarrow> nat \<Rightarrow> (byte list \<times> int) run" where
  "unpack_request packet buf data_size =
     bind_run (verify_packet_checksum packet) (\<lambda>v.
       if v \<noteq> 0 then Ret (buf, -1)
       else let actual = packet_data_size packet in
         if data_size < actual then Ret (buf, -1)
         else if length (data packet) < actual then Fault Over_Read
         else if length buf < actual then Fault Over_Write
         else Ret (put_bytes buf (take actual (data packet)), 0))"

lemma packet_data_size_eq:
  "packet_data_size p = (let n = unat (ntohl (hlength (header p))) in
     if 12 \<le> n then n - 12 else 2 ^ 64 - 12 + n)"
proof -
  define n where "n = unat (ntohl (hlength (header p)))"
  have "n < 2 ^ 32" unfolding n_def by (rule unat_u32_less)
  then have u: "unat (ucast (ntohl (hlength (header p))) :: size_t) = n"
    by (simp add: n_def unsigned_ucast_eq take_bit_nat_eq_self_iff)
  have "packet_data_size p = unat (ucast (ntohl (hlength (header p))) - 12 :: size_t)"
    by (simp add: packet_data_size_def PROTOCOL_HEADER_SIZE_def)
  also have "\<dots> = (if 12 \<le> n then n - 12 else n + 2 ^ 64 - 12)"
    using unat_sub_if' [of "ucast (ntohl (hlength (header p)))" "12 :: size_t"] u by simp
  finally show ?thesis unfolding n_def [symmetric] by (simp add: Let_def)
qed

text \<open>The length a packet announces, and the packet \<open>pack_request\<close> builds.\<close>

abbreviation announced :: "BankingPacket \<Rightarrow> nat" where
  "announced p \<equiv> unat (ntohl (hlength (header p)))"

lemma verify_packet_checksum_eq:
  assumes "packet_wf p"
  shows "verify_packet_checksum p =
    (if 12 \<le> announced p \<and> announced p \<le> 1036
     then Ret (if word_of_nat (byte_sum (take (announced p - 12) (data p))) = ntohs (checksum (header p))
       then 0 else -1)
     else Fault Over_Read)"
proof -
  have "packet_data_size p \<le> length (data p) \<longleftrightarrow> 12 \<le> announced p \<and> announced p \<le> 1036"
    using assms by (auto simp: packet_data_size_eq Let_def packet_wf_def size_defs)
  moreover have "packet_data_size p = announced p - 12" if "12 \<le> announced p"
    using that by (simp add: packet_data_size_eq Let_def)
  ultimately show ?thesis
    by (auto simp: verify_packet_checksum_def calculate_checksum_eq)
qed

lemma pack_request_eq:
  assumes "n \<le> length d" "n \<le> MAX_DATA_SIZE"
  shows "pack_request rnd p0 op (Some d) n =
    Ret (\<lparr>header = \<lparr>hlength = htonl (word_of_nat (12 + n)), op_code = htons op,
            checksum = htons (word_of_nat (byte_sum (take n d))), req_id = rnd\<rparr>,
          data = take n d @ replicate (MAX_DATA_SIZE - n) 0\<rparr>, 0)"
proof -
  have "copy_payload (Some d) n = Ret (take n d @ replicate (MAX_DATA_SIZE - n) 0)"
    using assms by (simp add: copy_payload_def put_bytes_def Let_def)
  moreover have "calculate_checksum (take n d @ replicate (MAX_DATA_SIZE - n) 0) n =
      Ret (word_of_nat (byte_sum (take n d)))"
    using assms by (simp add: calculate_checksum_eq)
  ultimately show ?thesis using assms by (simp add: pack_request_def PROTOCOL_HEADER_SIZE_def)
qed

lemma announced_small: "n \<le> MAX_DATA_SIZE \<Longrightarrow> unat (word_of_nat (12 + n) :: u32) = 12 + n"
  by (simp add: unat_of_nat MAX_DATA_SIZE_def del: of_nat_add)

text \<open>A packed request unpacks to its payload, in a buffer that may be larger.\<close>

lemma unpack_pack_request:
  assumes "n \<le> length d" "n \<le> MAX_DATA_SIZE" "n \<le> sz" "sz \<le> length buf"
    and "pack_request rnd p0 op (Some d) n = Ret (p, r)"
  shows "r = 0" "packet_wf p" "op_code (header p) = htons op" "req_id (header p) = rnd"
    "verify_packet_checksum p = Ret 0" "unpack_request p buf sz = Ret (put_bytes buf (take n d), 0)"
proof -
  note p = assms(5) [unfolded pack_request_eq [OF assms(1,2)], simplified]
  note small = announced_small [OF assms(2), simplified]
  show wf: "r = 0" "packet_wf p" "op_code (header p) = htons op" "req_id (header p) = rnd"
    using p assms(1,2) by (auto simp: packet_wf_def)
  have size: "announced p = 12 + n" "data p = take n d @ replicate (MAX_DATA_SIZE - n) 0"
    using p small by auto
  then show verify: "verify_packet_checksum p = Ret 0"
    using assms(1,2) p by (subst verify_packet_checksum_eq [OF wf(2)]) (auto simp: MAX_DATA_SIZE_def)
  have "packet_data_size p = n" by (simp add: packet_data_size_eq size(1) Let_def)
  then show "unpack_request p buf sz = Ret (put_bytes buf (take n d), 0)"
    using assms(1-4) by (simp add: unpack_request_def verify size(2) Let_def)
qed

lemma unpack_request_bounds:
  assumes "packet_wf p" "sz \<le> length buf" "sz \<le> MAX_DATA_SIZE" "unpack_request p buf sz = Ret (b, r)"
  shows "length b = length buf \<and> (r \<noteq> 0 \<longrightarrow> b = buf)"
  using assms by (auto simp: unpack_request_def bind_run_eq_Ret Let_def packet_wf_def split: if_splits)

section \<open>Payload structs\<close>

record CreateAccountRequest =
  account_id :: "byte list"
  initial_balance :: f64

record DepositRequest =
  account_id :: "byte list"
  amount :: f64

record WithdrawRequest =
  account_id :: "byte list"
  amount :: f64

record BalanceRequest =
  account_id :: "byte list"

record BankingResponse =
  status :: u32       \<comment> \<open>the 32 bits of the \<open>int\<close>\<close>
  message :: "byte list"
  balance :: f64

record OtpRequest =
  account_id :: "byte list"

record LoginRequest =
  account_id :: "byte list"
  otp :: "byte list"

definition create_bytes :: "CreateAccountRequest \<Rightarrow> byte list" where
  "create_bytes r = CreateAccountRequest.account_id r @ bytes64 (initial_balance r)"

definition create_of_bytes :: "byte list \<Rightarrow> CreateAccountRequest" where
  "create_of_bytes bs = \<lparr>CreateAccountRequest.account_id = take 20 bs, initial_balance = word64 (drop 20 bs)\<rparr>"

definition deposit_bytes :: "DepositRequest \<Rightarrow> byte list" where
  "deposit_bytes r = DepositRequest.account_id r @ bytes64 (DepositRequest.amount r)"

definition deposit_of_bytes :: "byte list \<Rightarrow> DepositRequest" where
  "deposit_of_bytes bs = \<lparr>DepositRequest.account_id = take 20 bs, amount = word64 (drop 20 bs)\<rparr>"

definition withdraw_bytes :: "WithdrawRequest \<Rightarrow> byte list" where
  "withdraw_bytes r = WithdrawRequest.account_id r @ bytes64 (WithdrawRequest.amount r)"

definition withdraw_of_bytes :: "byte list \<Rightarrow> WithdrawRequest" where
  "withdraw_of_bytes bs = \<lparr>WithdrawRequest.account_id = take 20 bs, amount = word64 (drop 20 bs)\<rparr>"

definition balance_bytes :: "BalanceRequest \<Rightarrow> byte list" where
  "balance_bytes r = BalanceRequest.account_id r"

definition balance_of_bytes :: "byte list \<Rightarrow> BalanceRequest" where
  "balance_of_bytes bs = \<lparr>BalanceRequest.account_id = bs\<rparr>"

definition response_bytes :: "BankingResponse \<Rightarrow> byte list" where
  "response_bytes r = bytes32 (status r) @ message r @ bytes64 (balance r)"

definition response_of_bytes :: "byte list \<Rightarrow> BankingResponse" where
  "response_of_bytes bs = \<lparr>status = word32 (take 4 bs), message = take 256 (drop 4 bs),
     balance = word64 (drop 260 bs)\<rparr>"

definition otp_request_bytes :: "OtpRequest \<Rightarrow> byte list" where
  "otp_request_bytes r = OtpRequest.account_id r"

definition otp_request_of_bytes :: "byte list \<Rightarrow> OtpRequest" where
  "otp_request_of_bytes bs = \<lparr>OtpRequest.account_id = bs\<rparr>"

definition login_bytes :: "LoginRequest \<Rightarrow> byte list" where
  "login_bytes r = LoginRequest.account_id r @ otp r"

definition login_of_bytes :: "byte list \<Rightarrow> LoginRequest" where
  "login_of_bytes bs = \<lparr>LoginRequest.account_id = take 20 bs, otp = drop 20 bs\<rparr>"

lemmas struct_defs = create_bytes_def create_of_bytes_def deposit_bytes_def deposit_of_bytes_def
  withdraw_bytes_def withdraw_of_bytes_def balance_bytes_def balance_of_bytes_def
  response_bytes_def response_of_bytes_def otp_request_bytes_def otp_request_of_bytes_def
  login_bytes_def login_of_bytes_def

text \<open>The sizes of the \<open>sizeof\<close> expressions.\<close>

definition CREATE_SIZE :: nat where "CREATE_SIZE = 28"
definition DEPOSIT_SIZE :: nat where "DEPOSIT_SIZE = 28"
definition WITHDRAW_SIZE :: nat where "WITHDRAW_SIZE = 28"
definition BALANCE_SIZE :: nat where "BALANCE_SIZE = 20"
definition RESPONSE_SIZE :: nat where "RESPONSE_SIZE = 268"
definition OTP_REQUEST_SIZE :: nat where "OTP_REQUEST_SIZE = 20"
definition LOGIN_SIZE :: nat where "LOGIN_SIZE = 30"

lemmas struct_sizes = CREATE_SIZE_def DEPOSIT_SIZE_def WITHDRAW_SIZE_def BALANCE_SIZE_def
  RESPONSE_SIZE_def OTP_REQUEST_SIZE_def LOGIN_SIZE_def

definition pack_response :: "u32 \<Rightarrow> BankingPacket \<Rightarrow> BankingResponse \<Rightarrow> (BankingPacket \<times> int) run" where
  "pack_response rnd packet response =
     pack_request rnd packet OP_RESPONSE (Some (response_bytes response)) RESPONSE_SIZE"

definition unpack_response :: "BankingPacket \<Rightarrow> BankingResponse \<Rightarrow> (BankingResponse \<times> int) run" where
  "unpack_response packet response =
     bind_run (unpack_request packet (response_bytes response) RESPONSE_SIZE)
       (\<lambda>(bs, r). Ret (response_of_bytes bs, r))"

text \<open>
  The contract of a payload struct: \<open>ok\<close> holds of the values whose arrays have their declared
  lengths, and between these and the images of \<open>sz\<close> bytes the two readings are inverse.
\<close>

locale wire_struct =
  fixes enc :: "'a \<Rightarrow> byte list" and dec :: "byte list \<Rightarrow> 'a" and ok :: "'a \<Rightarrow> bool" and sz :: nat
  assumes length_enc: "ok x \<Longrightarrow> length (enc x) = sz"
    and dec_enc: "ok x \<Longrightarrow> dec (enc x) = x"
    and ok_dec: "length bs = sz \<Longrightarrow> ok (dec bs)"
    and enc_dec: "length bs = sz \<Longrightarrow> enc (dec bs) = bs"
    and fits: "sz \<le> MAX_DATA_SIZE"
begin

lemma enc_inject: "ok x \<Longrightarrow> ok y \<Longrightarrow> enc x = enc y \<longleftrightarrow> x = y"
  by (metis dec_enc)

lemma pack_succeeds: "ok x \<Longrightarrow> \<exists>p. pack_request rnd p0 op (Some (enc x)) sz = Ret (p, 0)"
  using fits by (simp add: pack_request_eq length_enc)

lemma roundtrip:
  assumes "ok x" "length buf = sz" "pack_request rnd p0 op (Some (enc x)) sz = Ret (p, r)"
  shows "r = 0" "packet_wf p" "ntohs (op_code (header p)) = op"
    "unpack_request (packet_of_bytes (packet_bytes p)) buf sz = Ret (enc x, 0)"
    "dec (enc x) = x"
proof -
  note unpack = unpack_pack_request [OF _ fits order.refl _ assms(3), of buf]
  show "r = 0" "packet_wf p" "ntohs (op_code (header p)) = op" "dec (enc x) = x"
    using unpack assms(1,2) by (simp_all add: length_enc dec_enc)
  then show "unpack_request (packet_of_bytes (packet_bytes p)) buf sz = Ret (enc x, 0)"
    using unpack(6) assms(1,2) by (simp add: packet_of_packet_bytes length_enc)
qed

end

lemma take_take_drop: "k = m + n \<Longrightarrow> take m bs @ take n (drop m bs) @ drop k bs = bs"
  by (metis append.assoc append_take_drop_id take_add)

interpretation create_struct: wire_struct create_bytes create_of_bytes
  "\<lambda>r. length (CreateAccountRequest.account_id r) = 20" CREATE_SIZE
  by unfold_locales (auto simp: struct_defs struct_sizes size_defs bytes_word)

interpretation deposit_struct: wire_struct deposit_bytes deposit_of_bytes
  "\<lambda>r. length (DepositRequest.account_id r) = 20" DEPOSIT_SIZE
  by unfold_locales (auto simp: struct_defs struct_sizes size_defs bytes_word)

interpretation withdraw_struct: wire_struct withdraw_bytes withdraw_of_bytes
  "\<lambda>r. length (WithdrawRequest.account_id r) = 20" WITHDRAW_SIZE
  by unfold_locales (auto simp: struct_defs struct_sizes size_defs bytes_word)

interpretation balance_struct: wire_struct balance_bytes balance_of_bytes
  "\<lambda>r. length (BalanceRequest.account_id r) = 20" BALANCE_SIZE
  by unfold_locales (auto simp: struct_defs struct_sizes size_defs)

interpretation response_struct: wire_struct response_bytes response_of_bytes
  "\<lambda>r. length (message r) = 256" RESPONSE_SIZE
  by unfold_locales (auto simp: struct_defs struct_sizes size_defs bytes_word take_take_drop)

interpretation otp_request_struct: wire_struct otp_request_bytes otp_request_of_bytes
  "\<lambda>r. length (OtpRequest.account_id r) = 20" OTP_REQUEST_SIZE
  by unfold_locales (auto simp: struct_defs struct_sizes size_defs)

interpretation login_struct: wire_struct login_bytes login_of_bytes
  "\<lambda>r. length (LoginRequest.account_id r) = 20 \<and> length (otp r) = 10" LOGIN_SIZE
  by unfold_locales (auto simp: struct_defs struct_sizes size_defs)

section \<open>Properties\<close>

text \<open>
  C13: a request survives the wire. Packing any payload of at most 1024 bytes succeeds; the image of
  the packet has the 1036 bytes every transfer moves; read back at the other end, it passes the
  checksum, carries the operation code, and unpacks to the payload at the front of any buffer that
  has room for it, with the rest of the buffer left as it was.
\<close>

theorem packet_roundtrip:
  assumes "length d \<le> MAX_DATA_SIZE" "length d \<le> sz" "sz \<le> length buf"
  shows "\<exists>p. pack_request rnd p0 op (Some d) (length d) = Ret (p, 0)
    \<and> length (packet_bytes p) = PACKET_SIZE
    \<and> verify_packet_checksum (packet_of_bytes (packet_bytes p)) = Ret 0
    \<and> ntohs (op_code (header (packet_of_bytes (packet_bytes p)))) = op
    \<and> unpack_request (packet_of_bytes (packet_bytes p)) buf sz = Ret (put_bytes buf d, 0)"
proof -
  obtain p where p: "pack_request rnd p0 op (Some d) (length d) = Ret (p, 0)"
    using assms(1) pack_request_eq [of "length d" d rnd p0 op] by auto
  note facts = unpack_pack_request [OF order.refl assms p]
  then show ?thesis using p by (auto simp: packet_of_packet_bytes length_packet_bytes)
qed

theorem packet_roundtrip_witness:
  "\<exists>p. pack_request 7 (packet_of_bytes []) OP_BALANCE (Some [97, 98, 0]) 3 = Ret (p, 0)
    \<and> unpack_request (packet_of_bytes (packet_bytes p)) (replicate 20 1) 20
        = Ret ([97, 98, 0] @ replicate 17 1, 0)"
  using packet_roundtrip [of "[97, 98, 0]" 20 "replicate 20 1" 7 "packet_of_bytes []" OP_BALANCE]
  by (auto simp: MAX_DATA_SIZE_def put_bytes_def drop_Cons numeral_eq_Suc)

text \<open>
  C14: a response survives the wire: the response a server packs is, field by field, the response the
  client unpacks, whatever the client's struct held before.
\<close>

theorem response_roundtrip:
  assumes "length (message r) = 256" "length (message r0) = 256"
  shows "\<exists>p. pack_response rnd p0 r = Ret (p, 0) \<and> length (packet_bytes p) = PACKET_SIZE
    \<and> unpack_response (packet_of_bytes (packet_bytes p)) r0 = Ret (r, 0)"
proof -
  obtain p where p: "pack_request rnd p0 OP_RESPONSE (Some (response_bytes r)) RESPONSE_SIZE = Ret (p, 0)"
    using response_struct.pack_succeeds [OF assms(1)] by blast
  note facts = response_struct.roundtrip [OF assms(1) response_struct.length_enc [OF assms(2)] p]
  show ?thesis using p facts
    by (auto simp: pack_response_def unpack_response_def length_packet_bytes)
qed

theorem response_roundtrip_witness:
  "\<exists>p. pack_response 7 (packet_of_bytes []) \<lparr>status = -2, message = replicate 256 65, balance = 0\<rparr> = Ret (p, 0)
    \<and> length (packet_bytes p) = PACKET_SIZE
    \<and> unpack_response (packet_of_bytes (packet_bytes p)) \<lparr>status = 9, message = replicate 256 1, balance = 5\<rparr>
      = Ret (\<lparr>status = -2, message = replicate 256 65, balance = 0\<rparr>, 0)"
  by (rule response_roundtrip) simp_all

text \<open>
  C29: \<open>verify_packet_checksum\<close> trusts the length the peer announces. On a received packet it stays
  inside the packet exactly when that length is between 12 (the header) and 1036 (the packet), and
  then returns 0 or -1 as the sum of the announced bytes agrees with the checksum or not; for every
  other length, below the header size (where the subtraction wraps around to almost \<open>2 ^ 64\<close>) or
  above the packet's size, it reads past the packet.
\<close>

theorem verify_packet_checksum_safety:
  assumes "packet_wf p"
  shows "(verify_packet_checksum p = Fault Over_Read \<longleftrightarrow> announced p < 12 \<or> 1036 < announced p)
    \<and> (12 \<le> announced p \<and> announced p \<le> 1036 \<longrightarrow>
        verify_packet_checksum p =
          Ret (if word_of_nat (\<Sum>b\<leftarrow>take (announced p - 12) (data p). unat b) = ntohs (checksum (header p))
               then 0 else -1))"
  using verify_packet_checksum_eq [OF assms] by (auto simp: byte_sum_def)

theorem verify_packet_checksum_safety_witness:
  "verify_packet_checksum \<lparr>header = \<lparr>hlength = htonl 11, op_code = 0, checksum = 0, req_id = 0\<rparr>,
     data = replicate 1024 0\<rparr> = Fault Over_Read"
  using verify_packet_checksum_safety [of "\<lparr>header = \<lparr>hlength = htonl 11, op_code = 0, checksum = 0,
     req_id = 0\<rparr>, data = replicate 1024 0\<rparr>"]
  by (simp add: packet_wf_def MAX_DATA_SIZE_def)

text \<open>
  C22: damage to one byte of the payload is caught, damage to the header only in part. If a packet passes
  the checksum, then the same packet with any one byte of the payload its length announces (the
  \<open>header.length - 12\<close> bytes after the header) changed to any other value fails it, and
  \<open>unpack_request\<close> refuses it and leaves the caller's buffer alone; a changed checksum field is caught as
  well. The other fields of the header are not covered by the sum: with any other operation code and
  request number the packet still passes.
\<close>

theorem one_byte_damage_detected:
  assumes "packet_wf p" "verify_packet_checksum p = Ret 0"
    and "i < announced p - 12" "b \<noteq> data p ! i"
  shows "verify_packet_checksum (p\<lparr>data := (data p)[i := b]\<rparr>) = Ret (-1)
    \<and> unpack_request (p\<lparr>data := (data p)[i := b]\<rparr>) buf sz = Ret (buf, -1)
    \<and> (c = checksum (header p) \<or> verify_packet_checksum (p\<lparr>header := (header p)\<lparr>checksum := c\<rparr>\<rparr>) = Ret (-1))
    \<and> verify_packet_checksum (p\<lparr>header := (header p)\<lparr>op_code := opc, req_id := rid\<rparr>\<rparr>) = Ret 0"
proof -
  let ?n = "announced p - 12" and ?q = "p\<lparr>data := (data p)[i := b]\<rparr>"
  have range: "12 \<le> announced p" "announced p \<le> 1036"
    "(word_of_nat (byte_sum (take ?n (data p))) :: u16) = ntohs (checksum (header p))"
    using assms(2) verify_packet_checksum_eq [OF assms(1)] by (auto split: if_splits)
  have i: "i < length (take ?n (data p))"
    using assms(1,3) range by (simp add: packet_wf_def MAX_DATA_SIZE_def)
  then have "(word_of_nat (byte_sum ((take ?n (data p))[i := b])) :: u16) \<noteq> word_of_nat (byte_sum (take ?n (data p)))"
    using assms(3,4) by (intro checksum_update_differs) simp_all
  moreover have "packet_wf ?q" using assms(1) by (simp add: packet_wf_def)
  ultimately have "verify_packet_checksum ?q = Ret (-1)"
    using range by (simp add: verify_packet_checksum_eq take_update_swap)
  moreover have "verify_packet_checksum (p\<lparr>header := (header p)\<lparr>checksum := c\<rparr>\<rparr>) = Ret (-1)" if "c \<noteq> checksum (header p)"
  proof -
    have "ntohs c \<noteq> ntohs (checksum (header p))" using that by (metis hton_ntoh(2))
    moreover have "packet_wf (p\<lparr>header := (header p)\<lparr>checksum := c\<rparr>\<rparr>)" using assms(1) by (simp add: packet_wf_def)
    ultimately show ?thesis using range by (simp add: verify_packet_checksum_eq)
  qed
  moreover have "verify_packet_checksum (p\<lparr>header := (header p)\<lparr>op_code := opc, req_id := rid\<rparr>\<rparr>) = Ret 0"
  proof -
    have "packet_wf (p\<lparr>header := (header p)\<lparr>op_code := opc, req_id := rid\<rparr>\<rparr>)" using assms(1) by (simp add: packet_wf_def)
    then show ?thesis using range by (simp add: verify_packet_checksum_eq)
  qed
  ultimately show ?thesis by (auto simp: unpack_request_def)
qed

theorem one_byte_damage_detected_witness:
  "verify_packet_checksum \<lparr>header = \<lparr>hlength = htonl 14, op_code = 0, checksum = htons 5, req_id = 0\<rparr>,
     data = (2 # 3 # replicate 1022 0)[1 := 7]\<rparr> = Ret (-1)
   \<and> verify_packet_checksum \<lparr>header = \<lparr>hlength = htonl 14, op_code = 3, checksum = htons 5, req_id = 9\<rparr>,
     data = 2 # 3 # replicate 1022 0\<rparr> = Ret 0"
proof -
  let ?p = "\<lparr>header = \<lparr>hlength = htonl 14, op_code = 0, checksum = htons 5, req_id = 0\<rparr>,
     data = 2 # 3 # replicate 1022 0\<rparr>"
  have wf: "packet_wf ?p" by (simp add: packet_wf_def MAX_DATA_SIZE_def)
  have sum: "byte_sum (take 2 (2 # 3 # replicate 1022 0)) = 5" by (simp add: take_Cons')
  have "verify_packet_checksum ?p = Ret 0"
    unfolding verify_packet_checksum_eq [OF wf] by (simp add: sum)
  from one_byte_damage_detected [OF wf this, of 1 7 _ _ 0 9 3] show ?thesis by simp
qed

text \<open>
  The checksum is a plain sum: it reads exactly the \<open>len\<close> bytes it is given, never misses the
  end of a shorter object, and does not see their order, so that reordered bytes pass the
  verification of the original's checksum.
\<close>

theorem checksum_is_a_sum:
  assumes "mset (take len bs) = mset (take len cs)" "len \<le> length bs" "len \<le> length cs"
  shows "calculate_checksum bs len = Ret (word_of_nat (\<Sum>b\<leftarrow>take len bs. unat b))
    \<and> (\<forall>n > length bs. calculate_checksum bs n = Fault Over_Read)
    \<and> verify_checksum (word_of_nat (\<Sum>b\<leftarrow>take len bs. unat b)) cs len = Ret 1"
proof -
  have "byte_sum (take len bs) = byte_sum (take len cs)"
    using assms(1) by (metis byte_sum_def mset_map sum_mset_sum_list)
  then show ?thesis using assms(2,3)
    by (simp add: calculate_checksum_eq verify_checksum_def byte_sum_def)
qed

theorem checksum_is_a_sum_witness:
  "verify_checksum (word_of_nat (\<Sum>b\<leftarrow>[1, 2, 3 :: byte]. unat b)) [3, 1, 2] 3 = Ret 1"
  using checksum_is_a_sum [of 3 "[1, 2, 3]" "[3, 1, 2]"] by simp

end
