(* ===== verification/Otp_Server.thy ===== *)
theory Otp_Server
  imports Protocol
begin

text \<open>
  The one-time password service: \<open>otp_server/otp_server.c\<close> and the structs of
  \<open>common/include/otp_ipc.h\<close> it exchanges with the banking server.

  A call of \<open>handle_client\<close> is a function of what its environment gives it (a record \<open>OtpCall\<close>: the
  value of \<open>rand ()\<close>, the time, the bytes \<open>read\<close> delivers, and what the uninitialised request
  struct held before) and of the table \<open>otp_db\<close>; it gives the new table and the response it
  writes, if any. The abstract table is the list of its slots, each free or holding a name and the
  code issued to it; \<open>otp_spec\<close> is the service on it, and the interpretation at the end of the
  refinement section says that \<open>handle_client\<close> implements it.
\<close>

section \<open>The structs of otp\_ipc.h\<close>

definition OTP_OP_GENERATE :: u32 where "OTP_OP_GENERATE = 1"
definition OTP_OP_VERIFY :: u32 where "OTP_OP_VERIFY = 2"

record OtpIpcRequest =
  op_code :: u32          \<comment> \<open>the 32 bits of the \<open>int\<close>\<close>
  account :: "byte list"
  otp_code :: "byte list"

record OtpIpcResponse =
  status :: u32
  otp_code :: "byte list"
  message :: "byte list"

definition IPC_REQUEST_SIZE :: nat where "IPC_REQUEST_SIZE = 44"
definition IPC_RESPONSE_SIZE :: nat where "IPC_RESPONSE_SIZE = 76"

definition ipc_request_bytes :: "OtpIpcRequest \<Rightarrow> byte list" where
  "ipc_request_bytes r = bytes32 (op_code r) @ account r @ OtpIpcRequest.otp_code r"

definition ipc_request_of_bytes :: "byte list \<Rightarrow> OtpIpcRequest" where
  "ipc_request_of_bytes bs = \<lparr>op_code = word32 (take 4 bs), account = take 32 (drop 4 bs),
     OtpIpcRequest.otp_code = drop 36 bs\<rparr>"

definition ipc_response_bytes :: "OtpIpcResponse \<Rightarrow> byte list" where
  "ipc_response_bytes r = bytes32 (status r) @ otp_code r @ message r"

definition ipc_response_of_bytes :: "byte list \<Rightarrow> OtpIpcResponse" where
  "ipc_response_of_bytes bs = \<lparr>status = word32 (take 4 bs), otp_code = take 8 (drop 4 bs),
     message = drop 12 bs\<rparr>"

lemmas ipc_defs = ipc_request_bytes_def ipc_request_of_bytes_def ipc_response_bytes_def
  ipc_response_of_bytes_def IPC_REQUEST_SIZE_def IPC_RESPONSE_SIZE_def OTP_OP_GENERATE_def OTP_OP_VERIFY_def

interpretation ipc_request: wire_struct ipc_request_bytes ipc_request_of_bytes
  "\<lambda>r. length (account r) = 32 \<and> length (OtpIpcRequest.otp_code r) = 8" IPC_REQUEST_SIZE
  by unfold_locales (auto simp: ipc_defs size_defs bytes_word take_take_drop)

interpretation ipc_response: wire_struct ipc_response_bytes ipc_response_of_bytes
  "\<lambda>r. length (otp_code r) = 8 \<and> length (message r) = 64" IPC_RESPONSE_SIZE
  by unfold_locales (auto simp: ipc_defs size_defs bytes_word take_take_drop)

section \<open>The table and the handler\<close>

definition MAX_OTPS :: nat where "MAX_OTPS = 100"

record OtpEntry =
  account :: "byte list"
  otp :: "byte list"
  expiry :: int
  used :: int

definition zero_entry :: OtpEntry where
  "zero_entry = \<lparr>account = replicate 32 0, otp = replicate 8 0, expiry = 0, used = 0\<rparr>"

text \<open>\<open>memset (otp_db, 0, sizeof (otp_db))\<close>\<close>

definition zero_otp_db :: "OtpEntry list" where "zero_otp_db = replicate MAX_OTPS zero_entry"

text \<open>The search of a slot for a new code, from slot \<open>i\<close> on.\<close>

fun find_slot :: "OtpEntry list \<Rightarrow> nat \<Rightarrow> byte list \<Rightarrow> nat option run" where
  "find_slot [] i s = Ret None"
| "find_slot (e # es) i s =
     (if used e = 0 then Ret (Some i)
      else bind_run (c_strcmp (account e) s) (\<lambda>c. if c = 0 then Ret (Some i) else find_slot es (Suc i) s))"

text \<open>The loop of a verification: it stops at the first live entry of the account.\<close>

fun verify_loop :: "OtpEntry list \<Rightarrow> byte list \<Rightarrow> byte list \<Rightarrow> (OtpEntry list \<times> bool) run" where
  "verify_loop [] s code = Ret ([], False)"
| "verify_loop (e # es) s code =
     (if used e = 0 then bind_run (verify_loop es s code) (\<lambda>(es', found). Ret (e # es', found))
      else bind_run (c_strcmp (account e) s) (\<lambda>c.
        if c = 0 then bind_run (c_strcmp (otp e) code) (\<lambda>c'.
          if c' = 0 then Ret (e\<lparr>used := 0\<rparr> # es, True) else Ret (e # es, False))
        else bind_run (verify_loop es s code) (\<lambda>(es', found). Ret (e # es', found))))"

definition zero_response :: OtpIpcResponse where
  "zero_response = \<lparr>status = 0, otp_code = replicate 8 0, message = replicate 64 0\<rparr>"

text \<open>\<open>strcpy (res.message, \<dots>)\<close> of a literal.\<close>

definition set_message :: "string \<Rightarrow> OtpIpcResponse \<Rightarrow> OtpIpcResponse run" where
  "set_message m res = bind_run (c_strcpy (message res) (chars m @ [0])) (\<lambda>b. Ret (res\<lparr>message := b\<rparr>))"

text \<open>The two branches of the handler, up to the response.\<close>

definition otp_generate :: "nat \<Rightarrow> int \<Rightarrow> OtpIpcRequest \<Rightarrow> OtpEntry list \<Rightarrow>
    (OtpEntry list \<times> OtpIpcResponse) run" where
  "otp_generate rnd now req db =
     bind_run (find_slot db 0 (OtpIpcRequest.account req)) (\<lambda>slot. case slot of
         None \<Rightarrow> bind_run (set_message ''Server Busy'' (zero_response\<lparr>status := 0\<rparr>)) (\<lambda>res. Ret (db, res))
       | Some i \<Rightarrow>
           let code = rnd mod 900000 + 100000; e = db ! i in
           bind_run (c_snprintf (otp e) 8 (c_dec (int code))) (\<lambda>o'.
           bind_run (c_strcpy (account e) (OtpIpcRequest.account req)) (\<lambda>a'.
             let e' = \<lparr>account = a', otp = o', expiry = now + 300, used = 1\<rparr>; res = zero_response\<lparr>status := 1\<rparr> in
             bind_run (c_strcpy (otp_code res) o') (\<lambda>c.
             bind_run (set_message ''OTP Generated'' (res\<lparr>otp_code := c\<rparr>)) (\<lambda>res.
             bind_run (c_str (OtpIpcRequest.account req)) (\<lambda>printed.
             bind_run (c_str (otp_code res)) (\<lambda>printed.
               Ret (db[i := e'], res))))))))"

definition otp_verify :: "OtpIpcRequest \<Rightarrow> OtpEntry list \<Rightarrow> (OtpEntry list \<times> OtpIpcResponse) run" where
  "otp_verify req db =
     bind_run (verify_loop db (OtpIpcRequest.account req) (OtpIpcRequest.otp_code req)) (\<lambda>(db', found).
     bind_run (if found then set_message ''Verified'' (zero_response\<lparr>status := 1\<rparr>)
               else set_message ''Invalid OTP'' (zero_response\<lparr>status := 0\<rparr>)) (\<lambda>res.
     bind_run (c_str (OtpIpcRequest.account req)) (\<lambda>printed. Ret (db', res))))"

text \<open>
  What the world gives a call: \<open>rand ()\<close>, \<open>time (NULL)\<close>, the stack bytes under \<open>req\<close>, and the bytes
  \<open>read\<close> delivers (\<open>None\<close> for an error, \<open>Some []\<close> for the end of the stream, never more than asked).
\<close>

record OtpCall =
  rand_value :: nat
  now :: int
  stack :: "byte list"
  input :: "byte list option"

definition received :: "OtpCall \<Rightarrow> byte list \<Rightarrow> OtpIpcRequest" where
  "received call bs = ipc_request_of_bytes (put_bytes (stack call) bs)"

definition handle_client :: "OtpCall \<Rightarrow> OtpEntry list \<Rightarrow> (OtpEntry list \<times> OtpIpcResponse option) run" where
  "handle_client call db = (case input call of
     None \<Rightarrow> Ret (db, None)
   | Some bs \<Rightarrow>
       if bs = [] then Ret (db, None)
       else let req = received call bs in
         bind_run (c_str (OtpIpcRequest.account req)) (\<lambda>printed.
         bind_run
           (if op_code req = OTP_OP_GENERATE then otp_generate (rand_value call) (now call) req db
            else if op_code req = OTP_OP_VERIFY then otp_verify req db
            else Ret (db, zero_response))
           (\<lambda>(db', res). Ret (db', Some res))))"

text \<open>
  The loop of \<open>main\<close>: an accepted connection is handled and closed before the next one; a failed
  \<open>accept\<close> (\<open>None\<close>) is ignored. The loop never ends; this is its run over the connections so far.
\<close>

fun otp_main_loop :: "OtpEntry list \<Rightarrow> OtpCall option list \<Rightarrow>
    (OtpEntry list \<times> OtpIpcResponse option list) run" where
  "otp_main_loop db [] = Ret (db, [])"
| "otp_main_loop db (None # cs) = otp_main_loop db cs"
| "otp_main_loop db (Some c # cs) = bind_run (handle_client c db) (\<lambda>(db', r).
     bind_run (otp_main_loop db' cs) (\<lambda>(db'', rs). Ret (db'', r # rs)))"

definition otp_main :: "OtpCall option list \<Rightarrow> (OtpEntry list \<times> OtpIpcResponse option list) run" where
  "otp_main cs = otp_main_loop zero_otp_db cs"

section \<open>The service it implements\<close>

text \<open>
  A slot is free or holds a name and the code issued to it. A new code goes to the first slot that is
  free or of the same name; a verification looks only at the first slot of the name.
\<close>

type_synonym slot = "(byte list \<times> byte list) option"

fun slot_issue :: "slot list \<Rightarrow> byte list \<Rightarrow> byte list \<Rightarrow> slot list option" where
  "slot_issue [] s c = None"
| "slot_issue (x # xs) s c =
     (if x = None \<or> (\<exists>c'. x = Some (s, c')) then Some (Some (s, c) # xs)
      else map_option (Cons x) (slot_issue xs s c))"

fun slot_redeem :: "slot list \<Rightarrow> byte list \<Rightarrow> byte list \<Rightarrow> slot list option" where
  "slot_redeem [] s c = None"
| "slot_redeem (None # xs) s c = map_option (Cons None) (slot_redeem xs s c)"
| "slot_redeem (Some (s', c') # xs) s c =
     (if s' = s then if c' = c then Some (None # xs) else None
      else map_option (Cons (Some (s', c'))) (slot_redeem xs s c))"

definition otp_digits :: "nat \<Rightarrow> byte list" where
  "otp_digits rnd = dec_digits (rnd mod 900000 + 100000)"

definition otp_reply :: "u32 \<Rightarrow> byte list \<Rightarrow> string \<Rightarrow> OtpIpcResponse" where
  "otp_reply st code msg = \<lparr>status = st, otp_code = zero_pad 8 code, message = zero_pad 64 (chars msg)\<rparr>"

definition otp_spec :: "slot list \<Rightarrow> OtpCall \<Rightarrow> slot list \<times> OtpIpcResponse option" where
  "otp_spec xs call = (case input call of
     None \<Rightarrow> (xs, None)
   | Some bs \<Rightarrow>
       if bs = [] then (xs, None)
       else let req = received call bs; name = string_of (OtpIpcRequest.account req) in
         if op_code req = OTP_OP_GENERATE then
           (case slot_issue xs name (otp_digits (rand_value call)) of
              None \<Rightarrow> (xs, Some (otp_reply 0 [] ''Server Busy''))
            | Some xs' \<Rightarrow> (xs', Some (otp_reply 1 (otp_digits (rand_value call)) ''OTP Generated'')))
         else if op_code req = OTP_OP_VERIFY then
           (case slot_redeem xs name (string_of (OtpIpcRequest.otp_code req)) of
              None \<Rightarrow> (xs, Some (otp_reply 0 [] ''Invalid OTP''))
            | Some xs' \<Rightarrow> (xs', Some (otp_reply 1 [] ''Verified'')))
         else (xs, Some zero_response))"

definition entry_wf :: "OtpEntry \<Rightarrow> bool" where
  "entry_wf e \<longleftrightarrow> length (account e) = 32 \<and> length (otp e) = 8 \<and> terminated (account e) \<and> terminated (otp e)"

definition slot_of :: "OtpEntry \<Rightarrow> slot" where
  "slot_of e = (if used e = 0 then None else Some (string_of (account e), string_of (otp e)))"

definition otp_wf :: "OtpEntry list \<Rightarrow> bool" where
  "otp_wf db \<longleftrightarrow> length db = MAX_OTPS \<and> (\<forall>e\<in>set db. entry_wf e)"

definition otp_abs :: "OtpEntry list \<Rightarrow> slot list" where "otp_abs db = map slot_of db"

text \<open>
  The calls of a well-behaved peer: what \<open>read\<close> delivers fits the struct, and the account it gives is
  a string. (The code need not be one: a code of eight characters is just wrong.)
\<close>

definition otp_valid :: "OtpCall \<Rightarrow> bool" where
  "otp_valid call \<longleftrightarrow> length (stack call) = IPC_REQUEST_SIZE
     \<and> (case input call of None \<Rightarrow> True
        | Some bs \<Rightarrow> length bs \<le> IPC_REQUEST_SIZE
            \<and> (bs \<noteq> [] \<longrightarrow> terminated (OtpIpcRequest.account (received call bs))))"

lemma length_otp_digits [simp]: "length (otp_digits n) = 6"
  using length_dec_digits [of 5 "n mod 900000 + 100000"] by (simp add: otp_digits_def)

lemma otp_digits_no_nul [simp]: "0 \<notin> set (otp_digits n)"
  by (simp add: otp_digits_def)

lemma zero_otp_db_wf [simp]: "otp_wf zero_otp_db" "otp_abs zero_otp_db = replicate MAX_OTPS None"
  by (simp_all add: otp_wf_def zero_otp_db_def zero_entry_def entry_wf_def otp_abs_def slot_of_def)

lemma find_slot_cases:
  assumes "\<forall>e\<in>set es. entry_wf e" "length s = 32"
  shows "find_slot es i s = Ret None \<and> slot_issue (map slot_of es) (string_of s) c = None
    \<or> (\<exists>j<length es. find_slot es i s = Ret (Some (i + j))
        \<and> slot_issue (map slot_of es) (string_of s) c = Some ((map slot_of es)[j := Some (string_of s, c)]))"
  using assms
proof (induction es i s rule: find_slot.induct)
  case (2 e es i s)
  show ?case
  proof (cases "used e = 0")
    case True
    then show ?thesis by (intro disjI2 exI [of _ 0]) (simp add: slot_of_def [of e])
  next
    case used: False
    obtain d where d: "c_strcmp (account e) s = Ret d" "d = 0 \<longleftrightarrow> string_of (account e) = string_of s"
      using c_strcmp_bounded [of "account e" s] 2(2,3) by (auto simp: entry_wf_def)
    show ?thesis
    proof (cases "d = 0")
      case True
      then show ?thesis using used d by (intro disjI2 exI [of _ 0]) (simp add: slot_of_def [of e])
    next
      case False
      from 2(1) [OF used False] 2(2,3)
      consider "find_slot es (Suc i) s = Ret None" "slot_issue (map slot_of es) (string_of s) c = None"
        | j where "j < length es" "find_slot es (Suc i) s = Ret (Some (Suc i + j))"
          "slot_issue (map slot_of es) (string_of s) c = Some ((map slot_of es)[j := Some (string_of s, c)])"
        by auto
      then show ?thesis
      proof cases
        case 1
        then show ?thesis using used d False by (simp add: slot_of_def [of e])
      next
        case (2 j)
        then show ?thesis using used d False by (intro disjI2 exI [of _ "Suc j"]) (simp add: slot_of_def [of e])
      qed
    qed
  qed
qed simp

lemma verify_loop_runs:
  assumes "\<forall>e\<in>set es. entry_wf e" "length s = 32" "length code = 8"
  shows "\<exists>es' found. verify_loop es s code = Ret (es', found) \<and> length es' = length es
    \<and> (\<forall>e\<in>set es'. entry_wf e) \<and> (\<not> found \<longrightarrow> es' = es)
    \<and> slot_redeem (map slot_of es) (string_of s) (string_of code) = (if found then Some (map slot_of es') else None)"
  using assms
proof (induction es s code rule: verify_loop.induct)
  case (2 e es s code)
  have e: "entry_wf e" and es: "\<forall>e\<in>set es. entry_wf e" using 2 by simp_all
  obtain d where d: "c_strcmp (account e) s = Ret d" "d = 0 \<longleftrightarrow> string_of (account e) = string_of s"
    using c_strcmp_bounded [of "account e" s] e 2(4) by (auto simp: entry_wf_def)
  obtain d' where d': "c_strcmp (otp e) code = Ret d'" "d' = 0 \<longleftrightarrow> string_of (otp e) = string_of code"
    using c_strcmp_bounded [of "otp e" code] e 2(5) by (auto simp: entry_wf_def)
  have rest: "\<exists>es' found. verify_loop es s code = Ret (es', found) \<and> length es' = length es
    \<and> (\<forall>e\<in>set es'. entry_wf e) \<and> (\<not> found \<longrightarrow> es' = es)
    \<and> slot_redeem (map slot_of es) (string_of s) (string_of code) = (if found then Some (map slot_of es') else None)"
    if "used e = 0 \<or> d \<noteq> 0"
    using that 2(1) [OF _ es 2(4,5)] 2(2) [OF _ _ es 2(4,5)] by blast
  show ?case
  proof (cases "used e = 0 \<or> d \<noteq> 0")
    case True
    then obtain es' found where "verify_loop es s code = Ret (es', found)" "length es' = length es"
      "\<forall>e\<in>set es'. entry_wf e" "\<not> found \<longrightarrow> es' = es"
      "slot_redeem (map slot_of es) (string_of s) (string_of code) = (if found then Some (map slot_of es') else None)"
      using rest by blast
    with True d e show ?thesis
      by (intro exI [of _ "e # es'"] exI [of _ found]) (cases "used e = 0"; simp add: slot_of_def [of e])
  next
    case False
    with d d' e es show ?thesis
      by (cases "d' = 0") (simp_all add: slot_of_def [of e], auto simp: slot_of_def entry_wf_def)
  qed
qed auto

lemma set_message_runs:
  assumes "message res = replicate 64 0" "0 \<notin> set (chars m)" "length m < 64"
  shows "set_message m res = Ret (res\<lparr>message := zero_pad 64 (chars m)\<rparr>)"
  using assms string_of_append_nul [OF assms(2), of "[]"] by (simp add: set_message_def)

lemma service_messages [simp]:
  "0 \<notin> set (chars ''Server Busy'')" "0 \<notin> set (chars ''OTP Generated'')"
  "0 \<notin> set (chars ''Verified'')" "0 \<notin> set (chars ''Invalid OTP'')"
  by (simp_all add: chars_def)

lemma otp_generate_runs:
  assumes "otp_wf db" "length (OtpIpcRequest.account req) = 32" "terminated (OtpIpcRequest.account req)"
  shows "\<exists>db' res. otp_generate rnd t req db = Ret (db', res) \<and> otp_wf db'
    \<and> (case slot_issue (otp_abs db) (string_of (OtpIpcRequest.account req)) (otp_digits rnd) of
         None \<Rightarrow> db' = db \<and> res = otp_reply 0 [] ''Server Busy''
       | Some xs' \<Rightarrow> otp_abs db' = xs' \<and> res = otp_reply 1 (otp_digits rnd) ''OTP Generated'')"
proof -
  let ?s = "OtpIpcRequest.account req" and ?c = "otp_digits rnd"
  have ok: "\<forall>e\<in>set db. entry_wf e" using assms(1) by (simp add: otp_wf_def)
  from find_slot_cases [OF ok assms(2), of 0 ?c]
  consider "find_slot db 0 ?s = Ret None" "slot_issue (map slot_of db) (string_of ?s) ?c = None"
    | i where "i < length db" "find_slot db 0 ?s = Ret (Some i)"
      "slot_issue (map slot_of db) (string_of ?s) ?c = Some ((map slot_of db)[i := Some (string_of ?s, ?c)])"
    by auto
  then show ?thesis
  proof cases
    case 1
    then show ?thesis using assms(1)
      by (simp add: otp_generate_def otp_abs_def set_message_runs zero_response_def otp_reply_def zero_pad_def)
  next
    case (2 i)
    let ?e = "db ! i"
    have e: "length (account ?e) = 32" "length (otp ?e) = 8" using ok 2(1) by (auto simp: entry_wf_def)
    let ?otp = "?c @ 0 # drop 7 (otp ?e)"
    have otp: "c_snprintf (otp ?e) 8 (c_dec (int (rnd mod 900000 + 100000))) = Ret ?otp"
      using e unfolding c_dec_nat otp_digits_def [symmetric] by (simp add: c_snprintf_fits)
    let ?acc = "string_of ?s @ 0 # drop (Suc (length (string_of ?s))) (account ?e)"
    have acc: "c_strcpy (account ?e) ?s = Ret ?acc" "length ?acc = 32"
      using string_of_shorter [OF assms(3)] assms e by (simp_all add: c_strcpy_def c_write_def put_bytes_def)
    let ?e' = "\<lparr>account = ?acc, otp = ?otp, expiry = t + 300, used = 1\<rparr>"
    have "otp_generate rnd t req db = Ret (db[i := ?e'], otp_reply 1 ?c ''OTP Generated'')"
      using 2 assms otp acc
      by (simp add: otp_generate_def Let_def set_message_runs zero_response_def otp_reply_def)
    moreover have "entry_wf ?e'" "slot_of ?e' = Some (string_of ?s, ?c)"
      using acc e by (simp_all add: entry_wf_def slot_of_def)
    moreover from this have "otp_wf (db[i := ?e'])"
      using assms(1) by (auto simp: otp_wf_def dest!: set_update_subset_insert [THEN subsetD])
    ultimately show ?thesis using 2 by (simp add: otp_abs_def map_update)
  qed
qed

lemma otp_verify_runs:
  assumes "otp_wf db" "length (OtpIpcRequest.account req) = 32" "length (OtpIpcRequest.otp_code req) = 8"
    "terminated (OtpIpcRequest.account req)"
  shows "\<exists>db' res. otp_verify req db = Ret (db', res) \<and> otp_wf db'
    \<and> (case slot_redeem (otp_abs db) (string_of (OtpIpcRequest.account req)) (string_of (OtpIpcRequest.otp_code req)) of
         None \<Rightarrow> db' = db \<and> res = otp_reply 0 [] ''Invalid OTP''
       | Some xs' \<Rightarrow> otp_abs db' = xs' \<and> res = otp_reply 1 [] ''Verified'')"
proof -
  obtain db' found where
    "verify_loop db (OtpIpcRequest.account req) (OtpIpcRequest.otp_code req) = Ret (db', found)"
    "length db' = length db" "\<forall>e\<in>set db'. entry_wf e" "\<not> found \<longrightarrow> db' = db"
    "slot_redeem (map slot_of db) (string_of (OtpIpcRequest.account req)) (string_of (OtpIpcRequest.otp_code req)) =
      (if found then Some (map slot_of db') else None)"
    using verify_loop_runs [OF _ assms(2,3), of db] assms(1) by (auto simp: otp_wf_def)
  then show ?thesis using assms
    by (cases found) (auto simp: otp_verify_def otp_abs_def otp_wf_def set_message_runs zero_response_def
        otp_reply_def zero_pad_def)
qed

lemma handle_client_runs:
  assumes "otp_wf db" "otp_valid call"
  shows "\<exists>db' r. handle_client call db = Ret (db', r) \<and> otp_wf db' \<and> otp_spec (otp_abs db) call = (otp_abs db', r)"
proof (cases "input call")
  case None
  then show ?thesis using assms by (simp add: handle_client_def otp_spec_def)
next
  case (Some bs)
  show ?thesis
  proof (cases "bs = []")
    case True
    then show ?thesis using assms Some by (simp add: handle_client_def otp_spec_def)
  next
    case False
    let ?req = "received call bs"
    have req: "length (OtpIpcRequest.account ?req) = 32" "length (OtpIpcRequest.otp_code ?req) = 8"
      "terminated (OtpIpcRequest.account ?req)"
      using ipc_request.ok_dec [of "put_bytes (stack call) bs"] assms(2) Some False
      by (simp_all add: otp_valid_def received_def)
    show ?thesis
      using otp_generate_runs [OF assms(1) req(1,3), of "rand_value call" "now call"] otp_verify_runs [OF assms(1) req]
        False Some assms(1) req
      by (auto simp: handle_client_def otp_spec_def Let_def OTP_OP_GENERATE_def OTP_OP_VERIFY_def split: option.splits)
  qed
qed

interpretation otp_service: implements otp_wf otp_abs otp_valid "\<lambda>db call. handle_client call db" otp_spec
  by unfold_locales (rule handle_client_runs)

section \<open>Codes and slots\<close>

fun live_names :: "slot list \<Rightarrow> byte list list" where
  "live_names [] = []"
| "live_names (None # xs) = live_names xs"
| "live_names (Some (s, c) # xs) = s # live_names xs"

lemma redeem_unknown: "s \<notin> set (live_names xs) \<Longrightarrow> slot_redeem xs s c = None"
  by (induction xs rule: live_names.induct) auto

lemma redeem_issued: "slot_issue xs s c = Some xs' \<Longrightarrow> \<exists>xs''. slot_redeem xs' s c = Some xs''"
proof (induction xs arbitrary: xs')
  case (Cons x xs)
  then show ?case by (cases x) (fastforce split: if_splits)+
qed simp

lemma redeem_names:
  "slot_redeem xs s c = Some xs' \<Longrightarrow> mset (live_names xs) = add_mset s (mset (live_names xs'))"
  by (induction xs arbitrary: xs' rule: live_names.induct) (fastforce split: if_splits)+

lemma redeem_once:
  assumes "slot_redeem xs s c = Some xs'" "distinct (live_names xs)"
  shows "slot_redeem xs' s c' = None" "distinct (live_names xs')"
proof -
  have "distinct (s # live_names xs')"
    using redeem_names [OF assms(1)] assms(2) by (metis mset.simps(2) mset_eq_imp_distinct_iff)
  then show "slot_redeem xs' s c' = None" "distinct (live_names xs')"
    by (simp_all add: redeem_unknown)
qed

lemma issue_full:
  "None \<notin> set xs \<Longrightarrow> s \<notin> set (live_names xs) \<Longrightarrow> slot_issue xs s c = None"
  by (induction xs rule: live_names.induct) auto

lemma issue_next:
  "s \<notin> set (map fst ps) \<Longrightarrow>
     slot_issue (map Some ps @ replicate (Suc n) None) s c = Some (map Some (ps @ [(s, c)]) @ replicate n None)"
  by (induction ps) auto

lemma live_names_Some [simp]: "live_names (map Some ps) = map fst ps"
  by (induction ps) auto

text \<open>A call that receives a whole request.\<close>

definition otp_call :: "nat \<Rightarrow> int \<Rightarrow> byte list \<Rightarrow> u32 \<Rightarrow> byte list \<Rightarrow> byte list \<Rightarrow> OtpCall" where
  "otp_call rnd t stk op s code = \<lparr>rand_value = rnd, now = t, stack = stk,
     input = Some (ipc_request_bytes \<lparr>op_code = op, account = s, OtpIpcRequest.otp_code = code\<rparr>)\<rparr>"

definition sized :: "byte list \<Rightarrow> byte list \<Rightarrow> byte list \<Rightarrow> bool" where
  "sized stk s code \<longleftrightarrow> length stk = IPC_REQUEST_SIZE \<and> length s = 32 \<and> terminated s \<and> length code = 8"

lemma otp_call_facts:
  assumes "sized stk s code"
  shows "otp_valid (otp_call rnd t stk op s code)"
    and "handle_client (otp_call rnd t stk OTP_OP_VERIFY s code) db =
      bind_run (otp_verify \<lparr>op_code = OTP_OP_VERIFY, account = s, OtpIpcRequest.otp_code = code\<rparr> db)
        (\<lambda>(db', res). Ret (db', Some res))"
    and "otp_spec xs (otp_call rnd t stk OTP_OP_GENERATE s code) =
      (case slot_issue xs (string_of s) (otp_digits rnd) of
         None \<Rightarrow> (xs, Some (otp_reply 0 [] ''Server Busy''))
       | Some xs' \<Rightarrow> (xs', Some (otp_reply 1 (otp_digits rnd) ''OTP Generated'')))"
    and "otp_spec xs (otp_call rnd t stk OTP_OP_VERIFY s code) =
      (case slot_redeem xs (string_of s) (string_of code) of
         None \<Rightarrow> (xs, Some (otp_reply 0 [] ''Invalid OTP''))
       | Some xs' \<Rightarrow> (xs', Some (otp_reply 1 [] ''Verified'')))"
proof -
  let ?r = "\<lambda>op. \<lparr>op_code = op, account = s, OtpIpcRequest.otp_code = code\<rparr>"
  have len: "length (ipc_request_bytes (?r op)) = IPC_REQUEST_SIZE" for op
    using assms ipc_request.length_enc [of "?r op"] by (simp add: sized_def)
  have ne: "ipc_request_bytes (?r op) \<noteq> []" for op
    using len [of op] by (auto simp: IPC_REQUEST_SIZE_def)
  have recv: "received (otp_call rnd t stk op' s' code') (ipc_request_bytes (?r op)) = ?r op" for op op' s' code'
    using assms len ipc_request.dec_enc [of "?r op"] by (simp add: sized_def received_def otp_call_def)
  show "otp_valid (otp_call rnd t stk op s code)"
    using recv [of op] len [of op] assms by (simp add: otp_valid_def otp_call_def sized_def)
  show "handle_client (otp_call rnd t stk OTP_OP_VERIFY s code) db =
      bind_run (otp_verify \<lparr>op_code = OTP_OP_VERIFY, account = s, OtpIpcRequest.otp_code = code\<rparr> db)
        (\<lambda>(db', res). Ret (db', Some res))"
    using recv ne assms
    by (simp add: handle_client_def otp_call_def Let_def OTP_OP_GENERATE_def OTP_OP_VERIFY_def sized_def)
  show "otp_spec xs (otp_call rnd t stk OTP_OP_GENERATE s code) =
      (case slot_issue xs (string_of s) (otp_digits rnd) of
         None \<Rightarrow> (xs, Some (otp_reply 0 [] ''Server Busy''))
       | Some xs' \<Rightarrow> (xs', Some (otp_reply 1 (otp_digits rnd) ''OTP Generated'')))"
    "otp_spec xs (otp_call rnd t stk OTP_OP_VERIFY s code) =
      (case slot_redeem xs (string_of s) (string_of code) of
         None \<Rightarrow> (xs, Some (otp_reply 0 [] ''Invalid OTP''))
       | Some xs' \<Rightarrow> (xs', Some (otp_reply 1 [] ''Verified'')))"
    using recv ne by (simp_all add: otp_spec_def otp_call_def Let_def OTP_OP_GENERATE_def OTP_OP_VERIFY_def
      split: option.splits)
qed

lemma otp_call_runs:
  assumes "otp_wf db" "sized stk s code"
  shows "\<exists>db' r. handle_client (otp_call rnd t stk op s code) db = Ret (db', r) \<and> otp_wf db'
    \<and> otp_spec (otp_abs db) (otp_call rnd t stk op s code) = (otp_abs db', r)"
  by (rule handle_client_runs [OF assms(1) otp_call_facts(1) [OF assms(2)]])

lemma otp_verify_call:
  assumes "otp_wf db" "sized stk s code"
  shows "\<exists>db' res. handle_client (otp_call rnd t stk OTP_OP_VERIFY s code) db = Ret (db', Some res) \<and> otp_wf db'
    \<and> (case slot_redeem (otp_abs db) (string_of s) (string_of code) of
         None \<Rightarrow> db' = db \<and> res = otp_reply 0 [] ''Invalid OTP''
       | Some xs' \<Rightarrow> otp_abs db' = xs' \<and> res = otp_reply 1 [] ''Verified'')"
  using otp_verify_runs [OF assms(1), of "\<lparr>op_code = OTP_OP_VERIFY, account = s, OtpIpcRequest.otp_code = code\<rparr>"]
    assms(2) by (fastforce simp: otp_call_facts(2) [OF assms(2)] sized_def)

lemma otp_digits_value:
  "100000 \<le> dec_value (otp_digits rnd) \<and> dec_value (otp_digits rnd) \<le> 999999
    \<and> (\<forall>d\<in>set (otp_digits rnd). 48 \<le> d \<and> d \<le> 57)"
proof -
  have "48 \<le> d \<and> d \<le> 57" if "d \<in> set (otp_digits rnd)" for d
    using dec_digits_range [of d] that by (simp add: otp_digits_def word_le_nat_alt)
  moreover have "rnd mod 900000 < 900000" by simp
  then have "rnd mod 900000 + 100000 \<le> 999999" by linarith
  ultimately show ?thesis by (simp add: otp_digits_def dec_value_digits)
qed

section \<open>Properties\<close>

text \<open>
  C8: the service does what its specification says. For every call whose request fits the struct and
  names its account by a string, the handler returns, in bounds of all its buffers, leaves the table
  well-formed, and changes the slots and answers as \<open>otp_spec\<close> does: a code goes to the first slot
  free or of the name, a verification frees the first slot of the name if the code is its code, an
  unknown operation is answered with a cleared response, and an empty or failed read is not answered.
\<close>

theorem otp_service_refines:
  assumes "otp_wf db" "otp_valid call"
  shows "\<exists>db' r. handle_client call db = Ret (db', r) \<and> otp_wf db'
    \<and> otp_spec (otp_abs db) call = (otp_abs db', r)"
  by (rule handle_client_runs [OF assms])

theorem otp_service_refines_witness:
  "\<exists>db' r. handle_client (otp_call 5 0 (replicate 44 0) 9 (replicate 32 0) (replicate 8 0)) zero_otp_db = Ret (db', r)
    \<and> otp_wf db' \<and> otp_spec (otp_abs zero_otp_db)
        (otp_call 5 0 (replicate 44 0) 9 (replicate 32 0) (replicate 8 0)) = (otp_abs db', r)"
  by (rule otp_service_refines [OF zero_otp_db_wf(1) otp_call_facts(1)]) (simp add: sized_def IPC_REQUEST_SIZE_def)

text \<open>
  C28: a code that is issued is six decimal digits from 100000 to 999999 and is accepted when it comes
  back for the same account. This holds at every time \<open>t'\<close>: nothing reads \<open>expiry\<close>, so a code issued
  at \<open>t\<close> is accepted after \<open>t + 300\<close> as well as before.
\<close>

theorem otp_issued_is_accepted:
  assumes "otp_wf db" "sized stk s code" "sized stk' s code'"
    and "handle_client (otp_call rnd t stk OTP_OP_GENERATE s code) db = Ret (db1, Some res)" "status res = 1"
    and "string_of code' = string_of (otp_code res)"
  shows "length (string_of code') = 6 \<and> (\<forall>d\<in>set (string_of code'). 48 \<le> d \<and> d \<le> 57)
    \<and> 100000 \<le> dec_value (string_of code') \<and> dec_value (string_of code') \<le> 999999
    \<and> (\<exists>db2. handle_client (otp_call rnd' t' stk' OTP_OP_VERIFY s code') db1
          = Ret (db2, Some (otp_reply 1 [] ''Verified'')))"
proof -
  let ?c = "otp_digits rnd"
  have gen: "otp_wf db1" "otp_spec (otp_abs db) (otp_call rnd t stk OTP_OP_GENERATE s code) = (otp_abs db1, Some res)"
    using otp_call_runs [OF assms(1,2), of rnd t OTP_OP_GENERATE] assms(4) by simp_all
  then have issued: "slot_issue (otp_abs db) (string_of s) ?c = Some (otp_abs db1)"
    and res: "res = otp_reply 1 ?c ''OTP Generated''"
    using assms(5) by (auto simp: otp_call_facts [OF assms(2)] otp_reply_def split: option.splits)
  from res assms(6) have c: "string_of code' = ?c" by (simp add: otp_reply_def)
  obtain xs'' where "slot_redeem (otp_abs db1) (string_of s) ?c = Some xs''"
    using redeem_issued [OF issued] by blast
  then have "\<exists>db2. handle_client (otp_call rnd' t' stk' OTP_OP_VERIFY s code') db1
          = Ret (db2, Some (otp_reply 1 [] ''Verified''))"
    using otp_verify_call [OF gen(1) assms(3), of rnd' t'] c by auto
  then show ?thesis using otp_digits_value [of rnd] by (simp add: c)
qed

theorem otp_issued_is_accepted_witness:
  "\<exists>db1 res db2. handle_client (otp_call 23456 0 (replicate 44 0) OTP_OP_GENERATE (replicate 32 0) (replicate 8 0)) zero_otp_db
      = Ret (db1, Some res)
    \<and> handle_client (otp_call 0 1000 (replicate 44 0) OTP_OP_VERIFY (replicate 32 0) (otp_code res)) db1
      = Ret (db2, Some (otp_reply 1 [] ''Verified''))"
proof -
  have ok: "sized (replicate 44 0) (replicate 32 0) c" if "length c = 8" for c
    using that by (simp add: sized_def IPC_REQUEST_SIZE_def)
  let ?gen = "otp_call 23456 0 (replicate 44 0) OTP_OP_GENERATE (replicate 32 0) (replicate 8 0)"
  have "slot_issue (otp_abs zero_otp_db) s c = Some (Some (s, c) # replicate 99 None)" for s c
    using issue_next [of s "[]" 99 c] by (simp add: MAX_OTPS_def)
  then obtain db1 where db1: "handle_client ?gen zero_otp_db
      = Ret (db1, Some (otp_reply 1 (otp_digits 23456) ''OTP Generated''))"
    using otp_call_runs [OF zero_otp_db_wf(1) ok, of "replicate 8 0" 23456 0 OTP_OP_GENERATE]
    by (auto simp: otp_call_facts [OF ok])
  show ?thesis
    using db1 otp_issued_is_accepted [OF zero_otp_db_wf(1) ok ok db1, of "otp_code (otp_reply 1 (otp_digits 23456) ''OTP Generated'')"]
    by (auto simp: otp_reply_def)
qed


text \<open>A table with a code for alice and the same calls as bytes, for concrete runs.\<close>

definition otp_name :: "string \<Rightarrow> byte list" where "otp_name s = zero_pad 32 (chars s)"

definition demo_otp_db :: "OtpEntry list" where
  "demo_otp_db = zero_otp_db[0 := \<lparr>account = otp_name ''alice'', otp = zero_pad 8 (chars ''123456''),
     expiry = 300, used = 1\<rparr>]"

lemma replicate_slots: "replicate MAX_OTPS x = x # replicate 99 x"
  by (simp add: MAX_OTPS_def flip: replicate_Suc)

lemma demo_otp_db [simp]:
  "otp_wf demo_otp_db"
  "otp_abs demo_otp_db = Some (chars ''alice'', chars ''123456'') # replicate 99 None"
proof -
  let ?e = "\<lparr>account = otp_name ''alice'', otp = zero_pad 8 (chars ''123456''), expiry = 300, used = 1\<rparr>"
  have "entry_wf ?e" "slot_of ?e = Some (chars ''alice'', chars ''123456'')"
    by (simp_all add: entry_wf_def slot_of_def otp_name_def chars_def)
  then show "otp_wf demo_otp_db" "otp_abs demo_otp_db = Some (chars ''alice'', chars ''123456'') # replicate 99 None"
    using zero_otp_db_wf
    by (auto simp: replicate_slots otp_wf_def otp_abs_def demo_otp_db_def map_update dest!: set_update_subset_insert [THEN subsetD])
qed

lemma live_names_free [simp]: "live_names (replicate n None) = []"
  by (induction n) auto


lemma otp_main_loop_eq:
  "otp_main_loop db (map Some cs) = run_steps (\<lambda>db call. handle_client call db) db cs"
  by (induction cs arbitrary: db) simp_all

lemma otp_main_runs:
  assumes "otp_wf db" "\<forall>c\<in>set cs. otp_valid c" "run_spec otp_spec (otp_abs db) cs = (xs, rs)"
  shows "\<exists>db'. otp_main_loop db (map Some cs) = Ret (db', rs) \<and> otp_wf db' \<and> otp_abs db' = xs"
  using otp_service.run_implements [OF assms(1,2)] assms(3) by (auto simp: otp_main_loop_eq)

lemma redeem_wrong: "slot_redeem xs s c \<noteq> None \<Longrightarrow> c' \<noteq> c \<Longrightarrow> slot_redeem xs s c' = None"
  by (induction xs rule: live_names.induct) (auto split: if_splits)

text \<open>A full table stays full, and keeps its names, as long as no verification succeeds.\<close>

lemma issue_in_full:
  "slot_issue xs s c = Some xs' \<Longrightarrow> None \<notin> set xs \<Longrightarrow> None \<notin> set xs' \<and> live_names xs' = live_names xs"
  by (induction xs arbitrary: xs' rule: live_names.induct) (auto split: if_splits)

lemma full_step:
  assumes "otp_spec xs call = (xs', r)" "None \<notin> set xs" "r \<noteq> Some (otp_reply 1 [] ''Verified'')"
  shows "None \<notin> set xs' \<and> live_names xs' = live_names xs"
  using assms by (auto simp: otp_spec_def Let_def split: option.splits if_splits dest: issue_in_full)

lemma full_run:
  assumes "run_spec otp_spec xs cs = (xs', rs)" "None \<notin> set xs" "Some (otp_reply 1 [] ''Verified'') \<notin> set rs"
  shows "None \<notin> set xs' \<and> live_names xs' = live_names xs"
  using assms
proof (induction cs arbitrary: xs rs)
  case (Cons call cs)
  obtain xs1 r where one: "otp_spec xs call = (xs1, r)" by force
  obtain rs1 where "run_spec otp_spec xs1 cs = (xs', rs1)" "rs = r # rs1"
    using Cons.prems(1) one by (auto simp: Let_def split: prod.splits)
  then show ?case using Cons.IH [of xs1 rs1] full_step [OF one Cons.prems(2)] Cons.prems(3) by auto
qed simp

text \<open>The slots of names that have their codes, and the run that issues these.\<close>

definition issued :: "(byte list \<Rightarrow> nat) \<Rightarrow> byte list list \<Rightarrow> (byte list \<times> byte list) list" where
  "issued rnd names = map (\<lambda>s. (string_of s, otp_digits (rnd s))) names"

lemma fill_table:
  assumes "distinct (map string_of (old @ todo))" "\<forall>s\<in>set todo. sized stk s code"
  shows "run_spec otp_spec (map Some (issued rnd old) @ replicate (length todo) None)
      (map (\<lambda>s. otp_call (rnd s) t stk OTP_OP_GENERATE s code) todo @ rest)
    = (let (xs, rs) = run_spec otp_spec (map Some (issued rnd (old @ todo))) rest
       in (xs, map (\<lambda>s. Some (otp_reply 1 (otp_digits (rnd s)) ''OTP Generated'')) todo @ rs))"
  using assms
proof (induction todo arbitrary: old)
  case (Cons s todo)
  let ?gen = "\<lambda>s. otp_call (rnd s) t stk OTP_OP_GENERATE s code"
  have "string_of s \<notin> set (map fst (issued rnd old))" using Cons.prems(1) by (auto simp: issued_def)
  from issue_next [OF this, of "length todo" "otp_digits (rnd s)"]
  have step: "otp_spec (map Some (issued rnd old) @ replicate (length (s # todo)) None) (?gen s)
      = (map Some (issued rnd (old @ [s])) @ replicate (length todo) None,
         Some (otp_reply 1 (otp_digits (rnd s)) ''OTP Generated''))"
    using otp_call_facts(3) [of stk s code] Cons.prems(2) by (simp add: issued_def)
  have "run_spec otp_spec (map Some (issued rnd (old @ [s])) @ replicate (length todo) None) (map ?gen todo @ rest)
    = (let (xs, rs) = run_spec otp_spec (map Some (issued rnd ((old @ [s]) @ todo))) rest
       in (xs, map (\<lambda>s. Some (otp_reply 1 (otp_digits (rnd s)) ''OTP Generated'')) todo @ rs))"
    using Cons.prems by (intro Cons.IH) simp_all
  with step show ?case by (simp add: Let_def split: prod.splits)
qed (simp add: Let_def)

text \<open>
  C36: a table of live codes never empties by itself. Once codes were issued to a hundred different
  names, then however many further calls come, at whatever times and of whatever kind (new codes for
  these names, wrong guesses, requests of other names, unknown operations), as long as none of them is
  answered "Verified", that is, as long as no code is redeemed, the next request for a code of any name
  outside the hundred is answered "Server Busy".
\<close>

theorem otp_table_fills_for_good:
  assumes "length names = MAX_OTPS" "distinct (map string_of names)" "\<forall>s\<in>set names. sized stk s code"
    and "\<forall>c\<in>set later. otp_valid c" "sized stk s' code" "string_of s' \<notin> string_of ` set names"
    and "Some (otp_reply 1 [] ''Verified'') \<notin> set (snd (run_spec otp_spec (map Some (issued rnd names)) later))"
  shows "\<exists>db. otp_main (map Some (map (\<lambda>s. otp_call (rnd s) t stk OTP_OP_GENERATE s code) names
        @ later @ [otp_call rnd' t' stk OTP_OP_GENERATE s' code]))
      = Ret (db, map (\<lambda>s. Some (otp_reply 1 (otp_digits (rnd s)) ''OTP Generated'')) names
        @ snd (run_spec otp_spec (map Some (issued rnd names)) later) @ [Some (otp_reply 0 [] ''Server Busy'')])"
proof -
  let ?gen = "\<lambda>s. otp_call (rnd s) t stk OTP_OP_GENERATE s code" and ?last = "otp_call rnd' t' stk OTP_OP_GENERATE s' code"
  obtain xs rs where run: "run_spec otp_spec (map Some (issued rnd names)) later = (xs, rs)" by force
  have "live_names (map Some (issued rnd names)) = map string_of names" by (subst live_names_Some) (simp add: issued_def)
  moreover have "None \<notin> set xs \<and> live_names xs = live_names (map Some (issued rnd names))"
    using assms(7) run by (intro full_run [OF run]) auto
  ultimately have "slot_issue xs (string_of s') (otp_digits rnd') = None"
    using assms(6) by (intro issue_full) (simp_all add: image_iff del: live_names_Some)
  then have "otp_spec xs ?last = (xs, Some (otp_reply 0 [] ''Server Busy''))" by (simp add: otp_call_facts(3) [OF assms(5)])
  then have spec: "run_spec otp_spec (otp_abs zero_otp_db) (map ?gen names @ later @ [?last])
    = (xs, map (\<lambda>s. Some (otp_reply 1 (otp_digits (rnd s)) ''OTP Generated'')) names @ rs @ [Some (otp_reply 0 [] ''Server Busy'')])"
    using fill_table [of "[]" names stk code rnd t "later @ [?last]"] assms(1-3) run_spec_snoc [OF run, of ?last]
    by (simp add: issued_def)
  have "\<forall>c\<in>set (map ?gen names @ later @ [?last]). otp_valid c"
    using assms(3-5) otp_call_facts(1) by auto
  from otp_main_runs [OF zero_otp_db_wf(1) this spec] run show ?thesis by (auto simp: otp_main_def)
qed

lemma alice_has_a: "97 \<in> set (chars ''alice'')"
  by (simp add: chars_def)

definition demo_names :: "byte list list" where "demo_names = map (\<lambda>i. zero_pad 32 (dec_digits i)) [0..<100]"

lemma demo_names_facts:
  "length demo_names = MAX_OTPS" "distinct (map string_of demo_names)"
  "\<forall>s\<in>set demo_names. sized (replicate 44 0) s (replicate 8 0)" "chars ''alice'' \<notin> string_of ` set demo_names"
proof -
  have short: "length (dec_digits i) < 32" if "i < 100" for i
    using that length_dec_digits [of 0 i] length_dec_digits [of 1 i]
    by (cases "i < 10"; cases "i = 0") (simp_all add: dec_digits.simps [of 0])
  show "distinct (map string_of demo_names)" by (simp add: demo_names_def distinct_map comp_def inj_on_def)
  show "\<forall>s\<in>set demo_names. sized (replicate 44 0) s (replicate 8 0)"
    using short by (auto simp: demo_names_def sized_def IPC_REQUEST_SIZE_def less_imp_le)
  have "chars ''alice'' \<noteq> dec_digits i" for i
  proof
    assume "chars ''alice'' = dec_digits i"
    then have "97 \<in> set (dec_digits i)" by (metis alice_has_a)
    then show False using dec_digits_range [of 97 i] by simp
  qed
  then show "chars ''alice'' \<notin> string_of ` set demo_names" by (simp add: demo_names_def image_iff)
qed (simp add: demo_names_def MAX_OTPS_def)

text \<open>A wrong guess for alice, who has no code, a week later, and then her request for one.\<close>

theorem otp_table_fills_for_good_witness:
  "\<exists>db. otp_main (map Some (map (\<lambda>s. otp_call 0 0 (replicate 44 0) OTP_OP_GENERATE s (replicate 8 0)) demo_names
        @ [otp_call 0 604800 (replicate 44 0) OTP_OP_VERIFY (otp_name ''alice'') (replicate 8 0)]
        @ [otp_call 7 604801 (replicate 44 0) OTP_OP_GENERATE (otp_name ''alice'') (replicate 8 0)]))
      = Ret (db, map (\<lambda>s. Some (otp_reply 1 (otp_digits 0) ''OTP Generated'')) demo_names
        @ [Some (otp_reply 0 [] ''Invalid OTP''), Some (otp_reply 0 [] ''Server Busy'')])"
proof -
  let ?guess = "otp_call 0 604800 (replicate 44 0) OTP_OP_VERIFY (otp_name ''alice'') (replicate 8 0)"
  have ok: "sized (replicate 44 0) (otp_name ''alice'') (replicate 8 0)" and name: "string_of (otp_name ''alice'') = chars ''alice''"
    by (simp_all add: sized_def otp_name_def IPC_REQUEST_SIZE_def) (simp add: chars_def)
  have "chars ''alice'' \<notin> set (live_names (map Some (issued (\<lambda>s. 0) demo_names)))"
    using demo_names_facts(4) by (simp only: live_names_Some issued_def) (simp add: image_iff)
  then have run: "snd (run_spec otp_spec (map Some (issued (\<lambda>s. 0) demo_names)) [?guess]) = [Some (otp_reply 0 [] ''Invalid OTP'')]"
    by (simp add: otp_call_facts(4) [OF ok] name redeem_unknown)
  have "Some (otp_reply 1 [] ''Verified'') \<notin> set (snd (run_spec otp_spec (map Some (issued (\<lambda>s. 0) demo_names)) [?guess]))"
    unfolding run by (simp add: otp_reply_def)
  from otp_table_fills_for_good [OF demo_names_facts(1-3) _ ok _ this, of 0 7 604801] demo_names_facts(4)
  show ?thesis using otp_call_facts(1) [OF ok] name unfolding run by simp
qed

text \<open>
  A failed verification costs nothing: after any number of wrong guesses for an account, at any
  times, the table is as it was and the right code is still accepted. Nothing limits the attempts.
\<close>

theorem otp_guessing_is_unlimited:
  assumes "otp_wf db" "sized stk s code" "slot_redeem (otp_abs db) (string_of s) (string_of code) = Some xs"
    and "\<forall>(t, w)\<in>set guesses. length w = 8 \<and> string_of w \<noteq> string_of code"
  shows "\<exists>db'. otp_main_loop db (map Some (map (\<lambda>(t, w). otp_call 0 t stk OTP_OP_VERIFY s w) guesses
        @ [otp_call 0 t' stk OTP_OP_VERIFY s code]))
      = Ret (db', replicate (length guesses) (Some (otp_reply 0 [] ''Invalid OTP''))
        @ [Some (otp_reply 1 [] ''Verified'')])"
  using assms(4)
proof (induction guesses)
  case Nil
  then show ?case using otp_verify_call [OF assms(1,2), of 0 t'] assms(3) by auto
next
  case (Cons g guesses)
  obtain t w where g: "g = (t, w)" by (cases g)
  then have w: "sized stk s w" "slot_redeem (otp_abs db) (string_of s) (string_of w) = None"
    using assms(2,3) Cons.prems redeem_wrong [of "otp_abs db" "string_of s" "string_of code" "string_of w"]
    by (auto simp: sized_def)
  then have "handle_client (otp_call 0 t stk OTP_OP_VERIFY s w) db = Ret (db, Some (otp_reply 0 [] ''Invalid OTP''))"
    using otp_verify_call [OF assms(1) w(1), of 0 t] by auto
  then show ?case using Cons g by auto
qed

theorem otp_guessing_is_unlimited_witness:
  "\<exists>db'. otp_main_loop demo_otp_db
        (map Some (map (\<lambda>(t, w). otp_call 0 t (replicate 44 0) OTP_OP_VERIFY (otp_name ''alice'') w)
            [(1, replicate 8 0), (2, zero_pad 8 (chars ''000000''))]
          @ [otp_call 0 3 (replicate 44 0) OTP_OP_VERIFY (otp_name ''alice'') (zero_pad 8 (chars ''123456''))]))
      = Ret (db', replicate (length [(1 :: int, replicate 8 (0 :: byte)), (2, zero_pad 8 (chars ''000000''))]) (Some (otp_reply 0 [] ''Invalid OTP''))
        @ [Some (otp_reply 1 [] ''Verified'')])"
  by (rule otp_guessing_is_unlimited [where xs = "replicate 100 None"])
     (auto simp: sized_def IPC_REQUEST_SIZE_def otp_name_def chars_def Cons_replicate_eq simp flip: replicate_Suc)

text \<open>Where a new code goes when the name has a live slot: before it if a slot is free there, else in it.\<close>

lemma issue_before:
  "s \<notin> set (live_names xs) \<Longrightarrow> None \<in> set xs \<Longrightarrow>
     \<exists>xs'. slot_issue (xs @ ys) s c = Some (xs' @ ys) \<and> slot_redeem (xs' @ ys) s c = Some (xs @ ys)"
proof (induction xs)
  case (Cons x xs)
  show ?case
  proof (cases x)
    case None
    then show ?thesis by (intro exI [of _ "Some (s, c) # xs"]) simp
  next
    case (Some y)
    then obtain s1 c1 where y: "x = Some (s1, c1)" by (cases y) auto
    with Cons obtain xs' where "slot_issue (xs @ ys) s c = Some (xs' @ ys)" "slot_redeem (xs' @ ys) s c = Some (xs @ ys)"
      by auto
    then show ?thesis using y Cons.prems(1) by (intro exI [of _ "x # xs'"]) auto
  qed
qed simp

lemma issue_in_place:
  "s \<notin> set (live_names xs) \<Longrightarrow> None \<notin> set xs \<Longrightarrow>
     slot_issue (xs @ Some (s, c0) # ys) s c = Some (xs @ Some (s, c) # ys)"
  by (induction xs rule: live_names.induct) auto

lemma redeem_at:
  "s \<notin> set (live_names xs) \<Longrightarrow>
     slot_redeem (xs @ Some (s, c0) # ys) s c = (if c0 = c then Some (xs @ None # ys) else None)"
  by (induction xs rule: live_names.induct) auto

lemma live_names_append [simp]: "live_names (xs @ ys) = live_names xs @ live_names ys"
  by (induction xs rule: live_names.induct) auto

lemma otp_generate_call:
  assumes "otp_wf db" "sized stk s code" "slot_issue (otp_abs db) (string_of s) (otp_digits rnd) = Some xs"
  shows "\<exists>db'. handle_client (otp_call rnd t stk OTP_OP_GENERATE s code) db
      = Ret (db', Some (otp_reply 1 (otp_digits rnd) ''OTP Generated'')) \<and> otp_wf db' \<and> otp_abs db' = xs"
  using otp_call_runs [OF assms(1,2), of rnd t OTP_OP_GENERATE] otp_call_facts(3) [OF assms(2)] assms(3) by auto

text \<open>
  C35: a new code replaces the old one only when no slot before it is free. In a table in which an account
  has one live slot, with code \<open>old\<close>, a new code is issued to the account and redeemed. If every slot
  before the account's is taken, the new code went into the old one's place, and \<open>old\<close> is refused from
  then on. If one of them is free, the new code went there, and \<open>old\<close> is accepted after the new code is
  spent. (The witness reaches such a table: another account's code, issued earlier, was redeemed.)
\<close>

theorem otp_replaced_code_survives:
  assumes "otp_wf db" "otp_abs db = xs @ Some (string_of b, string_of old) # ys"
    and "string_of b \<notin> set (live_names (xs @ ys))"
    and "sized stk b old" "sized stk b new" "string_of new = otp_digits rnd"
  shows "\<exists>db1 db2 db3. handle_client (otp_call rnd t stk OTP_OP_GENERATE b new) db
        = Ret (db1, Some (otp_reply 1 (otp_digits rnd) ''OTP Generated''))
    \<and> handle_client (otp_call rnd1 t1 stk OTP_OP_VERIFY b new) db1 = Ret (db2, Some (otp_reply 1 [] ''Verified''))
    \<and> handle_client (otp_call rnd2 t2 stk OTP_OP_VERIFY b old) db2
        = Ret (db3, Some (if None \<in> set xs then otp_reply 1 [] ''Verified'' else otp_reply 0 [] ''Invalid OTP''))"
proof -
  let ?b = "string_of b" and ?ys = "Some (string_of b, string_of old) # ys"
  define rest where "rest = (if None \<in> set xs then xs @ ?ys else xs @ None # ys)"
  have ns: "?b \<notin> set (live_names xs)" "?b \<notin> set (live_names ys)" using assms(3) by simp_all
  obtain zs where zs: "slot_issue (otp_abs db) ?b (otp_digits rnd) = Some zs" "slot_redeem zs ?b (otp_digits rnd) = Some rest"
    using issue_before [OF ns(1), of ?ys "otp_digits rnd"] issue_in_place [OF ns(1), of "string_of old" ys "otp_digits rnd"]
      redeem_at [OF ns(1), of "otp_digits rnd" ys "otp_digits rnd"]
    unfolding rest_def assms(2) by (cases "None \<in> set xs") auto
  obtain db1 where db1: "handle_client (otp_call rnd t stk OTP_OP_GENERATE b new) db
      = Ret (db1, Some (otp_reply 1 (otp_digits rnd) ''OTP Generated''))" "otp_wf db1" "otp_abs db1 = zs"
    using otp_generate_call [OF assms(1,5) zs(1), of t] by blast
  obtain db2 where db2: "handle_client (otp_call rnd1 t1 stk OTP_OP_VERIFY b new) db1 = Ret (db2, Some (otp_reply 1 [] ''Verified''))"
    "otp_wf db2" "otp_abs db2 = rest"
    using otp_verify_call [OF db1(2) assms(5), of rnd1 t1] zs(2) db1(3) assms(6) by auto
  have "slot_redeem rest ?b (string_of old) = (if None \<in> set xs then Some (xs @ None # ys) else None)"
    using redeem_at [OF ns(1), of "string_of old" ys] redeem_unknown [of ?b "xs @ None # ys"] ns by (auto simp: rest_def)
  then have "\<exists>db3. handle_client (otp_call rnd2 t2 stk OTP_OP_VERIFY b old) db2
        = Ret (db3, Some (if None \<in> set xs then otp_reply 1 [] ''Verified'' else otp_reply 0 [] ''Invalid OTP''))"
    using otp_verify_call [OF db2(2) assms(4), of rnd2 t2] db2(3) by (cases "None \<in> set xs") auto
  then show ?thesis using db1(1) db2(1) by blast
qed

theorem otp_replaced_code_survives_witness:
  "\<exists>db db1 db2 db3. otp_main (map Some
        [otp_call 11111 0 (replicate 44 0) OTP_OP_GENERATE (otp_name ''alice'') (zero_pad 8 (otp_digits 11111)),
         otp_call 22222 0 (replicate 44 0) OTP_OP_GENERATE (otp_name ''bob'') (zero_pad 8 (otp_digits 22222)),
         otp_call 0 0 (replicate 44 0) OTP_OP_VERIFY (otp_name ''alice'') (zero_pad 8 (otp_digits 11111))])
      = Ret (db, map Some [otp_reply 1 (otp_digits 11111) ''OTP Generated'', otp_reply 1 (otp_digits 22222) ''OTP Generated'',
          otp_reply 1 [] ''Verified''])
    \<and> handle_client (otp_call 33333 1 (replicate 44 0) OTP_OP_GENERATE (otp_name ''bob'') (zero_pad 8 (otp_digits 33333))) db
      = Ret (db1, Some (otp_reply 1 (otp_digits 33333) ''OTP Generated''))
    \<and> handle_client (otp_call 0 2 (replicate 44 0) OTP_OP_VERIFY (otp_name ''bob'') (zero_pad 8 (otp_digits 33333))) db1
      = Ret (db2, Some (otp_reply 1 [] ''Verified''))
    \<and> handle_client (otp_call 0 3 (replicate 44 0) OTP_OP_VERIFY (otp_name ''bob'') (zero_pad 8 (otp_digits 22222))) db2
      = Ret (db3, Some (otp_reply 1 [] ''Verified''))"
proof -
  let ?a = "otp_name ''alice''" and ?b = "otp_name ''bob''" and ?c = "\<lambda>r. zero_pad 8 (otp_digits r)"
  let ?calls = "[otp_call 11111 0 (replicate 44 0) OTP_OP_GENERATE ?a (?c 11111),
         otp_call 22222 0 (replicate 44 0) OTP_OP_GENERATE ?b (?c 22222), otp_call 0 0 (replicate 44 0) OTP_OP_VERIFY ?a (?c 11111)]"
  have ok: "sized (replicate 44 0) ?a (?c r)" "sized (replicate 44 0) ?b (?c r)" for r
    by (simp_all add: sized_def IPC_REQUEST_SIZE_def otp_name_def)
  have names: "string_of ?a = chars ''alice''" "string_of ?b = chars ''bob''" "chars ''alice'' \<noteq> chars ''bob''"
    by (simp_all add: otp_name_def) (simp_all add: chars_def)
  have "run_spec otp_spec (None # None # replicate 98 None) ?calls = (None # Some (string_of ?b, string_of (?c 22222)) # replicate 98 None,
      map Some [otp_reply 1 (otp_digits 11111) ''OTP Generated'', otp_reply 1 (otp_digits 22222) ''OTP Generated'', otp_reply 1 [] ''Verified''])"
    using names(3) by (simp add: otp_call_facts(3,4) [OF ok(1)] otp_call_facts(3,4) [OF ok(2)] names(1,2))
  moreover have "otp_abs zero_otp_db = None # None # replicate 98 None" by (simp add: MAX_OTPS_def flip: replicate_Suc)
  moreover have "\<forall>c\<in>set ?calls. otp_valid c" using otp_call_facts(1) ok by simp
  ultimately obtain db where db: "otp_main (map Some ?calls) = Ret (db, map Some [otp_reply 1 (otp_digits 11111) ''OTP Generated'',
      otp_reply 1 (otp_digits 22222) ''OTP Generated'', otp_reply 1 [] ''Verified''])" "otp_wf db"
    "otp_abs db = [None] @ Some (string_of ?b, string_of (?c 22222)) # replicate 98 None"
    using otp_main_runs [OF zero_otp_db_wf(1), of ?calls] by (auto simp: otp_main_def)
  from otp_replaced_code_survives [OF db(2,3) _ ok(2) ok(2), of 33333 33333 1 0 2 0 3] db(1)
  show ?thesis by auto
qed

end
