(* ===== verification/Banking_Server.thy ===== *)
theory Banking_Server
  imports Account Otp_Server
begin

text \<open>
  The banking server's request handling: \<open>server/banking_server.c\<close>, from \<open>call_otp_service\<close> to
  \<open>worker_main\<close>.

  A worker's state is the pair of the shared database it points to and the state of the one-time
  password service at the other end of a socket. That service is any peer (\<open>OtpLink\<close>): whether a
  socket and a connection can be had, and what comes back for the bytes that are sent. What a call
  finds on its stack where C leaves a variable uninitialised, and the value of \<open>rand ()\<close>, are the
  record \<open>ReqEnv\<close>. TLS is a byte transport: a read is the bytes it delivers, and a write the bytes
  that leave. Texts printed to the terminal are left out.

  Lemmas: what each case of \<open>process_request\<close> does to a well-formed request is stated over the
  specification of the account database (\<open>bank_reply\<close>); for arbitrary bytes, \<open>process_request\<close> either
  reads past an array or keeps the database well-formed and answers with a valid response packet.
\<close>

section \<open>Calls to the one-time password service\<close>

record 'o OtpLink =
  sock_ok :: bool         \<comment> \<open>\<open>socket\<close> succeeds\<close>
  connect_ok :: bool      \<comment> \<open>\<open>connect\<close> succeeds\<close>
  exchange :: "'o \<Rightarrow> byte list \<Rightarrow> 'o \<times> byte list option"
    \<comment> \<open>the peer gets the request bytes; \<open>None\<close>: \<open>read\<close> fails\<close>

definition call_otp_service :: "'o OtpLink \<Rightarrow> byte list \<Rightarrow> 'o \<Rightarrow> u32 \<Rightarrow> byte list \<Rightarrow>
    byte list option \<Rightarrow> byte list option \<Rightarrow> ('o \<times> byte list option \<times> int) run" where
  "call_otp_service link res_stack peer opcode acc otp_in otp_out =
     (if \<not> sock_ok link then Ret (peer, otp_out, 0)
      else if \<not> connect_ok link then Ret (peer, otp_out, 0)
      else bind_run (c_strncpy (replicate 32 0) acc (32 - 1)) (\<lambda>a.
           bind_run (case otp_in of None \<Rightarrow> Ret (replicate 8 0)
                     | Some i \<Rightarrow> c_strncpy (replicate 8 0) i (8 - 1)) (\<lambda>c.
             let req = \<lparr>OtpIpcRequest.op_code = opcode, OtpIpcRequest.account = a, OtpIpcRequest.otp_code = c\<rparr>;
                 (peer', answer) = exchange link peer (ipc_request_bytes req) in
             case answer of None \<Rightarrow> Ret (peer', otp_out, 0)
             | Some bs \<Rightarrow>
                 let res = ipc_response_of_bytes (put_bytes res_stack (take IPC_RESPONSE_SIZE bs)) in
                 if bs \<noteq> [] \<and> OtpIpcResponse.status res = 1 then
                   (case otp_out of None \<Rightarrow> Ret (peer', None, 1)
                    | Some out \<Rightarrow> bind_run (c_strncpy out (OtpIpcResponse.otp_code res) 8)
                        (\<lambda>out'. Ret (peer', Some out', 1)))
                 else Ret (peer', otp_out, 0))))"

definition request_otp_generation :: "'o OtpLink \<Rightarrow> byte list \<Rightarrow> 'o \<Rightarrow> byte list \<Rightarrow> byte list \<Rightarrow>
    ('o \<times> byte list option \<times> int) run" where
  "request_otp_generation link res_stack peer acc out_otp =
     call_otp_service link res_stack peer OTP_OP_GENERATE acc None (Some out_otp)"

definition verify_otp_remote :: "'o OtpLink \<Rightarrow> byte list \<Rightarrow> 'o \<Rightarrow> byte list \<Rightarrow> byte list \<Rightarrow>
    ('o \<times> byte list option \<times> int) run" where
  "verify_otp_remote link res_stack peer acc code =
     call_otp_service link res_stack peer OTP_OP_VERIFY acc (Some code) None"

section \<open>One request\<close>

record ReqEnv =
  req_stack :: "byte list"    \<comment> \<open>under the request struct of the case\<close>
  res_stack :: "byte list"    \<comment> \<open>under \<open>OtpIpcResponse res\<close>\<close>
  balance_stack :: f64        \<comment> \<open>under \<open>double new_balance\<close>\<close>
  packet_rand :: u32          \<comment> \<open>\<open>rand ()\<close> in \<open>pack_request\<close>\<close>
  packet_stack :: BankingPacket

definition zero_reply :: BankingResponse where
  "zero_reply = \<lparr>BankingResponse.status = 0, BankingResponse.message = replicate 256 0, BankingResponse.balance = 0\<rparr>"

text \<open>\<open>snprintf (response.message, sizeof (response.message), \<dots>)\<close>; \<open>%s\<close> reads a string.\<close>

definition say :: "byte list run \<Rightarrow> BankingResponse \<Rightarrow> BankingResponse run" where
  "say fmt resp = bind_run fmt (\<lambda>text. bind_run (c_snprintf (BankingResponse.message resp) 256 text)
     (\<lambda>m. Ret (resp\<lparr>BankingResponse.message := m\<rparr>)))"

definition fmt_lit :: "string \<Rightarrow> byte list run" where "fmt_lit t = Ret (chars t)"

definition fmt_str :: "string \<Rightarrow> byte list \<Rightarrow> string \<Rightarrow> byte list run" where
  "fmt_str pre s post = bind_run (c_str s) (\<lambda>x. Ret (chars pre @ x @ chars post))"

definition fmt_num_str :: "string \<Rightarrow> f64 \<Rightarrow> string \<Rightarrow> byte list \<Rightarrow> byte list run" where
  "fmt_num_str pre n mid s = bind_run (c_str s) (\<lambda>x. Ret (chars pre @ fmt_2f n @ chars mid @ x))"

definition fmt_str_num :: "string \<Rightarrow> byte list \<Rightarrow> string \<Rightarrow> f64 \<Rightarrow> byte list run" where
  "fmt_str_num pre s mid n = bind_run (c_str s) (\<lambda>x. Ret (chars pre @ x @ chars mid @ fmt_2f n))"

definition with_status :: "int \<Rightarrow> BankingResponse \<Rightarrow> BankingResponse" where
  "with_status r resp = resp\<lparr>BankingResponse.status := word_of_int r\<rparr>"

definition with_balance :: "f64 \<Rightarrow> BankingResponse \<Rightarrow> BankingResponse" where
  "with_balance b resp = resp\<lparr>BankingResponse.balance := b\<rparr>"

text \<open>\<open>unpack_request (req_packet, &req, sizeof (req))\<close> into the stack of the case.\<close>

definition unpack_into :: "ReqEnv \<Rightarrow> BankingPacket \<Rightarrow> nat \<Rightarrow> (byte list \<times> int) run" where
  "unpack_into env p sz = unpack_request p (take sz (req_stack env)) sz"

definition bad_format :: "BankingResponse run" where
  "bad_format = say (fmt_lit ''Invalid request format'') (with_status STATUS_ERROR zero_reply)"

text \<open>The cases of the switch, one by one.\<close>

definition do_create :: "ReqEnv \<Rightarrow> AccountDB option \<Rightarrow> BankingPacket \<Rightarrow> (AccountDB option \<times> BankingResponse) run" where
  "do_create env db p = bind_run (unpack_into env p CREATE_SIZE) (\<lambda>(bs, ok).
     if ok = 0 then
       let req = create_of_bytes bs; ident = CreateAccountRequest.account_id req; x = initial_balance req in
       bind_run (account_create db (Some ident) x) (\<lambda>(db', result).
       let resp = with_balance x (with_status result zero_reply) in
       bind_run
         (if result = 0 then say (fmt_str ''Account '' ident '' created successfully'') resp
          else if result = -4 then say (fmt_str ''Account '' ident '' already exists'') resp
          else if result = -5 then say (fmt_lit ''Database full, cannot create account'') resp
          else say (fmt_lit ''Failed to create account'') resp)
         (\<lambda>resp. Ret (db', resp)))
     else bind_run bad_format (\<lambda>resp. Ret (db, resp)))"

definition do_deposit :: "ReqEnv \<Rightarrow> AccountDB option \<Rightarrow> BankingPacket \<Rightarrow> (AccountDB option \<times> BankingResponse) run" where
  "do_deposit env db p = bind_run (unpack_into env p DEPOSIT_SIZE) (\<lambda>(bs, ok).
     if ok = 0 then
       let req = deposit_of_bytes bs; ident = DepositRequest.account_id req; a = DepositRequest.amount req in
       bind_run (account_deposit db (Some ident) a (Some (balance_stack env))) (\<lambda>(db', new_balance, result).
       let resp = with_balance (the new_balance) (with_status result zero_reply) in
       bind_run
         (if result = 0 then say (fmt_num_str ''Deposited '' a '' to account '' ident) resp
          else if result = -2 then say (fmt_str ''Account '' ident '' not found'') resp
          else say (fmt_lit ''Deposit failed'') resp)
         (\<lambda>resp. Ret (db', resp)))
     else bind_run bad_format (\<lambda>resp. Ret (db, resp)))"

definition do_withdraw :: "ReqEnv \<Rightarrow> AccountDB option \<Rightarrow> BankingPacket \<Rightarrow> (AccountDB option \<times> BankingResponse) run" where
  "do_withdraw env db p = bind_run (unpack_into env p WITHDRAW_SIZE) (\<lambda>(bs, ok).
     if ok = 0 then
       let req = withdraw_of_bytes bs; ident = WithdrawRequest.account_id req; a = WithdrawRequest.amount req in
       bind_run (account_withdraw db (Some ident) a (Some (balance_stack env))) (\<lambda>(db', new_balance, result).
       let resp = with_balance (the new_balance) (with_status result zero_reply) in
       bind_run
         (if result = 0 then say (fmt_num_str ''Withdrew '' a '' from account '' ident) resp
          else if result = -2 then say (fmt_str ''Account '' ident '' not found'') resp
          else if result = -3 then say (fmt_lit ''Insufficient funds'') resp
          else say (fmt_lit ''Withdrawal failed'') resp)
         (\<lambda>resp. Ret (db', resp)))
     else bind_run bad_format (\<lambda>resp. Ret (db, resp)))"

definition do_balance :: "ReqEnv \<Rightarrow> AccountDB option \<Rightarrow> BankingPacket \<Rightarrow> (AccountDB option \<times> BankingResponse) run" where
  "do_balance env db p = bind_run (unpack_into env p BALANCE_SIZE) (\<lambda>(bs, ok).
     if ok = 0 then
       let req = balance_of_bytes bs; ident = BalanceRequest.account_id req in
       bind_run (account_get_balance db (Some ident) (Some (balance_stack env))) (\<lambda>(db', bal, result).
       let resp = with_balance (the bal) (with_status result zero_reply) in
       bind_run
         (if result = 0 then say (fmt_str_num ''Account '' ident '' balance: '' (the bal)) resp
          else if result = -2 then say (fmt_str ''Account '' ident '' not found'') resp
          else say (fmt_lit ''Query failed'') resp)
         (\<lambda>resp. Ret (db', resp)))
     else bind_run bad_format (\<lambda>resp. Ret (db, resp)))"

definition do_req_otp :: "'o OtpLink \<Rightarrow> ReqEnv \<Rightarrow> 'o \<Rightarrow> BankingPacket \<Rightarrow> ('o \<times> BankingResponse) run" where
  "do_req_otp link env peer p = bind_run (unpack_into env p OTP_REQUEST_SIZE) (\<lambda>(bs, ok).
     if ok = 0 then
       let ident = OtpRequest.account_id (otp_request_of_bytes bs) in
       bind_run (request_otp_generation link (res_stack env) peer ident (replicate 10 0)) (\<lambda>(peer', code, granted).
       bind_run
         (if granted \<noteq> 0 then say (fmt_str ''OTP Generated: '' (the code) []) (with_status STATUS_SUCCESS zero_reply)
          else say (fmt_lit ''OTP Generation Failed'') (with_status STATUS_ERROR zero_reply))
         (\<lambda>resp. Ret (peer', resp)))
     else bind_run bad_format (\<lambda>resp. Ret (peer, resp)))"

definition do_login :: "'o OtpLink \<Rightarrow> ReqEnv \<Rightarrow> 'o \<Rightarrow> BankingPacket \<Rightarrow> ('o \<times> BankingResponse) run" where
  "do_login link env peer p = bind_run (unpack_into env p LOGIN_SIZE) (\<lambda>(bs, ok).
     if ok = 0 then
       let req = login_of_bytes bs in
       bind_run (verify_otp_remote link (res_stack env) peer (LoginRequest.account_id req) (LoginRequest.otp req))
         (\<lambda>(peer', out, granted).
       bind_run
         (if granted \<noteq> 0 then say (fmt_lit ''Login Successful'') (with_status STATUS_SUCCESS zero_reply)
          else say (fmt_lit ''Invalid OTP'') (with_status STATUS_ERROR zero_reply))
         (\<lambda>resp. Ret (peer', resp)))
     else bind_run bad_format (\<lambda>resp. Ret (peer, resp)))"

text \<open>The switch, and the response it sends.\<close>

type_synonym 'o world = "AccountDB option \<times> 'o"

definition dispatch :: "'o OtpLink \<Rightarrow> ReqEnv \<Rightarrow> 'o world \<Rightarrow> BankingPacket \<Rightarrow> ('o world \<times> BankingResponse) run" where
  "dispatch link env w p = (case w of (db, peer) \<Rightarrow>
     let opcode = ntohs (PacketHeader.op_code (header p));
         on_db = (\<lambda>run. bind_run run (\<lambda>(db', resp). Ret ((db', peer), resp)));
         on_peer = (\<lambda>run. bind_run run (\<lambda>(peer', resp). Ret ((db, peer'), resp))) in
     if opcode = OP_CREATE_ACCOUNT then on_db (do_create env db p)
     else if opcode = OP_DEPOSIT then on_db (do_deposit env db p)
     else if opcode = OP_WITHDRAW then on_db (do_withdraw env db p)
     else if opcode = OP_REQ_OTP then on_peer (do_req_otp link env peer p)
     else if opcode = OP_LOGIN then on_peer (do_login link env peer p)
     else if opcode = OP_BALANCE then on_db (do_balance env db p)
     else bind_run (say (fmt_lit ''Unknown operation'') (with_status STATUS_ERROR zero_reply))
            (\<lambda>resp. Ret (w, resp)))"

definition send_response :: "ReqEnv \<Rightarrow> BankingResponse \<Rightarrow> byte list run" where
  "send_response env resp = bind_run (pack_response (packet_rand env) (packet_stack env) resp)
     (\<lambda>(p, r). Ret (packet_bytes p))"

definition process_request :: "'o OtpLink \<Rightarrow> ReqEnv \<Rightarrow> 'o world \<Rightarrow> BankingPacket \<Rightarrow> ('o world \<times> byte list) run" where
  "process_request link env w p = bind_run (dispatch link env w p) (\<lambda>(w', resp).
     bind_run (send_response env resp) (\<lambda>out. Ret (w', out)))"

section \<open>A connection and a worker\<close>

text \<open>
  The inner loop over what \<open>tls_read\<close> delivers, each read with the stack its handling finds: \<open>None\<close>
  and \<open>[]\<close> (an error, the end) leave the loop, so does a packet that is not of the full size. The
  result is the world and the packets written. The loop runs as long as the client sends; this is
  its run over the reads so far.
\<close>

fun connection_loop :: "'o OtpLink \<Rightarrow> 'o world \<Rightarrow> (ReqEnv \<times> byte list option) list \<Rightarrow>
    ('o world \<times> byte list list) run" where
  "connection_loop link w [] = Ret (w, [])"
| "connection_loop link w ((env, None) # es) = Ret (w, [])"
| "connection_loop link w ((env, Some bs) # es) =
     (if bs = [] then Ret (w, [])
      else if length bs \<noteq> PACKET_SIZE then Ret (w, [])
      else let p = packet_of_bytes bs in
        bind_run (verify_packet_checksum p) (\<lambda>v.
        if v \<noteq> 0 then
          bind_run (say (fmt_lit ''Checksum verification failed'') (with_status STATUS_ERROR zero_reply)) (\<lambda>resp.
          bind_run (send_response env resp) (\<lambda>out.
          bind_run (connection_loop link w es) (\<lambda>(w', outs). Ret (w', out # outs))))
        else
          bind_run (process_request link env w p) (\<lambda>(w', out).
          bind_run (connection_loop link w' es) (\<lambda>(w'', outs). Ret (w'', out # outs)))))"

text \<open>
  What \<open>accept\<close> and the handshake bring: a failure with \<open>EINTR\<close> or \<open>EBADF\<close> (the worker leaves its
  loop), another failure, a client whose handshake fails, a client with its reads.
\<close>

datatype accept_event =
    Accept_Closed
  | Accept_Failed
  | Handshake_Failed
  | Client "(ReqEnv \<times> byte list option) list"

datatype worker_status = Waiting | Exited

fun worker_main :: "'o OtpLink \<Rightarrow> 'o world \<Rightarrow> accept_event list \<Rightarrow>
    ('o world \<times> byte list list list \<times> worker_status) run" where
  "worker_main link w [] = Ret (w, [], Waiting)"
| "worker_main link w (Accept_Closed # as) = Ret (w, [], Exited)"
| "worker_main link w (Accept_Failed # as) = worker_main link w as"
| "worker_main link w (Handshake_Failed # as) = worker_main link w as"
| "worker_main link w (Client rs # as) = bind_run (connection_loop link w rs) (\<lambda>(w', outs).
     bind_run (worker_main link w' as) (\<lambda>(w'', outss, st). Ret (w'', outs # outss, st)))"

section \<open>Answers to well-formed requests\<close>

text \<open>The response to an operation on the accounts with result \<open>r\<close> that reports \<open>v\<close>.\<close>

definition reply_with :: "int \<Rightarrow> f64 \<Rightarrow> byte list \<Rightarrow> BankingResponse" where
  "reply_with r b text = \<lparr>BankingResponse.status = word_of_int r,
     BankingResponse.message = zero_pad 256 (take 255 text), BankingResponse.balance = b\<rparr>"

fun bank_text :: "account_op \<Rightarrow> int \<Rightarrow> f64 \<Rightarrow> byte list" where
  "bank_text (Create s x) r b =
     (if r = 0 then chars ''Account '' @ string_of s @ chars '' created successfully''
      else chars ''Failed to create account'')"
| "bank_text (Deposit s a) r b =
     (if r = 0 then chars ''Deposited '' @ fmt_2f a @ chars '' to account '' @ string_of s
      else if r = -2 then chars ''Account '' @ string_of s @ chars '' not found''
      else chars ''Deposit failed'')"
| "bank_text (Withdraw s a) r b =
     (if r = 0 then chars ''Withdrew '' @ fmt_2f a @ chars '' from account '' @ string_of s
      else if r = -2 then chars ''Account '' @ string_of s @ chars '' not found''
      else if r = -3 then chars ''Insufficient funds''
      else chars ''Withdrawal failed'')"
| "bank_text (Query s) r b =
     (if r = 0 then chars ''Account '' @ string_of s @ chars '' balance: '' @ fmt_2f b
      else chars ''Account '' @ string_of s @ chars '' not found'')"

fun reported :: "account_op \<Rightarrow> f64 option \<Rightarrow> f64 \<Rightarrow> f64" where
  "reported (Create s x) v junk = x"
| "reported x v junk = (case v of None \<Rightarrow> junk | Some b \<Rightarrow> b)"

definition bank_reply :: "account_op \<Rightarrow> int \<Rightarrow> f64 option \<Rightarrow> f64 \<Rightarrow> BankingResponse" where
  "bank_reply x r v junk = reply_with r (reported x v junk) (bank_text x r (reported x v junk))"

text \<open>How a client packs an operation.\<close>

fun op_code_of :: "account_op \<Rightarrow> u16" where
  "op_code_of (Create s x) = OP_CREATE_ACCOUNT" | "op_code_of (Deposit s a) = OP_DEPOSIT"
| "op_code_of (Withdraw s a) = OP_WITHDRAW" | "op_code_of (Query s) = OP_BALANCE"

fun op_payload :: "account_op \<Rightarrow> byte list" where
  "op_payload (Create s x) = create_bytes \<lparr>CreateAccountRequest.account_id = s, initial_balance = x\<rparr>"
| "op_payload (Deposit s a) = deposit_bytes \<lparr>DepositRequest.account_id = s, amount = a\<rparr>"
| "op_payload (Withdraw s a) = withdraw_bytes \<lparr>WithdrawRequest.account_id = s, amount = a\<rparr>"
| "op_payload (Query s) = balance_bytes \<lparr>BalanceRequest.account_id = s\<rparr>"

definition stack_ok :: "ReqEnv \<Rightarrow> bool" where
  "stack_ok env \<longleftrightarrow> 30 \<le> length (req_stack env) \<and> length (res_stack env) = IPC_RESPONSE_SIZE"

lemma say_runs:
  assumes "BankingResponse.message resp = replicate 256 0"
  shows "say (Ret text) resp = Ret (resp\<lparr>BankingResponse.message := zero_pad 256 (take 255 text)\<rparr>)"
proof -
  have "c_snprintf (replicate 256 0) 256 text = c_snprintf (replicate 256 0) 256 (take 255 text)"
    by (simp add: c_snprintf_def)
  also have "\<dots> = Ret (zero_pad 256 (take 255 text))" by (rule c_snprintf_zeros) simp
  finally show ?thesis using assms by (simp add: say_def)
qed

lemmas reply_simps = say_runs fmt_lit_def fmt_str_def fmt_num_str_def fmt_str_num_def zero_reply_def
  with_status_def with_balance_def reply_with_def

lemma bad_format_runs: "bad_format = Ret (reply_with (-1) 0 (chars ''Invalid request format''))"
  by (simp add: bad_format_def reply_simps STATUS_ERROR_def)

lemma spec_create_results: "spec_step m (Create s x) = (m', r, v) \<Longrightarrow> r \<in> {0, -1, -2, -3}"
  by (auto simp: Let_def split: if_splits)

lemma do_create_full:
  assumes "db_wf d" "valid_id s"
    and "unpack_into env p CREATE_SIZE = Ret (op_payload (Create s x), 0)"
  shows "\<exists>d' r v. do_create env (Some d) p = Ret (Some d', bank_reply (Create s x) r v (balance_stack env))
    \<and> db_wf d' \<and> spec_step (db_abs d) (Create s x) = (db_abs d', r, v)"
proof -
  have dec: "create_of_bytes (create_bytes \<lparr>CreateAccountRequest.account_id = s, initial_balance = x\<rparr>)
      = \<lparr>CreateAccountRequest.account_id = s, initial_balance = x\<rparr>"
    using assms(2) by (intro create_struct.dec_enc) (simp add: valid_id_def ACCOUNT_ID_LEN_def)
  obtain d' r where run: "account_create (Some d) (Some s) x = Ret (Some d', r)" "db_wf d'"
    "spec_step (db_abs d) (Create s x) = (db_abs d', r, None)"
    using account_create_runs [OF assms(1,2), of x] by blast
  have "r \<in> {0, -1, -2, -3}" by (rule spec_create_results [OF run(3)])
  then have "do_create env (Some d) p = Ret (Some d', bank_reply (Create s x) r None (balance_stack env))"
    using assms(2,3) run(1) by (auto simp: do_create_def dec reply_simps valid_id_def bank_reply_def)
  then show ?thesis using run by blast
qed

lemma do_deposit_full:
  assumes "db_wf d" "valid_id s"
    and "unpack_into env p DEPOSIT_SIZE = Ret (op_payload (Deposit s a), 0)"
  shows "\<exists>d' r v. do_deposit env (Some d) p = Ret (Some d', bank_reply (Deposit s a) r v (balance_stack env))
    \<and> db_wf d' \<and> spec_step (db_abs d) (Deposit s a) = (db_abs d', r, v)"
proof -
  have dec: "deposit_of_bytes (deposit_bytes \<lparr>DepositRequest.account_id = s, amount = a\<rparr>)
      = \<lparr>DepositRequest.account_id = s, amount = a\<rparr>" and nul: "terminated s"
    using assms(2) deposit_struct.dec_enc by (simp_all add: valid_id_def ACCOUNT_ID_LEN_def)
  obtain d' r v where run:
    "account_deposit (Some d) (Some s) a (Some (balance_stack env)) = Ret (Some d', out_cell (Some (balance_stack env)) v, r)"
    "db_wf d'" "spec_step (db_abs d) (Deposit s a) = (db_abs d', r, v)"
    using account_deposit_runs [OF assms(1) nul, of a "Some (balance_stack env)"] by blast
  have "do_deposit env (Some d) p = Ret (Some d', bank_reply (Deposit s a) r v (balance_stack env))"
    using assms(3) run(1) nul
    by (cases v) (simp_all add: do_deposit_def dec reply_simps bank_reply_def out_cell_def)
  then show ?thesis using run by blast
qed

lemma do_withdraw_full:
  assumes "db_wf d" "valid_id s"
    and "unpack_into env p WITHDRAW_SIZE = Ret (op_payload (Withdraw s a), 0)"
  shows "\<exists>d' r v. do_withdraw env (Some d) p = Ret (Some d', bank_reply (Withdraw s a) r v (balance_stack env))
    \<and> db_wf d' \<and> spec_step (db_abs d) (Withdraw s a) = (db_abs d', r, v)"
proof -
  have dec: "withdraw_of_bytes (withdraw_bytes \<lparr>WithdrawRequest.account_id = s, amount = a\<rparr>)
      = \<lparr>WithdrawRequest.account_id = s, amount = a\<rparr>" and nul: "terminated s"
    using assms(2) withdraw_struct.dec_enc by (simp_all add: valid_id_def ACCOUNT_ID_LEN_def)
  obtain d' r v where run:
    "account_withdraw (Some d) (Some s) a (Some (balance_stack env)) = Ret (Some d', out_cell (Some (balance_stack env)) v, r)"
    "db_wf d'" "spec_step (db_abs d) (Withdraw s a) = (db_abs d', r, v)"
    using account_withdraw_runs [OF assms(1) nul, of a "Some (balance_stack env)"] by blast
  have "do_withdraw env (Some d) p = Ret (Some d', bank_reply (Withdraw s a) r v (balance_stack env))"
    using assms(3) run(1) nul
    by (cases v) (simp_all add: do_withdraw_def dec reply_simps bank_reply_def out_cell_def)
  then show ?thesis using run by blast
qed

lemma do_balance_full:
  assumes "db_wf d" "valid_id s"
    and "unpack_into env p BALANCE_SIZE = Ret (op_payload (Query s), 0)"
  shows "\<exists>d' r v. do_balance env (Some d) p = Ret (Some d', bank_reply (Query s) r v (balance_stack env))
    \<and> db_wf d' \<and> spec_step (db_abs d) (Query s) = (db_abs d', r, v)"
proof -
  have dec: "balance_of_bytes (balance_bytes \<lparr>BalanceRequest.account_id = s\<rparr>)
      = \<lparr>BalanceRequest.account_id = s\<rparr>" and nul: "terminated s"
    using assms(2) balance_struct.dec_enc by (simp_all add: valid_id_def ACCOUNT_ID_LEN_def)
  obtain r v where run:
    "account_get_balance (Some d) (Some s) (Some (balance_stack env)) = Ret (Some d, out_cell (Some (balance_stack env)) v, r)"
    "spec_step (db_abs d) (Query s) = (db_abs d, r, v)"
    using account_get_balance_runs [OF assms(1) nul, of "balance_stack env"] by blast
  have "r = 0 \<or> r = -2" using run(2) by (auto split: option.splits)
  then have "do_balance env (Some d) p = Ret (Some d, bank_reply (Query s) r v (balance_stack env))"
    using assms(3) run(1) nul
    by (cases v) (auto simp: do_balance_def dec reply_simps bank_reply_def out_cell_def)
  then show ?thesis using run assms(1) by blast
qed

section \<open>Requests and responses as packets\<close>

text \<open>The packet a client sends for an operation, and what a client reads from the bytes of a response.\<close>

definition packed :: "u32 \<Rightarrow> u16 \<Rightarrow> byte list \<Rightarrow> BankingPacket" where
  "packed rnd op d = (case pack_request rnd (packet_of_bytes []) op (Some d) (length d) of
     Ret (p, r) \<Rightarrow> p | Fault e \<Rightarrow> packet_of_bytes [])"

definition client_packet :: "u32 \<Rightarrow> account_op \<Rightarrow> BankingPacket" where
  "client_packet rnd x = packed rnd (op_code_of x) (op_payload x)"

definition decode_reply :: "byte list \<Rightarrow> BankingResponse option" where
  "decode_reply out = (if length out \<noteq> PACKET_SIZE then None
     else case unpack_response (packet_of_bytes out) zero_reply of
       Ret (resp, r) \<Rightarrow> if r = 0 then Some resp else None | Fault e \<Rightarrow> None)"

lemma op_payload_length:
  "length (op_id x) = 20 \<Longrightarrow> length (op_payload x) \<le> 28"
  "length s = 20 \<Longrightarrow> length (op_payload (Create s b)) = CREATE_SIZE"
  "length s = 20 \<Longrightarrow> length (op_payload (Deposit s b)) = DEPOSIT_SIZE"
  "length s = 20 \<Longrightarrow> length (op_payload (Withdraw s b)) = WITHDRAW_SIZE"
  "length s = 20 \<Longrightarrow> length (op_payload (Query s)) = BALANCE_SIZE"
  by (cases x) (simp_all add: struct_defs struct_sizes)

lemma packed_facts:
  assumes "length d \<le> 30" "stack_ok env"
  shows "packet_wf (packed rnd op d)" "packet_of_bytes (packet_bytes (packed rnd op d)) = packed rnd op d"
    "length (packet_bytes (packed rnd op d)) = PACKET_SIZE"
    "ntohs (PacketHeader.op_code (header (packed rnd op d))) = op"
    "verify_packet_checksum (packed rnd op d) = Ret 0"
    "unpack_into env (packed rnd op d) (length d) = Ret (d, 0)"
proof -
  let ?n = "length d" and ?p = "packed rnd op d"
  have max: "?n \<le> MAX_DATA_SIZE" using assms(1) by (simp add: MAX_DATA_SIZE_def)
  have p: "pack_request rnd (packet_of_bytes []) op (Some d) ?n = Ret (?p, 0)"
    using pack_request_eq [OF order.refl max] by (simp add: packed_def)
  have buf: "?n \<le> length (take ?n (req_stack env))" "length (take ?n (req_stack env)) = ?n"
    using assms by (simp_all add: stack_ok_def)
  note facts = unpack_pack_request [OF order.refl max order.refl buf(1) p]
  show "packet_wf ?p" "verify_packet_checksum ?p = Ret 0" by (rule facts)+
  show "packet_of_bytes (packet_bytes ?p) = ?p" "length (packet_bytes ?p) = PACKET_SIZE"
    "ntohs (PacketHeader.op_code (header ?p)) = op"
    using facts by (simp_all add: packet_of_packet_bytes length_packet_bytes)
  show "unpack_into env ?p ?n = Ret (d, 0)"
    using facts(6) buf(2) by (simp add: unpack_into_def)
qed

lemma client_packet_facts:
  assumes "length (op_id x) = 20" "stack_ok env"
  shows "packet_wf (client_packet rnd x)" "packet_of_bytes (packet_bytes (client_packet rnd x)) = client_packet rnd x"
    "length (packet_bytes (client_packet rnd x)) = PACKET_SIZE"
    "ntohs (PacketHeader.op_code (header (client_packet rnd x))) = op_code_of x"
    "verify_packet_checksum (client_packet rnd x) = Ret 0"
    "unpack_into env (client_packet rnd x) (length (op_payload x)) = Ret (op_payload x, 0)"
proof -
  have "length (op_payload x) \<le> 30" using op_payload_length(1) [OF assms(1)] by linarith
  note facts = packed_facts [OF this assms(2)]
  show "packet_wf (client_packet rnd x)" "packet_of_bytes (packet_bytes (client_packet rnd x)) = client_packet rnd x"
    "length (packet_bytes (client_packet rnd x)) = PACKET_SIZE"
    "ntohs (PacketHeader.op_code (header (client_packet rnd x))) = op_code_of x"
    "verify_packet_checksum (client_packet rnd x) = Ret 0"
    "unpack_into env (client_packet rnd x) (length (op_payload x)) = Ret (op_payload x, 0)"
    unfolding client_packet_def by (rule facts)+
qed

lemma send_response_runs:
  assumes "length (BankingResponse.message resp) = 256"
  shows "\<exists>out. send_response env resp = Ret out \<and> length out = PACKET_SIZE \<and> decode_reply out = Some resp
    \<and> ntohs (PacketHeader.op_code (header (packet_of_bytes out))) = OP_RESPONSE
    \<and> verify_packet_checksum (packet_of_bytes out) = Ret 0"
proof -
  obtain p where p: "pack_request (packet_rand env) (packet_stack env) OP_RESPONSE
      (Some (response_bytes resp)) RESPONSE_SIZE = Ret (p, 0)"
    using response_struct.pack_succeeds [OF assms] by blast
  have zero: "length (response_bytes zero_reply) = RESPONSE_SIZE"
    by (rule response_struct.length_enc) (simp add: zero_reply_def)
  note facts = response_struct.roundtrip [OF assms zero p]
  have "verify_packet_checksum p = Ret 0"
    using unpack_pack_request(5) [OF _ response_struct.fits order.refl _ p, of "replicate RESPONSE_SIZE 0"]
      response_struct.length_enc [OF assms] by simp
  then show ?thesis using p facts
    by (auto simp: send_response_def pack_response_def decode_reply_def unpack_response_def length_packet_bytes
        packet_of_packet_bytes)
qed

lemma length_reply [simp]: "length (BankingResponse.message (reply_with r b text)) = 256"
  by (simp add: reply_with_def)

section \<open>Transactions\<close>

lemma dispatch_runs:
  assumes "db_wf d" "valid_op x" "stack_ok env"
  shows "\<exists>d' r v. dispatch link env (Some d, peer) (client_packet rnd x)
      = Ret ((Some d', peer), bank_reply x r v (balance_stack env))
    \<and> db_wf d' \<and> spec_step (db_abs d) x = (db_abs d', r, v)"
proof -
  have id: "length (op_id x) = 20" "valid_id (op_id x)"
    using assms(2) by (simp_all add: valid_op_def valid_id_def ACCOUNT_ID_LEN_def)
  note facts = client_packet_facts [OF id(1) assms(3), of rnd]
  show ?thesis
  proof (cases x)
    case (Create s b)
    then show ?thesis
      using do_create_full [OF assms(1), of s env "client_packet rnd x" b] facts(4,6) id op_payload_length(2) [of s b]
      by (fastforce simp: dispatch_def Let_def simp del: spec_step.simps op_payload.simps)
  next
    case (Deposit s a)
    then show ?thesis
      using do_deposit_full [OF assms(1), of s env "client_packet rnd x" a] facts(4,6) id op_payload_length(3) [of s a]
      by (fastforce simp: dispatch_def Let_def op_defs simp del: spec_step.simps op_payload.simps)
  next
    case (Withdraw s a)
    then show ?thesis
      using do_withdraw_full [OF assms(1), of s env "client_packet rnd x" a] facts(4,6) id op_payload_length(4) [of s a]
      by (fastforce simp: dispatch_def Let_def op_defs simp del: spec_step.simps op_payload.simps)
  next
    case (Query s)
    then show ?thesis
      using do_balance_full [OF assms(1), of s env "client_packet rnd x"] facts(4,6) id op_payload_length(5) [of s]
      by (fastforce simp: dispatch_def Let_def op_defs simp del: spec_step.simps op_payload.simps)
  qed
qed

lemma process_request_runs:
  assumes "db_wf d" "valid_op x" "stack_ok env"
  shows "\<exists>d' r v out. process_request link env (Some d, peer) (client_packet rnd x) = Ret ((Some d', peer), out)
    \<and> decode_reply out = Some (bank_reply x r v (balance_stack env))
    \<and> db_wf d' \<and> spec_step (db_abs d) x = (db_abs d', r, v)"
proof -
  obtain d' r v where run: "dispatch link env (Some d, peer) (client_packet rnd x)
      = Ret ((Some d', peer), bank_reply x r v (balance_stack env))"
    "db_wf d'" "spec_step (db_abs d) x = (db_abs d', r, v)"
    using dispatch_runs [OF assms, of link peer rnd] by blast
  obtain out where "send_response env (bank_reply x r v (balance_stack env)) = Ret out"
    "decode_reply out = Some (bank_reply x r v (balance_stack env))"
    using send_response_runs [of "bank_reply x r v (balance_stack env)" env] by (auto simp: bank_reply_def)
  then show ?thesis using run by (auto simp: process_request_def)
qed

section \<open>Arbitrary bytes\<close>

text \<open>
  Whatever packet of the right size arrives, each piece of its handling is guarded: it reads past an
  array, or it gives back a database that is well-formed and has lost nothing, and a response whose
  message array has its size.
\<close>

lemma c_str_guarded: "guarded (\<lambda>_. True) (c_str s)"
  by (cases "terminated s") simp_all

lemma say_guarded:
  assumes "guarded (\<lambda>_. True) fmt" "BankingResponse.message resp = replicate 256 0"
  shows "guarded (\<lambda>r. length (BankingResponse.message r) = 256) (say fmt resp)"
  using assms say_runs [OF assms(2)] by (cases fmt) (simp_all add: say_def)

lemma fmt_guarded:
  "guarded (\<lambda>_. True) (fmt_lit t)" "guarded (\<lambda>_. True) (fmt_str pre s post)"
  "guarded (\<lambda>_. True) (fmt_num_str pre n mid s)" "guarded (\<lambda>_. True) (fmt_str_num pre s mid n)"
  by (simp_all add: fmt_lit_def fmt_str_def fmt_num_str_def fmt_str_num_def guarded_bind [OF c_str_guarded])

lemma reply_message [simp]:
  "BankingResponse.message (with_status r resp) = BankingResponse.message resp"
  "BankingResponse.message (with_balance b resp) = BankingResponse.message resp"
  "BankingResponse.message zero_reply = replicate 256 0"
  by (simp_all add: with_status_def with_balance_def zero_reply_def)

lemmas answer_guarded = say_guarded [OF fmt_guarded(1)] say_guarded [OF fmt_guarded(2)]
  say_guarded [OF fmt_guarded(3)] say_guarded [OF fmt_guarded(4)]

lemma unpack_into_guarded:
  assumes "packet_wf p" "stack_ok env" "sz \<le> 30"
  shows "guarded (\<lambda>(bs, r). length bs = sz) (unpack_into env p sz)"
proof -
  have buf: "length (take sz (req_stack env)) = sz" using assms(2,3) by (simp add: stack_ok_def)
  have ok: "packet_data_size p \<le> length (data p)" if "verify_packet_checksum p = Ret v" for v
    using that by (auto simp: verify_packet_checksum_def calculate_checksum_eq split: if_splits)
  show ?thesis
  proof (cases "verify_packet_checksum p")
    case (Fault e)
    then have "e = Over_Read" using verify_packet_checksum_eq [OF assms(1)] by (auto split: if_splits)
    then show ?thesis using Fault by (simp add: unpack_into_def unpack_request_def)
  next
    case (Ret v)
    then show ?thesis using ok [OF Ret] buf by (auto simp: unpack_into_def unpack_request_def Let_def)
  qed
qed

lemma bad_format_guarded: "guarded (\<lambda>r. length (BankingResponse.message r) = 256) bad_format"
  by (simp add: bad_format_runs)

text \<open>The shape every case of the switch has: unpack, act on the request, answer.\<close>

lemma case_guarded:
  assumes "guarded (\<lambda>(bs, r). length bs = sz) (unpack_into env p sz)" "P s"
    and "\<And>bs. length bs = sz \<Longrightarrow> guarded (\<lambda>(s', resp). P s' \<and> length (BankingResponse.message resp) = 256) (act bs)"
  shows "guarded (\<lambda>(s', resp). P s' \<and> length (BankingResponse.message resp) = 256)
    (bind_run (unpack_into env p sz) (\<lambda>(bs, ok). if ok = 0 then act bs else bind_run bad_format (\<lambda>resp. Ret (s, resp))))"
  by (rule guarded_bind [OF assms(1)]) (auto simp: assms(2,3) bad_format_runs)

lemma answered:
  assumes "P s" "guarded (\<lambda>r. length (BankingResponse.message r) = 256) m"
  shows "guarded (\<lambda>(s', resp). P s' \<and> length (BankingResponse.message resp) = 256) (bind_run m (\<lambda>resp. Ret (s, resp)))"
  using assms by (intro guarded_bind [OF assms(2)]) simp

lemma do_create_guarded:
  assumes "db_wf d" "packet_wf p" "stack_ok env"
  shows "guarded (\<lambda>(db, resp). kept d db \<and> length (BankingResponse.message resp) = 256) (do_create env (Some d) p)"
  unfolding do_create_def
proof (rule case_guarded [OF unpack_into_guarded [OF assms(2,3)]], goal_cases)
  case (3 bs)
  then have "length (CreateAccountRequest.account_id (create_of_bytes bs)) = ACCOUNT_ID_LEN"
    by (simp add: struct_defs struct_sizes ACCOUNT_ID_LEN_def)
  from account_create_guarded [OF assms(1) this] show ?case
    unfolding Let_def by (rule guarded_bind) (auto intro!: answered answer_guarded simp: assms(1))
qed (simp_all add: struct_sizes assms(1))

lemma do_deposit_guarded:
  assumes "db_wf d" "packet_wf p" "stack_ok env"
  shows "guarded (\<lambda>(db, resp). kept d db \<and> length (BankingResponse.message resp) = 256) (do_deposit env (Some d) p)"
  unfolding do_deposit_def
proof (rule case_guarded [OF unpack_into_guarded [OF assms(2,3)]], goal_cases)
  case (3 bs)
  then have "length (DepositRequest.account_id (deposit_of_bytes bs)) = ACCOUNT_ID_LEN"
    by (simp add: struct_defs struct_sizes ACCOUNT_ID_LEN_def)
  from account_deposit_guarded [OF assms(1) this] show ?case
    unfolding Let_def by (rule guarded_bind) (auto intro!: answered answer_guarded simp: assms(1))
qed (simp_all add: struct_sizes assms(1))

lemma do_withdraw_guarded:
  assumes "db_wf d" "packet_wf p" "stack_ok env"
  shows "guarded (\<lambda>(db, resp). kept d db \<and> length (BankingResponse.message resp) = 256) (do_withdraw env (Some d) p)"
  unfolding do_withdraw_def
proof (rule case_guarded [OF unpack_into_guarded [OF assms(2,3)]], goal_cases)
  case (3 bs)
  then have "length (WithdrawRequest.account_id (withdraw_of_bytes bs)) = ACCOUNT_ID_LEN"
    by (simp add: struct_defs struct_sizes ACCOUNT_ID_LEN_def)
  from account_withdraw_guarded [OF assms(1) this] show ?case
    unfolding Let_def by (rule guarded_bind) (auto intro!: answered answer_guarded simp: assms(1))
qed (simp_all add: struct_sizes assms(1))

lemma do_balance_guarded:
  assumes "db_wf d" "packet_wf p" "stack_ok env"
  shows "guarded (\<lambda>(db, resp). kept d db \<and> length (BankingResponse.message resp) = 256) (do_balance env (Some d) p)"
  unfolding do_balance_def
proof (rule case_guarded [OF unpack_into_guarded [OF assms(2,3)]], goal_cases)
  case (3 bs)
  then have "length (BalanceRequest.account_id (balance_of_bytes bs)) = ACCOUNT_ID_LEN"
    by (simp add: struct_defs struct_sizes ACCOUNT_ID_LEN_def)
  from account_get_balance_guarded [OF assms(1) this] show ?case
    unfolding Let_def by (rule guarded_bind) (auto intro!: answered answer_guarded simp: assms(1))
qed (simp_all add: struct_sizes assms(1))

lemma call_otp_guarded:
  assumes "\<And>out. otp_out = Some out \<Longrightarrow> length out = 10"
  shows "guarded (\<lambda>_. True) (call_otp_service link stk peer opcode acc otp_in otp_out)"
proof -
  have code: "guarded (\<lambda>_. True) (case otp_in of None \<Rightarrow> Ret (replicate 8 0) | Some i \<Rightarrow> c_strncpy (replicate 8 0) i (8 - 1))"
    using c_strncpy_guarded [of 7 "replicate 8 0"] by (auto split: option.splits intro: guarded_mono)
  have out: "guarded (\<lambda>_. True) (bind_run (c_strncpy out s 8) (\<lambda>out'. Ret (peer', Some out', 1)))"
    if "otp_out = Some out" for out s peer'
    using assms [OF that] by (intro guarded_bind [OF c_strncpy_guarded]) simp_all
  show ?thesis
    unfolding call_otp_service_def
    by (auto intro!: guarded_bind [OF c_strncpy_guarded] guarded_bind [OF code] out
        simp: Let_def split: option.splits prod.splits)
qed

lemma do_req_otp_guarded:
  assumes "packet_wf p" "stack_ok env"
  shows "guarded (\<lambda>(peer', resp). True \<and> length (BankingResponse.message resp) = 256) (do_req_otp link env peer p)"
  unfolding do_req_otp_def
proof (rule case_guarded [OF unpack_into_guarded [OF assms]], goal_cases)
  case (3 bs)
  have "guarded (\<lambda>_. True) (request_otp_generation link (res_stack env) peer s (replicate 10 0))" for s
    unfolding request_otp_generation_def by (rule call_otp_guarded) auto
  then show ?case
    unfolding Let_def by (rule guarded_bind) (auto intro!: answered [where P = "\<lambda>_. True", simplified] answer_guarded)
qed (simp_all add: struct_sizes)

lemma do_login_guarded:
  assumes "packet_wf p" "stack_ok env"
  shows "guarded (\<lambda>(peer', resp). True \<and> length (BankingResponse.message resp) = 256) (do_login link env peer p)"
  unfolding do_login_def
proof (rule case_guarded [OF unpack_into_guarded [OF assms]], goal_cases)
  case (3 bs)
  have "guarded (\<lambda>_. True) (verify_otp_remote link (res_stack env) peer s c)" for s c
    unfolding verify_otp_remote_def by (rule call_otp_guarded) auto
  then show ?case
    unfolding Let_def by (rule guarded_bind) (auto intro!: answered [where P = "\<lambda>_. True", simplified] answer_guarded)
qed (simp_all add: struct_sizes)

lemma dispatch_guarded:
  assumes "db_wf d" "packet_wf p" "stack_ok env"
  shows "guarded (\<lambda>(w, resp). kept d (fst w) \<and> length (BankingResponse.message resp) = 256)
    (dispatch link env (Some d, peer) p)"
proof -
  note db_cases = do_create_guarded [OF assms] do_deposit_guarded [OF assms] do_withdraw_guarded [OF assms]
    do_balance_guarded [OF assms]
  note peer_cases = do_req_otp_guarded [OF assms(2,3)] do_login_guarded [OF assms(2,3)]
  show ?thesis
    unfolding dispatch_def Let_def
    by (auto intro!: db_cases [THEN guarded_bind] peer_cases [THEN guarded_bind] answer_guarded [THEN guarded_bind]
        simp: assms(1))
qed

definition is_response :: "byte list \<Rightarrow> bool" where
  "is_response out \<longleftrightarrow> length out = PACKET_SIZE \<and> decode_reply out \<noteq> None
     \<and> ntohs (PacketHeader.op_code (header (packet_of_bytes out))) = OP_RESPONSE
     \<and> verify_packet_checksum (packet_of_bytes out) = Ret 0"

lemma send_response_guarded:
  "length (BankingResponse.message resp) = 256 \<Longrightarrow> guarded is_response (send_response env resp)"
  using send_response_runs [of resp env] by (auto simp: is_response_def)

lemma process_request_guarded:
  assumes "db_wf d" "packet_wf p" "stack_ok env"
  shows "guarded (\<lambda>(w, out). kept d (fst w) \<and> is_response out) (process_request link env (Some d, peer) p)"
  unfolding process_request_def
  by (rule guarded_bind [OF dispatch_guarded [OF assms]]) (auto intro: guarded_bind [OF send_response_guarded])

lemma kept_trans: "kept d (Some d') \<Longrightarrow> kept d' db \<Longrightarrow> kept d db"
  by (auto simp: kept_def intro: bank_grows_trans)

lemma connection_guarded:
  assumes "db_wf d" "\<forall>(env, r)\<in>set reads. stack_ok env"
  shows "guarded (\<lambda>(w, outs). kept d (fst w) \<and> list_all is_response outs \<and> length outs \<le> length reads)
    (connection_loop link (Some d, peer) reads)"
  using assms
proof (induction reads arbitrary: d peer)
  case (Cons e es)
  obtain env r where e: "e = (env, r)" by (cases e)
  with Cons.prems have env: "stack_ok env" by simp
  let ?Q = "\<lambda>(w, outs). kept d (fst w) \<and> list_all is_response outs \<and> length outs \<le> length (e # es)"
  have next_one: "guarded ?Q (bind_run (connection_loop link w es) (\<lambda>(w', outs). Ret (w', out # outs)))"
    if "kept d (fst w)" "is_response out" for w out
  proof -
    from that(1) obtain d' where w: "fst w = Some d'" and d': "db_wf d'"
      unfolding kept_def by blast
    moreover have "w = (fst w, snd w)" by simp
    ultimately have w: "w = (Some d', snd w)" and d': "db_wf d'" "kept d (Some d')"
      using that(1) by simp_all
    show ?thesis
      using Cons.IH [OF d'(1), of "snd w", folded w] Cons.prems(2) that(2) kept_trans [OF d'(2)]
      by (intro guarded_bind [where P = "\<lambda>(w, outs). kept d' (fst w) \<and> list_all is_response outs
        \<and> length outs \<le> length es"]) auto
  qed
  show ?case
  proof (cases "\<exists>bs. r = Some bs \<and> bs \<noteq> [] \<and> length bs = PACKET_SIZE")
    case True
    then obtain bs where bs: "r = Some bs" "bs \<noteq> []" "length bs = PACKET_SIZE" by blast
    let ?p = "packet_of_bytes bs"
    have wf: "packet_wf ?p" using bs(3) by (rule packet_of_bytes_wf)
    have verify: "guarded (\<lambda>_. True) (verify_packet_checksum ?p)"
      by (simp add: verify_packet_checksum_eq [OF wf])
    note process = process_request_guarded [OF Cons.prems(1) wf env, of link peer]
    have "guarded ?Q (bind_run (verify_packet_checksum ?p) (\<lambda>v.
        if v \<noteq> 0 then
          bind_run (say (fmt_lit ''Checksum verification failed'') (with_status STATUS_ERROR zero_reply)) (\<lambda>resp.
          bind_run (send_response env resp) (\<lambda>out.
          bind_run (connection_loop link (Some d, peer) es) (\<lambda>(w', outs). Ret (w', out # outs))))
        else
          bind_run (process_request link env (Some d, peer) ?p) (\<lambda>(w', out).
          bind_run (connection_loop link w' es) (\<lambda>(w'', outs). Ret (w'', out # outs)))))"
      using next_one Cons.prems(1)
      by (intro guarded_bind [OF verify])
         (auto intro!: answer_guarded [THEN guarded_bind] send_response_guarded [THEN guarded_bind]
            guarded_bind [OF process])
    then show ?thesis using bs by (simp add: e Let_def)
  next
    case False
    then show ?thesis using Cons.prems(1) by (cases r) (auto simp: e)
  qed
qed simp

section \<open>Sessions of whole transactions\<close>

text \<open>A client's session: each read delivers the packet of one operation.\<close>

definition client_reads :: "(ReqEnv \<times> u32 \<times> account_op) list \<Rightarrow> (ReqEnv \<times> byte list option) list" where
  "client_reads rs = map (\<lambda>(env, rnd, x). (env, Some (packet_bytes (client_packet rnd x)))) rs"

text \<open>The bank after a session, and the responses, by the specification.\<close>

fun session_spec :: "bank \<Rightarrow> (ReqEnv \<times> u32 \<times> account_op) list \<Rightarrow> bank \<times> BankingResponse list" where
  "session_spec m [] = (m, [])"
| "session_spec m ((env, rnd, x) # rs) = (let (m', r, v) = spec_step m x; (m'', resps) = session_spec m' rs
     in (m'', bank_reply x r v (balance_stack env) # resps))"

lemma packet_bytes_nonempty [simp]: "packet_bytes p \<noteq> []"
  using length_header_bytes [of "header p"] by (auto simp: packet_bytes_def simp del: length_header_bytes)

lemma session_runs:
  assumes "db_wf d" "\<forall>(env, rnd, x)\<in>set rs. stack_ok env \<and> valid_op x"
  shows "\<exists>d' outs. connection_loop link (Some d, peer) (client_reads rs) = Ret ((Some d', peer), outs) \<and> db_wf d'
    \<and> session_spec (db_abs d) rs = (db_abs d', map (the \<circ> decode_reply) outs) \<and> list_all (\<lambda>out. decode_reply out \<noteq> None) outs"
  using assms
proof (induction rs arbitrary: d)
  case (Cons q rs)
  obtain env rnd x where q: "q = (env, rnd, x)" by (cases q)
  with Cons.prems have ok: "stack_ok env" "valid_op x" "\<forall>(env, rnd, x)\<in>set rs. stack_ok env \<and> valid_op x" by auto
  then have "length (op_id x) = 20" by (simp add: valid_op_def valid_id_def ACCOUNT_ID_LEN_def)
  note facts = client_packet_facts [OF this ok(1), of rnd]
  obtain d' r v out where one: "process_request link env (Some d, peer) (client_packet rnd x) = Ret ((Some d', peer), out)"
    "decode_reply out = Some (bank_reply x r v (balance_stack env))" "db_wf d'" "spec_step (db_abs d) x = (db_abs d', r, v)"
    using process_request_runs [OF Cons.prems(1) ok(2,1), of link peer rnd] by blast
  obtain d'' outs where rest: "connection_loop link (Some d', peer) (client_reads rs) = Ret ((Some d'', peer), outs)"
    "db_wf d''" "session_spec (db_abs d') rs = (db_abs d'', map (the \<circ> decode_reply) outs)"
    "list_all (\<lambda>out. decode_reply out \<noteq> None) outs"
    using Cons.IH [OF one(3) ok(3)] by blast
  have "connection_loop link (Some d, peer) (client_reads (q # rs)) = Ret ((Some d'', peer), out # outs)"
    using one(1) rest(1) facts by (simp add: client_reads_def q)
  then show ?case using one rest by (auto simp: q simp del: spec_step.simps)
qed (simp add: client_reads_def)

section \<open>Packets the server turns down\<close>

lemma refused_reply: "say (fmt_lit t) (with_status STATUS_ERROR zero_reply) = Ret (reply_with (-1) 0 (chars t))"
  by (simp add: reply_simps STATUS_ERROR_def)

lemma unpack_too_large:
  assumes "packet_wf p" "verify_packet_checksum p = Ret 0" "12 + sz < announced p" "sz \<le> length (req_stack env)"
  shows "unpack_into env p sz = Ret (take sz (req_stack env), -1)"
proof -
  have "packet_data_size p = announced p - 12" using assms(3) by (simp add: packet_data_size_eq Let_def)
  then show ?thesis using assms by (simp add: unpack_into_def unpack_request_def Let_def)
qed

text \<open>The size of the struct of an operation code, where it has one.\<close>

definition struct_size :: "u16 \<Rightarrow> nat option" where
  "struct_size op = (if op = OP_CREATE_ACCOUNT then Some CREATE_SIZE else if op = OP_DEPOSIT then Some DEPOSIT_SIZE
     else if op = OP_WITHDRAW then Some WITHDRAW_SIZE else if op = OP_REQ_OTP then Some OTP_REQUEST_SIZE
     else if op = OP_LOGIN then Some LOGIN_SIZE else if op = OP_BALANCE then Some BALANCE_SIZE else None)"

lemma dispatch_refuses:
  assumes "packet_wf p" "verify_packet_checksum p = Ret 0" "stack_ok env"
    and "case struct_size (ntohs (PacketHeader.op_code (header p))) of None \<Rightarrow> t = ''Unknown operation''
      | Some sz \<Rightarrow> 12 + sz < announced p \<and> t = ''Invalid request format''"
  shows "dispatch link env w p = Ret (w, reply_with (-1) 0 (chars t))"
proof -
  have "unpack_into env p sz = Ret (take sz (req_stack env), -1)"
    if "struct_size (ntohs (PacketHeader.op_code (header p))) = Some sz" for sz
    using assms that by (intro unpack_too_large)
      (auto simp: stack_ok_def struct_size_def struct_sizes split: if_splits)
  then show ?thesis
    using assms(4) unfolding struct_size_def dispatch_def do_create_def do_deposit_def do_withdraw_def do_balance_def
      do_req_otp_def do_login_def
    by (cases w) (auto simp: Let_def refused_reply bad_format_runs split: if_splits)
qed

text \<open>A packet with an operation code and no payload, as \<open>pack_request (&packet, op, NULL, 0)\<close> builds it.\<close>

definition empty_packet :: "u32 \<Rightarrow> u16 \<Rightarrow> BankingPacket" where
  "empty_packet rnd op = \<lparr>header = \<lparr>hlength = htonl 12, PacketHeader.op_code = htons op, checksum = htons 0, req_id = rnd\<rparr>,
     data = replicate MAX_DATA_SIZE 0\<rparr>"

lemma empty_packet_packed: "pack_request rnd p0 op None 0 = Ret (empty_packet rnd op, 0)"
  by (simp add: pack_request_def copy_payload_def calculate_checksum_eq empty_packet_def PROTOCOL_HEADER_SIZE_def Let_def)

lemma empty_packet_unpack:
  assumes "sz \<le> length (req_stack env)"
  shows "unpack_into env (empty_packet rnd op) sz = Ret (take sz (req_stack env), 0)"
    "verify_packet_checksum (empty_packet rnd op) = Ret 0" "packet_wf (empty_packet rnd op)"
proof -
  show wf: "packet_wf (empty_packet rnd op)" by (simp add: packet_wf_def empty_packet_def)
  show v: "verify_packet_checksum (empty_packet rnd op) = Ret 0"
    by (simp add: verify_packet_checksum_eq [OF wf]) (simp add: empty_packet_def)
  have "packet_data_size (empty_packet rnd op) = 0" by (simp add: packet_data_size_eq empty_packet_def)
  then show "unpack_into env (empty_packet rnd op) sz = Ret (take sz (req_stack env), 0)"
    using v assms by (simp add: unpack_into_def unpack_request_def put_bytes_def Let_def)
qed

section \<open>Properties\<close>

text \<open>A call environment and a link to a service that is not there, for concrete runs.\<close>

definition demo_env :: ReqEnv where
  "demo_env = \<lparr>req_stack = replicate 30 0, res_stack = replicate 76 0, balance_stack = 99, packet_rand = 7,
     packet_stack = packet_of_bytes []\<rparr>"

definition no_link :: "unit OtpLink" where
  "no_link = \<lparr>sock_ok = False, connect_ok = False, exchange = \<lambda>u bs. (u, None)\<rparr>"

lemma demo_env_ok [simp]: "stack_ok demo_env"
  by (simp add: stack_ok_def demo_env_def IPC_RESPONSE_SIZE_def)

lemma valid_ops [simp]:
  "valid_id s \<Longrightarrow> valid_op (Create s b)" "valid_id s \<Longrightarrow> valid_op (Deposit s b)"
  "valid_id s \<Longrightarrow> valid_op (Withdraw s b)" "valid_id s \<Longrightarrow> valid_op (Query s)"
  by (simp_all add: valid_op_def)

text \<open>
  C2: a transaction packet gets its transaction and its answer. For the packet a client packs for any
  create, deposit, withdrawal or query on a string in its array, sent over any link and with any
  values left on the server's stack, \<open>process_request\<close> returns, performs the operation of the
  specification on the accounts, keeps the database well-formed, and writes a 1036-byte packet that
  the client unpacks to the response for the result: status, message and balance. Nothing else
  decides the outcome: no login of the client is asked for, nor is the password service called.
\<close>

theorem transactions_served:
  assumes "db_wf d" "valid_op x" "stack_ok env"
  shows "\<exists>d' r v out.
      process_request link env (Some d, peer) (packet_of_bytes (packet_bytes (client_packet rnd x))) = Ret ((Some d', peer), out)
    \<and> decode_reply out = Some (bank_reply x r v (balance_stack env))
    \<and> db_wf d' \<and> spec_step (db_abs d) x = (db_abs d', r, v)"
proof -
  have "length (op_id x) = 20" using assms(2) by (simp add: valid_op_def valid_id_def ACCOUNT_ID_LEN_def)
  from client_packet_facts(2) [OF this assms(3)] show ?thesis
    using process_request_runs [OF assms] by simp
qed

theorem transactions_served_witness:
  "\<exists>d' out. process_request no_link demo_env (Some demo_db, ())
        (packet_of_bytes (packet_bytes (client_packet 3 (Withdraw alice (f64_of_nat 300))))) = Ret ((Some d', ()), out)
    \<and> decode_reply out = Some (reply_with 0 (f64_of_nat 700)
        (chars ''Withdrew '' @ fmt_2f (f64_of_nat 300) @ chars '' from account alice''))
    \<and> db_abs d' (chars ''alice'') = Some (f64_of_nat 700)"
proof -
  have op: "valid_op (Withdraw alice (f64_of_nat 300))" by simp
  have "chars '' from account '' @ chars ''alice'' = chars '' from account alice''" by (simp add: chars_def)
  with transactions_served [OF demo_db_wf op demo_env_ok, of no_link "()" 3] show ?thesis
    by (fastforce simp: f64_of_nat_lt f64_of_nat_le [of _ 0, simplified] f64_of_nat_sub bank_reply_def
        dest!: sym [of _ "db_abs _"])
qed

text \<open>
  C10: a session is a run of the specification. Over the packets of any sequence of operations, the
  worker's connection loop returns, the bank it leaves is the one the specification reaches, the
  database is well-formed with all locks free, and the responses the client decodes are, in order and
  one for each request, those of the specification.
\<close>

theorem sessions_follow_the_specification:
  assumes "db_wf d" "\<forall>(env, rnd, x)\<in>set rs. stack_ok env \<and> valid_op x"
  shows "\<exists>d' outs. connection_loop link (Some d, peer) (client_reads rs) = Ret ((Some d', peer), outs) \<and> db_wf d'
    \<and> session_spec (db_abs d) rs = (db_abs d', map (the \<circ> decode_reply) outs) \<and> list_all (\<lambda>out. decode_reply out \<noteq> None) outs"
  by (rule session_runs [OF assms])

theorem sessions_follow_the_specification_witness:
  "\<exists>d' outs. connection_loop no_link (Some init_db, ())
        (client_reads [(demo_env, 1, Create alice (f64_of_nat 10)), (demo_env, 2, Deposit alice (f64_of_nat 5))])
      = Ret ((Some d', ()), outs)
    \<and> db_abs d' = [chars ''alice'' \<mapsto> f64_of_nat 15]"
proof -
  have ok: "\<forall>(env, rnd, x)\<in>set [(demo_env, 1 :: u32, Create alice (f64_of_nat 10)), (demo_env, 2, Deposit alice (f64_of_nat 5))].
      stack_ok env \<and> valid_op x" by simp
  have "MAX_ACCOUNTS \<noteq> 0" by (simp add: MAX_ACCOUNTS_def)
  then have "fst (session_spec Map.empty [(demo_env, 1, Create alice (f64_of_nat 10)), (demo_env, 2, Deposit alice (f64_of_nat 5))])
      = [chars ''alice'' \<mapsto> f64_of_nat 15]"
    by (simp add: f64_of_nat_lt [of _ 0, simplified] f64_of_nat_le [of _ 0, simplified] f64_of_nat_add)
  with sessions_follow_the_specification [OF init_db_wf ok, of no_link "()"] show ?thesis by force
qed

text \<open>
  C4: no bytes corrupt the server. Whatever a client sends on a connection, in packets well or badly
  formed, and whatever the password service answers, the connection either ends in a read past an
  array (the length field or an account name without terminator, see the findings) or leaves the
  database well-formed with all locks free, every account still there, no balance made negative, and
  has written at most one packet for each read, each a response that passes the client's checks. It
  never writes outside a buffer, and never hangs on or misuses a lock.
\<close>

theorem arbitrary_bytes_are_guarded:
  assumes "db_wf d" "\<forall>(env, r)\<in>set reads. stack_ok env"
  shows "case connection_loop link (Some d, peer) reads of
      Fault e \<Rightarrow> e = Over_Read
    | Ret (w, outs) \<Rightarrow> (\<exists>d'. fst w = Some d' \<and> db_wf d' \<and> dom (db_abs d) \<subseteq> dom (db_abs d')
        \<and> (bank_nonneg (db_abs d) \<longrightarrow> bank_nonneg (db_abs d')))
        \<and> length outs \<le> length reads
        \<and> list_all (\<lambda>out. decode_reply out \<noteq> None \<and> verify_packet_checksum (packet_of_bytes out) = Ret 0
            \<and> ntohs (PacketHeader.op_code (header (packet_of_bytes out))) = OP_RESPONSE) outs"
  using connection_guarded [OF assms, of link peer]
  by (auto simp: guarded_def kept_def bank_grows_def is_response_def list_all_iff split: run.splits prod.splits)

theorem arbitrary_bytes_are_guarded_witness:
  "case connection_loop no_link (Some demo_db, ()) [(demo_env, Some (replicate 1036 255)), (demo_env, None)] of
      Fault e \<Rightarrow> e = Over_Read
    | Ret (w, outs) \<Rightarrow> (\<exists>d'. fst w = Some d' \<and> db_wf d')"
  using arbitrary_bytes_are_guarded [OF demo_db_wf, of "[(demo_env, Some (replicate 1036 255)), (demo_env, None)]" no_link "()"]
  by (auto split: run.splits prod.splits)

text \<open>
  C32: bad packets are answered and change nothing. A full-size packet whose bytes do not sum to its
  checksum, one with an unknown operation code, and one whose payload is larger than the struct of its
  operation are each answered with status -1 and their own message; neither the accounts nor the
  password service are touched, and the connection goes on to the next packet.
\<close>

theorem bad_packets_are_refused:
  assumes "stack_ok env" "length bs = PACKET_SIZE"
    and "verify_packet_checksum (packet_of_bytes bs) = Ret v"
    and "if v \<noteq> 0 then t = ''Checksum verification failed''
      else case struct_size (ntohs (PacketHeader.op_code (header (packet_of_bytes bs)))) of
          None \<Rightarrow> t = ''Unknown operation''
        | Some sz \<Rightarrow> 12 + sz < announced (packet_of_bytes bs) \<and> t = ''Invalid request format''"
  shows "\<exists>out. decode_reply out = Some (reply_with (-1) 0 (chars t))
    \<and> connection_loop link w ((env, Some bs) # es)
      = bind_run (connection_loop link w es) (\<lambda>(w', outs). Ret (w', out # outs))"
proof -
  let ?p = "packet_of_bytes bs"
  have "bs \<noteq> []" using assms(2) by (auto simp: size_defs)
  obtain out where out: "send_response env (reply_with (-1) 0 (chars t)) = Ret out"
    "decode_reply out = Some (reply_with (-1) 0 (chars t))"
    using send_response_runs [of "reply_with (-1) 0 (chars t)" env] by auto
  show ?thesis
  proof (cases "v = 0")
    case True
    then have "dispatch link env w ?p = Ret (w, reply_with (-1) 0 (chars t))"
      using assms(3,4) by (intro dispatch_refuses [OF packet_of_bytes_wf [OF assms(2)] _ assms(1)]) simp_all
    then show ?thesis using assms(2,3) out \<open>bs \<noteq> []\<close> True
      by (intro exI [of _ out]) (simp add: Let_def process_request_def)
  next
    case False
    then show ?thesis using assms(2,3,4) out \<open>bs \<noteq> []\<close>
      by (intro exI [of _ out]) (simp add: Let_def refused_reply)
  qed
qed

theorem bad_packets_are_refused_witness:
  "\<exists>out. decode_reply out = Some (reply_with (-1) 0 (chars ''Unknown operation''))
    \<and> connection_loop no_link (Some demo_db, ()) [(demo_env, Some (packet_bytes (empty_packet 5 77)))]
      = Ret ((Some demo_db, ()), [out])"
proof -
  note facts = empty_packet_unpack [of 0 demo_env 5 77]
  have reread: "packet_of_bytes (packet_bytes (empty_packet 5 77)) = empty_packet 5 77"
    by (simp add: packet_of_packet_bytes facts)
  have "struct_size (ntohs (PacketHeader.op_code (header (empty_packet 5 77)))) = None"
    by (simp add: struct_size_def op_defs empty_packet_def)
  with bad_packets_are_refused [OF demo_env_ok, of "packet_bytes (empty_packet 5 77)" 0 "''Unknown operation''"
      no_link "(Some demo_db, ())" "[]"]
  show ?thesis using facts by (auto simp: reread length_packet_bytes)
qed

text \<open>
  Creating an account that exists, or one too many, is misreported. \<open>account_create\<close> returns -2
  and -3 for these, while the server tests for -4 and -5, the codes of \<open>protocol.h\<close>; so the client is
  told "Failed to create account", with the status that means "account not found" or "insufficient
  funds". The database is unchanged.
\<close>

theorem create_errors_misreported:
  assumes "db_wf d" "valid_id s" "stack_ok env" "\<not> f64_lt b 0"
    and "db_abs d (string_of s) \<noteq> None \<or> MAX_ACCOUNTS \<le> card (dom (db_abs d))"
  shows "\<exists>out d'. process_request link env (Some d, peer) (client_packet rnd (Create s b)) = Ret ((Some d', peer), out)
    \<and> db_abs d' = db_abs d
    \<and> decode_reply out = Some (reply_with
        (if db_abs d (string_of s) \<noteq> None then STATUS_ACCOUNT_NOT_FOUND else STATUS_INSUFFICIENT_FUNDS)
        b (chars ''Failed to create account''))"
proof -
  have "valid_op (Create s b)" using assms(2) by simp
  from process_request_runs [OF assms(1) this assms(3), of link peer rnd]
  obtain d' r v out where run:
    "process_request link env (Some d, peer) (client_packet rnd (Create s b)) = Ret ((Some d', peer), out)"
    "decode_reply out = Some (bank_reply (Create s b) r v (balance_stack env))"
    "spec_step (db_abs d) (Create s b) = (db_abs d', r, v)" by blast
  then have "db_abs d' = db_abs d \<and> r = (if db_abs d (string_of s) \<noteq> None then -2 else -3)"
    using assms(4,5) by (auto split: if_splits)
  then show ?thesis using run(1,2) by (auto simp: bank_reply_def status_defs)
qed

theorem create_errors_misreported_witness:
  "\<exists>out d'. process_request no_link demo_env (Some demo_db, ()) (client_packet 1 (Create alice 0)) = Ret ((Some d', ()), out)
    \<and> db_abs d' = [chars ''alice'' \<mapsto> f64_of_nat 1000]
    \<and> decode_reply out = Some (reply_with STATUS_ACCOUNT_NOT_FOUND 0 (chars ''Failed to create account''))"
  using create_errors_misreported [OF demo_db_wf alice_valid(1) demo_env_ok, of 0 no_link "()" 1]
  by (auto simp: f64_of_nat_lt [of 0 0, simplified])

text \<open>
  An error response sends stack memory. When a deposit, withdrawal or query is refused, the
  response's balance is whatever the eight bytes of the uninitialised \<open>new_balance\<close> held.
\<close>

theorem error_responses_leak_the_stack:
  assumes "db_wf d" "valid_op x" "stack_ok env" "\<forall>s b. x \<noteq> Create s b"
    and "spec_step (db_abs d) x = (m, r, v)" "r \<noteq> 0"
  shows "\<exists>w out resp. process_request link env (Some d, peer) (client_packet rnd x) = Ret (w, out)
    \<and> decode_reply out = Some resp \<and> BankingResponse.status resp = word_of_int r
    \<and> BankingResponse.balance resp = balance_stack env"
proof -
  have "v = None" using spec_step_status [OF assms(5)] assms(6) by blast
  then have "reported x v j = j" for j using assms(4) by (cases x) auto
  then show ?thesis
    using process_request_runs [OF assms(1-3), of link peer rnd] assms(5) by (force simp: bank_reply_def reply_with_def)
qed

theorem error_responses_leak_the_stack_witness:
  "\<exists>w out resp. process_request no_link demo_env (Some init_db, ()) (client_packet 1 (Query alice)) = Ret (w, out)
    \<and> decode_reply out = Some resp \<and> BankingResponse.status resp = -2 \<and> BankingResponse.balance resp = 99"
  using error_responses_leak_the_stack [OF init_db_wf _ demo_env_ok, of "Query alice" Map.empty "-2" None no_link "()" 1]
  by (auto simp: demo_env_def)

text \<open>
  C33: a packet with no payload repeats a request. Its length is not checked against the struct, so it
  unpacks to what the stack held; when that is an earlier request's struct, the server carries that
  request out once more, as if the client had sent it again.
\<close>

theorem empty_payload_replays_the_stack:
  assumes "stack_ok env" "length (op_id x) = 20" "take (length (op_payload x)) (req_stack env) = op_payload x"
  shows "process_request link env w (empty_packet rnd (op_code_of x)) = process_request link env w (client_packet rnd' x)"
proof -
  have len: "length (op_payload x) \<le> length (req_stack env)"
    using op_payload_length(1) [OF assms(2)] assms(1) by (simp add: stack_ok_def)
  have "unpack_into env (empty_packet rnd (op_code_of x)) (length (op_payload x))
      = unpack_into env (client_packet rnd' x) (length (op_payload x))"
    using client_packet_facts(6) [OF assms(2,1)] empty_packet_unpack(1) [OF len] assms(3) by simp
  moreover have "ntohs (PacketHeader.op_code (header (empty_packet rnd op))) = op" for op
    by (simp add: empty_packet_def)
  moreover have "length (op_payload x) = (case x of Create s b \<Rightarrow> CREATE_SIZE | Deposit s a \<Rightarrow> DEPOSIT_SIZE
      | Withdraw s a \<Rightarrow> WITHDRAW_SIZE | Query s \<Rightarrow> BALANCE_SIZE)"
    using assms(2) op_payload_length(2-5) by (cases x) (simp_all del: op_payload.simps)
  ultimately have "dispatch link env w (empty_packet rnd (op_code_of x)) = dispatch link env w (client_packet rnd' x)"
    using client_packet_facts(4) [OF assms(2,1), of rnd']
    by (cases x) (simp_all add: dispatch_def do_create_def do_deposit_def do_withdraw_def do_balance_def op_defs
        del: op_payload.simps)
  then show ?thesis by (simp add: process_request_def)
qed

theorem empty_payload_replays_the_stack_witness:
  "process_request no_link (demo_env\<lparr>req_stack := alice @ replicate 10 0\<rparr>) (Some demo_db, ()) (empty_packet 1 OP_BALANCE)
    = process_request no_link (demo_env\<lparr>req_stack := alice @ replicate 10 0\<rparr>) (Some demo_db, ()) (client_packet 2 (Query alice))"
  using empty_payload_replays_the_stack [of "demo_env\<lparr>req_stack := alice @ replicate 10 0\<rparr>" "Query alice" no_link
      "(Some demo_db, ())" 1 2]
  by (simp add: balance_bytes_def stack_ok_def demo_env_def IPC_RESPONSE_SIZE_def)

end
