(* ===== verification/Two_Servers.thy ===== *)
theory Two_Servers
  imports Banking_Server
begin

text \<open>
  The banking server and the one-time password server together: the peer at the end of
  \<open>call_otp_service\<close> (server/banking_server.c) is \<open>handle_client\<close> (otp_server/otp_server.c), and the
  packets of the password protocol run through both.

  Lemmas: \<open>otp_peer_call\<close> runs one exchange between the servers; \<open>otp_request_runs\<close> and \<open>login_runs\<close>
  give the answer of the banking server to an \<open>OP_REQ_OTP\<close> and an \<open>OP_LOGIN\<close> packet in terms of the slots
  of the password server. The properties are the login end to end and the check of a code.
\<close>

section \<open>The two servers together\<close>

text \<open>
  The peer of the banking server's OTP socket is the one-time password server: one connection is one
  call of \<open>handle_client\<close>, at a time \<open>t\<close> and with a \<open>rand ()\<close> of the environment; a server that faults
  drops the connection.
\<close>

definition otp_peer :: "nat \<Rightarrow> int \<Rightarrow> byte list \<Rightarrow> OtpEntry list OtpLink" where
  "otp_peer rnd t stk = \<lparr>sock_ok = True, connect_ok = True,
     exchange = \<lambda>db bs. case handle_client \<lparr>rand_value = rnd, now = t, stack = stk,
         input = Some (take IPC_REQUEST_SIZE bs)\<rparr> db of
       Ret (db', r) \<Rightarrow> (db', map_option ipc_response_bytes r)
     | Fault e \<Rightarrow> (db, None)\<rparr>"

lemma otp_peer_up [simp]: "sock_ok (otp_peer rnd t stk)" "connect_ok (otp_peer rnd t stk)"
  by (simp_all add: otp_peer_def)

text \<open>
  A link whose peer, at state \<open>p\<close>, answers as the password server with table \<open>db\<close> does, for this draw, time
  and stack; \<open>put\<close> is where the new table goes. \<open>otp_peer\<close> is one; another is \<open>otp_feed\<close>, whose peer counts
  the calls and takes the draw, the time and the stack of each from a sequence.
\<close>

definition answers :: "'o OtpLink \<Rightarrow> 'o \<Rightarrow> (OtpEntry list \<Rightarrow> 'o) \<Rightarrow> nat \<Rightarrow> int \<Rightarrow> byte list \<Rightarrow> OtpEntry list \<Rightarrow> bool" where
  "answers link p put rnd t stk db \<longleftrightarrow> sock_ok link \<and> connect_ok link
     \<and> (\<forall>bs. exchange link p bs = (put (fst (exchange (otp_peer rnd t stk) db bs)), snd (exchange (otp_peer rnd t stk) db bs)))"

definition otp_feed :: "(nat \<Rightarrow> nat \<times> int \<times> byte list) \<Rightarrow> (OtpEntry list \<times> nat) OtpLink" where
  "otp_feed draws = \<lparr>sock_ok = True, connect_ok = True,
     exchange = \<lambda>(db, k) bs. case draws k of (rnd, t, stk) \<Rightarrow>
       (case exchange (otp_peer rnd t stk) db bs of (db', r) \<Rightarrow> ((db', Suc k), r))\<rparr>"

lemma answers_peer: "answers (otp_peer rnd t stk) db (\<lambda>d. d) rnd t stk db"
  by (simp add: answers_def)

lemma answers_feed: "draws k = (rnd, t, stk) \<Longrightarrow> answers (otp_feed draws) (db, k) (\<lambda>d. (d, Suc k)) rnd t stk db"
  by (simp add: answers_def otp_feed_def split_def)

text \<open>What arrives at the OTP server for an account name and a code of the bank's client.\<close>

lemma padded_name: "valid_id s \<Longrightarrow> c_strncpy (replicate 32 0) s (32 - 1) = Ret (zero_pad 32 (string_of s))"
  "valid_id s \<Longrightarrow> sized stk (zero_pad 32 (string_of s)) c \<longleftrightarrow> length stk = IPC_REQUEST_SIZE \<and> length c = 8"
  using c_strncpy_zeros [of s 32] string_of_shorter [of s]
  by (auto simp: valid_id_def ACCOUNT_ID_LEN_def sized_def)

lemma otp_peer_call:
  assumes link: "answers link p put rnd t stk db"
    and "valid_id s" "length c = 8" "length stk = IPC_REQUEST_SIZE" "length stk' = IPC_RESPONSE_SIZE"
    and "otp_in = None \<and> c = replicate 8 0 \<or> otp_in = Some code \<and> terminated code \<and> c = zero_pad 8 (take 7 (string_of code))"
    and "handle_client (otp_call rnd t stk op (zero_pad 32 (string_of s)) c) db = Ret (db', Some r)"
    and "length (OtpIpcResponse.otp_code r) = 8" "length (OtpIpcResponse.message r) = 64"
  shows "call_otp_service link stk' p op s otp_in otp_out =
    (if OtpIpcResponse.status r = 1 then
       (case otp_out of None \<Rightarrow> Ret (put db', None, 1)
        | Some out \<Rightarrow> bind_run (c_strncpy out (OtpIpcResponse.otp_code r) 8) (\<lambda>out'. Ret (put db', Some out', 1)))
     else Ret (put db', otp_out, 0))"
proof -
  let ?req = "\<lparr>OtpIpcRequest.op_code = op, OtpIpcRequest.account = zero_pad 32 (string_of s), OtpIpcRequest.otp_code = c\<rparr>"
  have "length (zero_pad 32 (string_of s)) = 32"
    using assms(2) string_of_shorter [of s] by (simp add: valid_id_def ACCOUNT_ID_LEN_def)
  then have "length (ipc_request_bytes ?req) = IPC_REQUEST_SIZE"
    using assms(3) by (intro ipc_request.length_enc) simp
  then have exch: "exchange link p (ipc_request_bytes ?req) = (put db', Some (ipc_response_bytes r))"
    using assms(7) link by (simp add: answers_def otp_peer_def otp_call_def)
  have len: "length (ipc_response_bytes r) = IPC_RESPONSE_SIZE"
    using assms(8,9) by (intro ipc_response.length_enc) simp
  then have ne: "ipc_response_bytes r \<noteq> []" by (auto simp: IPC_RESPONSE_SIZE_def)
  have dec: "ipc_response_of_bytes (put_bytes stk' (take IPC_RESPONSE_SIZE (ipc_response_bytes r))) = r"
    using len assms(5,8,9) ipc_response.dec_enc [of r] by simp
  have "(case otp_in of None \<Rightarrow> Ret (replicate 8 0) | Some i \<Rightarrow> c_strncpy (replicate 8 0) i (8 - 1)) = Ret c"
    using assms(6) c_strncpy_zeros [of code 8] by auto
  then show ?thesis
    using padded_name(1) [OF assms(2)] exch ne dec link
    by (simp add: answers_def call_otp_service_def Let_def split: option.split)
qed

text \<open>The answers to the two packets of the password protocol.\<close>

definition otp_packet :: "u32 \<Rightarrow> byte list \<Rightarrow> BankingPacket" where
  "otp_packet rnd s = packed rnd OP_REQ_OTP (otp_request_bytes \<lparr>OtpRequest.account_id = s\<rparr>)"

definition login_packet :: "u32 \<Rightarrow> byte list \<Rightarrow> byte list \<Rightarrow> BankingPacket" where
  "login_packet rnd s code = packed rnd OP_LOGIN (login_bytes \<lparr>LoginRequest.account_id = s, otp = code\<rparr>)"

lemma process_reply:
  assumes "dispatch link env w p = Ret (w', reply_with r b text)"
  shows "\<exists>out. process_request link env w p = Ret (w', out) \<and> decode_reply out = Some (reply_with r b text)"
  using assms send_response_runs [of "reply_with r b text" env] by (auto simp: process_request_def)

lemma login_dispatched:
  assumes "otp_wf db" "valid_id s" "length code = 10" "terminated code" "stack_ok env" "length stk = IPC_REQUEST_SIZE"
    and link: "answers link p put rnd t stk db"
  shows "\<exists>db' resp. dispatch link env (accs, p) (login_packet r s code) = Ret ((accs, put db'), resp) \<and> otp_wf db'
    \<and> (case slot_redeem (otp_abs db) (string_of s) (take 7 (string_of code)) of
         None \<Rightarrow> db' = db \<and> resp = reply_with (-1) 0 (chars ''Invalid OTP'')
       | Some xs \<Rightarrow> otp_abs db' = xs \<and> resp = reply_with 0 0 (chars ''Login Successful''))"
proof -
  let ?c = "zero_pad 8 (take 7 (string_of code))"
  have c: "length ?c = 8" "string_of ?c = take 7 (string_of code)"
    by (simp_all, intro string_of_zero_pad, metis in_set_takeD string_of_no_nul)
  have req: "length s = 20" "login_of_bytes (login_bytes \<lparr>LoginRequest.account_id = s, otp = code\<rparr>)
      = \<lparr>LoginRequest.account_id = s, otp = code\<rparr>"
    using assms(2,3) by (simp_all add: login_struct.dec_enc valid_id_def ACCOUNT_ID_LEN_def)
  have len: "length (login_bytes \<lparr>LoginRequest.account_id = s, otp = code\<rparr>) = LOGIN_SIZE"
    using req(1) assms(3) by (intro login_struct.length_enc) simp
  then have "length (login_bytes \<lparr>LoginRequest.account_id = s, otp = code\<rparr>) \<le> 30" by (simp add: LOGIN_SIZE_def)
  note facts = packed_facts [OF this assms(5), of r OP_LOGIN, folded login_packet_def, unfolded len]
  obtain db' res where call:
    "handle_client (otp_call rnd t stk OTP_OP_VERIFY (zero_pad 32 (string_of s)) ?c) db = Ret (db', Some res)" "otp_wf db'"
    "case slot_redeem (otp_abs db) (string_of s) (take 7 (string_of code)) of
       None \<Rightarrow> db' = db \<and> res = otp_reply 0 [] ''Invalid OTP''
     | Some xs' \<Rightarrow> otp_abs db' = xs' \<and> res = otp_reply 1 [] ''Verified''"
    using otp_verify_call [OF assms(1), of stk "zero_pad 32 (string_of s)" ?c rnd t] padded_name(2) [OF assms(2)] assms(6) c
    by (auto simp del: string_of_zero_pad) (metis string_of_no_nul string_of_zero_pad)
  have "length (OtpIpcResponse.otp_code res) = 8 \<and> length (OtpIpcResponse.message res) = 64"
    using call(3) by (auto simp: otp_reply_def split: option.splits)
  then have "verify_otp_remote link (res_stack env) p s code =
      Ret (put db', None, if OtpIpcResponse.status res = 1 then 1 else 0)"
    unfolding verify_otp_remote_def using assms(4,5)
    by (subst otp_peer_call [OF link assms(2) c(1) assms(6) _ _ call(1), where code = code]) (simp_all add: stack_ok_def)
  then have "dispatch link env (accs, p) (login_packet r s code) = Ret ((accs, put db'),
      if OtpIpcResponse.status res = 1 then reply_with 0 0 (chars ''Login Successful'') else reply_with (-1) 0 (chars ''Invalid OTP''))"
    using facts by (simp add: dispatch_def do_login_def op_defs req reply_simps status_defs)
  then show ?thesis using call(2,3)
    by (cases "OtpIpcResponse.status res = 1") (fastforce simp: otp_reply_def split: option.splits)+
qed

lemma otp_request_dispatched:
  assumes "otp_wf db" "valid_id s" "stack_ok env" "length stk = IPC_REQUEST_SIZE"
    and link: "answers link p put rnd t stk db"
  shows "\<exists>db' resp. dispatch link env (accs, p) (otp_packet r s) = Ret ((accs, put db'), resp) \<and> otp_wf db'
    \<and> (case slot_issue (otp_abs db) (string_of s) (otp_digits rnd) of
         None \<Rightarrow> otp_abs db' = otp_abs db \<and> resp = reply_with (-1) 0 (chars ''OTP Generation Failed'')
       | Some xs \<Rightarrow> otp_abs db' = xs \<and> resp = reply_with 0 0 (chars ''OTP Generated: '' @ otp_digits rnd))"
proof -
  let ?c = "replicate 8 (0 :: byte)" and ?bs = "otp_request_bytes \<lparr>OtpRequest.account_id = s\<rparr>"
  have req: "length s = 20" "otp_request_of_bytes ?bs = \<lparr>OtpRequest.account_id = s\<rparr>"
    using assms(2) by (simp_all add: otp_request_struct.dec_enc valid_id_def ACCOUNT_ID_LEN_def)
  have len: "length ?bs = OTP_REQUEST_SIZE" using req(1) by (intro otp_request_struct.length_enc) simp
  then have "length ?bs \<le> 30" by (simp add: OTP_REQUEST_SIZE_def)
  note facts = packed_facts [OF this assms(3), of r OP_REQ_OTP, folded otp_packet_def, unfolded len]
  have ok: "sized stk (zero_pad 32 (string_of s)) ?c" using padded_name(2) [OF assms(2)] assms(4) by simp
  obtain db' a where call:
    "handle_client (otp_call rnd t stk OTP_OP_GENERATE (zero_pad 32 (string_of s)) ?c) db = Ret (db', a)" "otp_wf db'"
    "otp_spec (otp_abs db) (otp_call rnd t stk OTP_OP_GENERATE (zero_pad 32 (string_of s)) ?c) = (otp_abs db', a)"
    using otp_call_runs [OF assms(1) ok, of rnd t OTP_OP_GENERATE] by blast
  define issued where "issued = slot_issue (otp_abs db) (string_of s) (otp_digits rnd)"
  define res where "res = (if issued = None then otp_reply 0 [] ''Server Busy'' else otp_reply 1 (otp_digits rnd) ''OTP Generated'')"
  have a: "a = Some res" "otp_abs db' = (case issued of None \<Rightarrow> otp_abs db | Some xs \<Rightarrow> xs)"
    using call(3) by (auto simp: otp_call_facts(3) [OF ok] issued_def res_def split: option.splits)
  have shape: "length (OtpIpcResponse.otp_code res) = 8" "length (OtpIpcResponse.message res) = 64"
    by (auto simp: res_def otp_reply_def)
  note peer = otp_peer_call [OF link assms(2) _ assms(4) _ _ call(1) [unfolded a] shape, where otp_in = None]
  have "c_strncpy (replicate 10 0) (zero_pad 8 (otp_digits rnd)) 8 = Ret (zero_pad 10 (otp_digits rnd))"
    by (simp add: c_strncpy_def strncpy_image_terminated c_write_def put_bytes_def)
       (simp add: zero_pad_def flip: replicate_add)
  then have "request_otp_generation link (res_stack env) p s (replicate 10 0) =
      Ret (put db', Some (if issued = None then replicate 10 0 else zero_pad 10 (otp_digits rnd)), if issued = None then 0 else 1)"
    unfolding request_otp_generation_def using assms(3)
    by (subst peer) (simp_all add: stack_ok_def res_def otp_reply_def)
  then have "dispatch link env (accs, p) (otp_packet r s) = Ret ((accs, put db'),
      if issued = None then reply_with (-1) 0 (chars ''OTP Generation Failed'')
      else reply_with 0 0 (chars ''OTP Generated: '' @ otp_digits rnd))"
    using facts by (simp add: dispatch_def do_req_otp_def op_defs req reply_simps status_defs chars_def)
  then show ?thesis using call(2) a(2) unfolding issued_def [symmetric]
    by (cases issued) fastforce+
qed

text \<open>The same with the response as the client reads it.\<close>

lemma login_runs:
  assumes "otp_wf db" "valid_id s" "length code = 10" "terminated code" "stack_ok env" "length stk = IPC_REQUEST_SIZE"
  shows "\<exists>db' out. process_request (otp_peer rnd t stk) env (accs, db) (login_packet r s code) = Ret ((accs, db'), out)
    \<and> otp_wf db'
    \<and> (case slot_redeem (otp_abs db) (string_of s) (take 7 (string_of code)) of
         None \<Rightarrow> db' = db \<and> decode_reply out = Some (reply_with (-1) 0 (chars ''Invalid OTP''))
       | Some xs \<Rightarrow> otp_abs db' = xs \<and> decode_reply out = Some (reply_with 0 0 (chars ''Login Successful'')))"
  using login_dispatched [OF assms answers_peer, of rnd t accs r] process_reply
  by (fastforce split: option.splits)

lemma otp_request_runs:
  assumes "otp_wf db" "valid_id s" "stack_ok env" "length stk = IPC_REQUEST_SIZE"
  shows "\<exists>db' out. process_request (otp_peer rnd t stk) env (accs, db) (otp_packet r s) = Ret ((accs, db'), out)
    \<and> otp_wf db'
    \<and> (case slot_issue (otp_abs db) (string_of s) (otp_digits rnd) of
         None \<Rightarrow> otp_abs db' = otp_abs db \<and> decode_reply out = Some (reply_with (-1) 0 (chars ''OTP Generation Failed''))
       | Some xs \<Rightarrow> otp_abs db' = xs \<and> decode_reply out = Some (reply_with 0 0 (chars ''OTP Generated: '' @ otp_digits rnd)))"
  using otp_request_dispatched [OF assms answers_peer, of rnd t accs r] process_reply
  by (fastforce split: option.splits)

section \<open>Properties\<close>

lemma issue_fails_iff:
  "slot_issue xs s c = None \<longleftrightarrow> None \<notin> set xs \<and> s \<notin> set (live_names xs)"
  by (induction xs rule: live_names.induct) auto



text \<open>
  C17: a login is granted exactly for the live code. The answer to a login packet is "Login Successful"
  when the first live slot of the account holds the code it carries (the first seven characters count),
  which frees that slot, and "Invalid OTP" with an unchanged table otherwise. The request the banking
  server builds for the password server is always one that it handles in bounds.
\<close>

theorem login_checks_the_live_code:
  assumes "otp_wf db" "valid_id s" "length code = 10" "terminated code" "stack_ok env" "length stk = IPC_REQUEST_SIZE"
  shows "\<exists>db' out. process_request (otp_peer rnd t stk) env (accs, db) (login_packet r s code) = Ret ((accs, db'), out)
    \<and> otp_wf db'
    \<and> (case slot_redeem (otp_abs db) (string_of s) (take 7 (string_of code)) of
         None \<Rightarrow> db' = db \<and> decode_reply out = Some (reply_with (-1) 0 (chars ''Invalid OTP''))
       | Some xs \<Rightarrow> otp_abs db' = xs \<and> decode_reply out = Some (reply_with 0 0 (chars ''Login Successful'')))"
  by (rule login_runs [OF assms])

theorem login_checks_the_live_code_witness:
  "\<exists>db' out. process_request (otp_peer 0 999 (replicate 44 0)) demo_env (Some demo_db, demo_otp_db)
      (login_packet 1 alice (zero_pad 10 (chars ''123456''))) = Ret ((Some demo_db, db'), out)
    \<and> decode_reply out = Some (reply_with 0 0 (chars ''Login Successful''))"
proof -
  have "0 \<notin> set (chars ''123456'')" by (simp add: chars_def)
  then have code: "string_of (zero_pad 10 (chars ''123456'')) = chars ''123456''" by simp
  show ?thesis
    using login_checks_the_live_code [OF demo_otp_db(1) alice_valid(1) _ _ demo_env_ok, of "zero_pad 10 (chars ''123456'')"
        "replicate 44 0" 0 999 "Some demo_db" 1]
    by (auto simp: code IPC_REQUEST_SIZE_def)
qed

end
