(* ===== verification/Tls_Wrapper.thy ===== *)
theory Tls_Wrapper
  imports C_Memory
begin

text \<open>
  The TLS wrapper, \<open>common/include/tls_wrapper.h\<close> and \<open>common/src/tls_wrapper.c\<close>, and what a process
  holds of the system: sockets, OpenSSL contexts and connections.

  What a function does to the system is the list of the \<open>call\<close>s it makes, in order. \<open>live R cs\<close> is
  what is held after the calls \<open>cs\<close> when \<open>R\<close> was held before; it is \<open>None\<close> as soon as a call uses or
  releases something that is not held (a use after free, a double free, a descriptor closed twice).
  OpenSSL is a parameter: the record \<open>Openssl\<close> says what each of its functions returns. The code relies
  on one thing of it, that a new object is none of those still held, and this is a hypothesis where it
  is used.

  Lemmas: \<open>live_append\<close> runs a concatenation of calls; one lemma per function says what it leaves held.
\<close>

section \<open>Calls into the system\<close>

datatype resource = Fd int | Ctx nat | Ssl nat

datatype call =
    Acquire resource
  | Release resource
  | Load_file nat "string option" int   \<comment> \<open>a certificate or key put into a context, and the result\<close>
  | Verify nat nat                      \<comment> \<open>\<open>SSL_CTX_set_verify\<close>\<close>
  | Attach_fd nat int                   \<comment> \<open>\<open>SSL_set_fd\<close>\<close>
  | Server_name nat string              \<comment> \<open>\<open>SSL_set_tlsext_host_name\<close>\<close>
  | Handshake nat int                   \<comment> \<open>\<open>SSL_accept\<close>, \<open>SSL_connect\<close>, and the result\<close>
  | Shutdown_ssl nat

text \<open>What a call needs to be held.\<close>

fun needs :: "call \<Rightarrow> resource set" where
  "needs (Acquire x) = {}"
| "needs (Release x) = {x}"
| "needs (Load_file c p r) = {Ctx c}"
| "needs (Verify c m) = {Ctx c}"
| "needs (Attach_fd s fd) = {Ssl s, Fd fd}"
| "needs (Server_name s n) = {Ssl s}"
| "needs (Handshake s r) = {Ssl s}"
| "needs (Shutdown_ssl s) = {Ssl s}"

fun effect :: "call \<Rightarrow> resource set \<Rightarrow> resource set" where
  "effect (Acquire x) R = insert x R"
| "effect (Release x) R = R - {x}"
| "effect _ R = R"

fun live :: "resource set \<Rightarrow> call list \<Rightarrow> resource set option" where
  "live R [] = Some R"
| "live R (c # cs) = (if needs c \<subseteq> R then live (effect c R) cs else None)"

lemma live_append: "live R (cs @ ds) = (case live R cs of None \<Rightarrow> None | Some S \<Rightarrow> live S ds)"
  by (induction cs arbitrary: R) auto

lemma live_append_Some [simp]: "live R cs = Some S \<Longrightarrow> live R (cs @ ds) = live S ds"
  by (simp add: live_append)

text \<open>\<open>close (fd)\<close>: with a negative descriptor it only fails.\<close>

definition close_fd :: "int \<Rightarrow> call list" where
  "close_fd fd = (if fd < 0 then [] else [Release (Fd fd)])"

section \<open>The wrapper\<close>

record TLSConfig =
  ca_cert_path :: "string option"
  server_cert_path :: "string option"
  server_key_path :: "string option"
  client_cert_path :: "string option"
  client_key_path :: "string option"
  verify_peer :: int

definition DEFAULT_CA_CERT :: string where "DEFAULT_CA_CERT = ''certificate/ca.crt''"
definition DEFAULT_SERVER_CERT :: string where "DEFAULT_SERVER_CERT = ''certificate/server_wildcard.crt''"
definition DEFAULT_SERVER_KEY :: string where "DEFAULT_SERVER_KEY = ''certificate/server_wildcard.key''"
definition DEFAULT_CLIENT_CERT :: string where "DEFAULT_CLIENT_CERT = ''certificate/client.crt''"
definition DEFAULT_CLIENT_KEY :: string where "DEFAULT_CLIENT_KEY = ''certificate/client.key''"

text \<open>The flags of \<open>SSL_CTX_set_verify\<close>.\<close>

definition SSL_VERIFY_NONE :: nat where "SSL_VERIFY_NONE = 0"
definition SSL_VERIFY_PEER :: nat where "SSL_VERIFY_PEER = 1"
definition SSL_VERIFY_FAIL_IF_NO_PEER_CERT :: nat where "SSL_VERIFY_FAIL_IF_NO_PEER_CERT = 2"

record Openssl =
  ctx_new :: "nat option"
  load_ca :: "string option \<Rightarrow> int"
  use_cert :: "string option \<Rightarrow> int"
  use_key :: "string option \<Rightarrow> int"
  ssl_new :: "nat option"
  accept_result :: int
  connect_result :: int

definition tls_create_server_context :: "Openssl \<Rightarrow> TLSConfig \<Rightarrow> call list \<times> nat option" where
  "tls_create_server_context lib config = (case ctx_new lib of None \<Rightarrow> ([], None)
   | Some ctx \<Rightarrow>
       let cert = use_cert lib (server_cert_path config); key = use_key lib (server_key_path config);
         ca = load_ca lib (ca_cert_path config);
         with_cert = [Acquire (Ctx ctx), Load_file ctx (server_cert_path config) cert];
         with_key = with_cert @ [Load_file ctx (server_key_path config) key];
         with_ca = with_key @ [Load_file ctx (ca_cert_path config) ca] in
       if cert \<le> 0 then (with_cert @ [Release (Ctx ctx)], None)
       else if key \<le> 0 then (with_key @ [Release (Ctx ctx)], None)
       else if ca \<le> 0 then (with_ca @ [Release (Ctx ctx)], None)
       else if verify_peer config \<noteq> 0 then
         (with_ca @ [Verify ctx (or SSL_VERIFY_PEER SSL_VERIFY_FAIL_IF_NO_PEER_CERT)], Some ctx)
       else (with_ca @ [Verify ctx SSL_VERIFY_NONE], Some ctx))"

text \<open>The client's own certificate is optional: the results of loading it are not looked at further.\<close>

definition client_identity :: "Openssl \<Rightarrow> TLSConfig \<Rightarrow> nat \<Rightarrow> call list" where
  "client_identity lib config ctx =
     (if client_cert_path config \<noteq> None \<and> client_key_path config \<noteq> None then
        let cert = use_cert lib (client_cert_path config) in
        Load_file ctx (client_cert_path config) cert #
          (if 0 < cert then [Load_file ctx (client_key_path config) (use_key lib (client_key_path config))] else [])
      else [])"

definition tls_create_client_context :: "Openssl \<Rightarrow> TLSConfig \<Rightarrow> call list \<times> nat option" where
  "tls_create_client_context lib config = (case ctx_new lib of None \<Rightarrow> ([], None)
   | Some ctx \<Rightarrow>
       let ca = load_ca lib (ca_cert_path config);
         with_ca = [Acquire (Ctx ctx), Load_file ctx (ca_cert_path config) ca] in
       if ca \<le> 0 then (with_ca @ [Release (Ctx ctx)], None)
       else (with_ca @ client_identity lib config ctx @
         [Verify ctx (if verify_peer config \<noteq> 0 then SSL_VERIFY_PEER else SSL_VERIFY_NONE)], Some ctx))"

definition tls_accept_connection :: "Openssl \<Rightarrow> int \<Rightarrow> call list \<times> nat option" where
  "tls_accept_connection lib client_fd = (case ssl_new lib of None \<Rightarrow> ([], None)
   | Some ssl \<Rightarrow>
       let calls = [Acquire (Ssl ssl), Attach_fd ssl client_fd, Handshake ssl (accept_result lib)] in
       if accept_result lib \<le> 0 then (calls @ [Release (Ssl ssl)], None) else (calls, Some ssl))"

definition tls_connect :: "Openssl \<Rightarrow> int \<Rightarrow> string option \<Rightarrow> call list \<times> nat option" where
  "tls_connect lib sock_fd hostname = (case ssl_new lib of None \<Rightarrow> ([], None)
   | Some ssl \<Rightarrow>
       let calls = [Acquire (Ssl ssl), Attach_fd ssl sock_fd]
             @ (case hostname of None \<Rightarrow> [] | Some h \<Rightarrow> [Server_name ssl h])
             @ [Handshake ssl (connect_result lib)] in
       if connect_result lib \<le> 0 then (calls @ [Release (Ssl ssl)], None) else (calls, Some ssl))"

definition tls_close :: "nat option \<Rightarrow> call list" where
  "tls_close s = (case s of None \<Rightarrow> [] | Some ssl \<Rightarrow> [Shutdown_ssl ssl, Release (Ssl ssl)])"

definition tls_cleanup_context :: "nat option \<Rightarrow> call list" where
  "tls_cleanup_context c = (case c of None \<Rightarrow> [] | Some ctx \<Rightarrow> [Release (Ctx ctx)])"

text \<open>
  An established connection carries bytes. OpenSSL and the peer at its other end are one record: what
  \<open>SSL_write\<close> returns and \<open>SSL_read\<close> delivers (\<open>None\<close> for a result that is not positive) in a state \<open>'s\<close>
  of the peer and of what is on its way.
\<close>

record 's Conn =
  ssl_write :: "'s \<Rightarrow> byte list \<Rightarrow> 's \<times> int"
  ssl_read :: "'s \<Rightarrow> nat \<Rightarrow> 's \<times> byte list option"

definition tls_read :: "'s Conn \<Rightarrow> 's \<Rightarrow> nat \<Rightarrow> 's \<times> byte list option" where
  "tls_read conn s len = ssl_read conn s len"

definition tls_write :: "'s Conn \<Rightarrow> 's \<Rightarrow> byte list \<Rightarrow> 's \<times> int" where
  "tls_write conn s buf = ssl_write conn s buf"

section \<open>What each function leaves held\<close>

fun opt_res :: "(nat \<Rightarrow> resource) \<Rightarrow> nat option \<Rightarrow> resource set" where
  "opt_res k None = {}" | "opt_res k (Some h) = {k h}"

definition fresh_ctx :: "Openssl \<Rightarrow> resource set \<Rightarrow> bool" where
  "fresh_ctx lib R \<longleftrightarrow> opt_res Ctx (ctx_new lib) \<inter> R = {}"

definition fresh_ssl :: "Openssl \<Rightarrow> resource set \<Rightarrow> bool" where
  "fresh_ssl lib R \<longleftrightarrow> opt_res Ssl (ssl_new lib) \<inter> R = {}"

lemma live_client_identity [simp]: "Ctx c \<in> R \<Longrightarrow> live R (client_identity lib config c @ cs) = live R cs"
  by (simp add: client_identity_def Let_def)

lemma live_server_context:
  "fresh_ctx lib R \<Longrightarrow> live R (fst (tls_create_server_context lib config))
    = Some (opt_res Ctx (snd (tls_create_server_context lib config)) \<union> R)"
  by (cases "ctx_new lib") (auto simp: tls_create_server_context_def fresh_ctx_def Let_def)

lemma live_client_context:
  "fresh_ctx lib R \<Longrightarrow> live R (fst (tls_create_client_context lib config))
    = Some (opt_res Ctx (snd (tls_create_client_context lib config)) \<union> R)"
  by (cases "ctx_new lib") (auto simp: tls_create_client_context_def fresh_ctx_def Let_def)

lemma live_accept:
  "fresh_ssl lib R \<Longrightarrow> Fd fd \<in> R \<Longrightarrow> live R (fst (tls_accept_connection lib fd))
    = Some (opt_res Ssl (snd (tls_accept_connection lib fd)) \<union> R)"
  by (cases "ssl_new lib") (auto simp: tls_accept_connection_def fresh_ssl_def Let_def)

lemma live_connect:
  "fresh_ssl lib R \<Longrightarrow> Fd fd \<in> R \<Longrightarrow> live R (fst (tls_connect lib fd h))
    = Some (opt_res Ssl (snd (tls_connect lib fd h)) \<union> R)"
  by (cases "ssl_new lib"; cases h) (auto simp: tls_connect_def fresh_ssl_def Let_def)

lemma made_new:
  "snd (tls_create_server_context lib config) \<in> {None, ctx_new lib}"
  "snd (tls_create_client_context lib config) \<in> {None, ctx_new lib}"
  "snd (tls_accept_connection lib fd) \<in> {None, ssl_new lib}" "snd (tls_connect lib fd h) \<in> {None, ssl_new lib}"
  by (auto simp: tls_create_server_context_def tls_create_client_context_def tls_accept_connection_def
      tls_connect_def Let_def split: option.split)

lemma live_close: "opt_res Ssl s \<subseteq> R \<Longrightarrow> live R (tls_close s) = Some (R - opt_res Ssl s)"
  by (cases s) (auto simp: tls_close_def)

lemma live_cleanup: "opt_res Ctx c \<subseteq> R \<Longrightarrow> live R (tls_cleanup_context c) = Some (R - opt_res Ctx c)"
  by (cases c) (auto simp: tls_cleanup_context_def)

lemma live_close_fd: "0 \<le> fd \<longrightarrow> Fd fd \<in> R \<Longrightarrow> live R (close_fd fd) = Some (if fd < 0 then R else R - {Fd fd})"
  by (auto simp: close_fd_def)

text \<open>
  Who must show a certificate. The context the server gets makes every client present a
  certificate when \<open>verify_peer\<close> is set and asks for none otherwise; it is only returned with the
  server's own certificate, key and CA loaded. The client's context checks the server exactly when
  \<open>verify_peer\<close> is set, and is returned whether or not its own certificate could be loaded.
\<close>

lemma verification_modes:
  "tls_create_server_context lib config = (cs, Some c) \<Longrightarrow>
     last cs = Verify c (if verify_peer config \<noteq> 0 then 3 else 0)
     \<and> 0 < use_cert lib (server_cert_path config) \<and> 0 < use_key lib (server_key_path config)
     \<and> 0 < load_ca lib (ca_cert_path config)"
  "ctx_new lib = Some c \<Longrightarrow> 0 < load_ca lib (ca_cert_path config) \<Longrightarrow>
     \<exists>cs. tls_create_client_context lib config = (cs, Some c)
       \<and> last cs = Verify c (if verify_peer config \<noteq> 0 then 1 else 0)"
  by (auto simp: tls_create_server_context_def tls_create_client_context_def Let_def SSL_VERIFY_NONE_def
      SSL_VERIFY_PEER_def SSL_VERIFY_FAIL_IF_NO_PEER_CERT_def split: option.splits if_splits)

section \<open>Properties\<close>

text \<open>
  C20: handles are what they are typed. Given that OpenSSL hands out new objects, each of the four
  functions that make a context or a connection returns a handle of its kind that is held afterwards,
  in addition to what was held before, or null with nothing more held than before, whichever of the
  files or handshakes failed, and uses no handle that is not held. Closing the connection and freeing
  the context gives back exactly what was held at the start, and null is accepted by both.
\<close>

theorem tls_handles_accounted:
  assumes "fresh_ctx lib R" "fresh_ssl lib R" "Fd fd \<in> R"
    and "mk \<in> {tls_create_server_context lib config, tls_create_client_context lib config}"
    and "lk \<in> {tls_accept_connection lib fd, tls_connect lib fd hostname}"
  shows "live R (fst mk) = Some (opt_res Ctx (snd mk) \<union> R)
    \<and> live R (fst lk) = Some (opt_res Ssl (snd lk) \<union> R)
    \<and> live R (fst mk @ fst lk @ tls_close (snd lk) @ tls_cleanup_context (snd mk)) = Some R"
proof -
  have mk: "live R (fst mk) = Some (opt_res Ctx (snd mk) \<union> R)"
    using assms(4) live_server_context [OF assms(1)] live_client_context [OF assms(1)] by (elim insertE) simp_all
  have new: "opt_res Ctx (snd mk) \<inter> R = {}" "opt_res Ssl (snd lk) \<inter> R = {}"
  proof -
    have "snd mk \<in> {None, ctx_new lib}" using assms(4) made_new(1,2) [of lib config] by (elim insertE) simp_all
    then show "opt_res Ctx (snd mk) \<inter> R = {}" using assms(1) by (elim insertE) (simp_all add: fresh_ctx_def)
    have "snd lk \<in> {None, ssl_new lib}"
      using assms(5) made_new(3) [of lib fd] made_new(4) [of lib fd hostname] by (elim insertE) simp_all
    then show "opt_res Ssl (snd lk) \<inter> R = {}" using assms(2) by (elim insertE) (simp_all add: fresh_ssl_def)
  qed
  have lk: "live S (fst lk) = Some (opt_res Ssl (snd lk) \<union> S)" if "fresh_ssl lib S" "Fd fd \<in> S" for S
    using assms(5) live_accept [OF that] live_connect [OF that] by (elim insertE) simp_all
  have "fresh_ssl lib (opt_res Ctx (snd mk) \<union> R)"
    using assms(2) by (cases "snd mk"; cases "ssl_new lib") (auto simp: fresh_ssl_def)
  then have "live (opt_res Ctx (snd mk) \<union> R) (fst lk) = Some (opt_res Ssl (snd lk) \<union> (opt_res Ctx (snd mk) \<union> R))"
    using assms(3) by (intro lk) simp_all
  moreover have "opt_res Ssl (snd lk) \<union> (opt_res Ctx (snd mk) \<union> R) - opt_res Ssl (snd lk) - opt_res Ctx (snd mk) = R"
    using new by (cases "snd lk"; cases "snd mk") auto
  moreover have "opt_res Ctx (snd mk) \<subseteq> opt_res Ssl (snd lk) \<union> (opt_res Ctx (snd mk) \<union> R) - opt_res Ssl (snd lk)"
    by (cases "snd lk"; cases "snd mk") auto
  ultimately have "live (opt_res Ctx (snd mk) \<union> R) (fst lk @ tls_close (snd lk) @ tls_cleanup_context (snd mk)) = Some R"
    using live_close [of "snd lk"] live_cleanup [of "snd mk"] by simp
  then show ?thesis using mk lk [OF assms(2,3)] by simp
qed

text \<open>An OpenSSL that accepts the certificates and fails the handshake.\<close>

definition demo_ssl :: Openssl where
  "demo_ssl = \<lparr>ctx_new = Some 1, load_ca = \<lambda>f. 1, use_cert = \<lambda>f. 1, use_key = \<lambda>f. 1, ssl_new = Some 2,
     accept_result = 1, connect_result = -1\<rparr>"

definition server_config :: "int \<Rightarrow> TLSConfig" where
  "server_config verify = \<lparr>ca_cert_path = Some DEFAULT_CA_CERT, server_cert_path = Some DEFAULT_SERVER_CERT,
     server_key_path = Some DEFAULT_SERVER_KEY, client_cert_path = None, client_key_path = None, verify_peer = verify\<rparr>"

theorem tls_handles_accounted_witness:
  "live {Fd 3} (fst (tls_create_server_context demo_ssl (server_config 1))
      @ fst (tls_connect demo_ssl 3 (Some ''api.bank.com''))
      @ tls_close (snd (tls_connect demo_ssl 3 (Some ''api.bank.com'')))
      @ tls_cleanup_context (snd (tls_create_server_context demo_ssl (server_config 1)))) = Some {Fd 3}
    \<and> snd (tls_connect demo_ssl 3 (Some ''api.bank.com'')) = None"
  using tls_handles_accounted [where lib = demo_ssl and R = "{Fd 3}" and fd = 3 and config = "server_config 1"
      and mk = "tls_create_server_context demo_ssl (server_config 1)"
      and hostname = "Some ''api.bank.com''" and lk = "tls_connect demo_ssl 3 (Some ''api.bank.com'')"]
  by (simp add: fresh_ctx_def fresh_ssl_def demo_ssl_def) (simp add: tls_connect_def demo_ssl_def)

end
