(* ===== verification/C_Input.thy ===== *)
theory C_Input
  imports Ieee_Double
begin

text \<open>
  The part of the C library that reads text: \<open>atoi\<close>, the conversions \<open>%d\<close>, \<open>%s\<close> and \<open>%lf\<close> of
  \<open>scanf\<close>, \<open>getchar\<close> up to the end of a line, and \<open>strstr\<close>. The standard input is the list of the
  bytes still to be read; its end is the end of the file. A conversion returns what it assigns, if it
  assigns, and what is left to be read; on a mismatch that is what \<open>scanf\<close> leaves.

  \<open>%lf\<close> reads decimal numbers with a fraction and an exponent, \<open>inf\<close>, \<open>infinity\<close> and \<open>nan\<close>; the hexadecimal
  notation of C99 is not modelled. Values of \<open>%d\<close> and \<open>atoi\<close> outside \<open>int\<close> are those of glibc: clipped to
  64 bits and then cut to 32.

  Lemmas: what each conversion makes of the text of a number or a word (\<open>scan_typed\<close>).
\<close>

section \<open>Characters\<close>

definition is_space :: "byte \<Rightarrow> bool" where "is_space b \<longleftrightarrow> b = 32 \<or> 9 \<le> unat b \<and> unat b \<le> 13"

definition is_digit :: "byte \<Rightarrow> bool" where "is_digit b \<longleftrightarrow> 48 \<le> unat b \<and> unat b \<le> 57"

definition to_lower :: "byte \<Rightarrow> byte" where
  "to_lower b = (if 65 \<le> unat b \<and> unat b \<le> 90 then b + 32 else b)"

abbreviation skip_space :: "byte list \<Rightarrow> byte list" where "skip_space bs \<equiv> dropWhile is_space bs"

fun take_sign :: "byte list \<Rightarrow> bool \<times> byte list" where
  "take_sign [] = (False, [])"
| "take_sign (b # bs) = (if b = 45 then (True, bs) else if b = 43 then (False, bs) else (False, b # bs))"

section \<open>Conversions\<close>

definition c_int :: "int \<Rightarrow> int" where
  "c_int v = sint (word_of_int (max (- (2 ^ 63)) (min (2 ^ 63 - 1) v)) :: 32 word)"

definition scan_int :: "byte list \<Rightarrow> int option \<times> byte list" where
  "scan_int bs = (let (neg, r) = take_sign (skip_space bs); ds = takeWhile is_digit r in
     if ds = [] then (None, r)
     else (Some (c_int (if neg then - int (dec_value ds) else int (dec_value ds))), dropWhile is_digit r))"

definition c_atoi :: "byte list \<Rightarrow> int run" where
  "c_atoi bs = bind_run (c_str bs) (\<lambda>s. Ret (case fst (scan_int s) of None \<Rightarrow> 0 | Some v \<Rightarrow> v))"

text \<open>\<open>%s\<close> into an array: \<open>None\<close> at the end of the input; the word and its terminator are written unchecked.\<close>

definition scan_str :: "byte list \<Rightarrow> byte list \<Rightarrow> (byte list \<times> byte list) run" where
  "scan_str buf bs = (let r = skip_space bs; w = takeWhile (\<lambda>b. \<not> is_space b) r in
     if w = [] then Ret (buf, r)
     else bind_run (c_write buf (w @ [0])) (\<lambda>buf'. Ret (buf', dropWhile (\<lambda>b. \<not> is_space b) r)))"

fun match_word :: "byte list \<Rightarrow> byte list \<Rightarrow> bool \<times> byte list" where
  "match_word [] bs = (True, bs)"
| "match_word (k # ks) [] = (False, [])"
| "match_word (k # ks) (b # bs) = (if to_lower b = k then match_word ks bs else (False, b # bs))"

definition starts_with :: "string \<Rightarrow> byte list \<Rightarrow> bool" where
  "starts_with s bs \<longleftrightarrow> map to_lower (take (length s) bs) = chars s"

definition scan_exponent :: "byte list \<Rightarrow> int option \<times> byte list" where
  "scan_exponent bs = (if starts_with ''e'' bs then
       let (neg, r) = take_sign (tl bs); ds = takeWhile is_digit r in
       if ds = [] then (None, r)
       else (Some (if neg then - int (dec_value ds) else int (dec_value ds)), dropWhile is_digit r)
     else (Some 0, bs))"

definition scan_decimal :: "bool \<Rightarrow> byte list \<Rightarrow> f64 option \<times> byte list" where
  "scan_decimal neg r = (let whole = takeWhile is_digit r; r1 = dropWhile is_digit r;
       (frac, r2) = (case r1 of [] \<Rightarrow> ([], [])
          | b # r' \<Rightarrow> if b = 46 then (takeWhile is_digit r', dropWhile is_digit r') else ([], b # r')) in
     if whole = [] \<and> frac = [] then (None, r2)
     else case scan_exponent r2 of
         (None, r3) \<Rightarrow> (None, r3)
       | (Some e, r3) \<Rightarrow>
           (Some (f64_of_ratio neg (dec_value (whole @ frac) * 10 ^ nat e) (10 ^ (length frac + nat (- e)))), r3))"

text \<open>\<open>%lf\<close>\<close>

definition scan_lf :: "byte list \<Rightarrow> f64 option \<times> byte list" where
  "scan_lf bs = (let (neg, r) = take_sign (skip_space bs) in
     if starts_with ''n'' r then
       (case match_word (chars ''nan'') r of (ok, r') \<Rightarrow>
         (if ok then Some (f64_make neg (2047 * 2 ^ 52 + 2 ^ 51)) else None, r'))
     else if starts_with ''i'' r then
       (case match_word (chars ''inf'') r of (ok, r') \<Rightarrow>
         if \<not> ok then (None, r')
         else if starts_with ''i'' r' then
           (case match_word (chars ''inity'') r' of (ok', r'') \<Rightarrow> (if ok' then Some (f64_make neg inf_mag) else None, r''))
         else (Some (f64_make neg inf_mag), r'))
     else scan_decimal neg r)"

text \<open>\<open>while (getchar () != '\n');\<close> -- at the end of the file \<open>getchar\<close> returns \<open>EOF\<close> again and again.\<close>

fun discard_line :: "nat \<Rightarrow> byte list \<Rightarrow> byte list option" where
  "discard_line 0 bs = None"
| "discard_line (Suc n) [] = discard_line n []"
| "discard_line (Suc n) (b # bs) = (if b = 10 then Some bs else discard_line n bs)"

section \<open>Searching\<close>

fun c_prefix :: "byte list \<Rightarrow> byte list \<Rightarrow> bool run" where
  "c_prefix hs [] = Ret True"
| "c_prefix [] (n # ns) = Fault Over_Read"
| "c_prefix (h # hs) (n # ns) = (if h = n then c_prefix hs ns else Ret False)"

text \<open>\<open>strstr\<close>: the object from where the needle, which holds no terminator, begins.\<close>

fun c_strstr :: "byte list \<Rightarrow> byte list \<Rightarrow> byte list option run" where
  "c_strstr [] ns = Fault Over_Read"
| "c_strstr (h # hs) ns = bind_run (c_prefix (h # hs) ns) (\<lambda>found.
     if found then Ret (Some (h # hs)) else if h = 0 then Ret None else c_strstr hs ns)"

section \<open>Text that is typed\<close>

lemma digit_not_space: "is_digit b \<Longrightarrow> \<not> is_space b"
  by (auto simp: is_digit_def is_space_def)

lemma dec_digits_is_digit: "d \<in> set (dec_digits n) \<Longrightarrow> is_digit d"
  using dec_digits_range by (simp add: is_digit_def)

lemma dec_digits_ne [simp]: "dec_digits n \<noteq> []"
  by (subst dec_digits.simps) simp

lemma take_digits [simp]:
  assumes "\<not> is_digit b"
  shows "takeWhile is_digit (dec_digits n @ b # r) = dec_digits n" "dropWhile is_digit (dec_digits n @ b # r) = b # r"
    "takeWhile is_digit (dec_digits n) = dec_digits n"
  using assms by (simp_all add: dec_digits_is_digit takeWhile_append2 dropWhile_append2)

lemma dec_digits_hd:
  obtains d ds where "dec_digits n = d # ds" "is_digit d"
  by (metis dec_digits_is_digit dec_digits_ne list.set_intros(1) neq_Nil_conv)

lemma space_after [simp]: "\<not> is_digit 32" "\<not> is_digit 10" "is_space 32" "is_space 10" "\<not> is_digit 0"
  by (simp_all add: is_digit_def is_space_def)

lemma skip_digits [simp]: "skip_space (dec_digits n @ r) = dec_digits n @ r"
  using dec_digits_hd [of n] digit_not_space by (metis append_Cons dropWhile.simps(2))

lemma sign_digits [simp]: "take_sign (dec_digits n @ r) = (False, dec_digits n @ r)"
proof -
  obtain d ds where d: "dec_digits n = d # ds" "is_digit d" by (rule dec_digits_hd)
  then have "d \<noteq> 45" "d \<noteq> 43" by (auto simp: is_digit_def)
  then show ?thesis using d by simp
qed

lemma c_int_small: "n < 2 ^ 31 \<Longrightarrow> c_int (int n) = int n"
proof -
  assume n: "n < 2 ^ 31"
  then have "max (- (2 ^ 63)) (min (2 ^ 63 - 1) (int n)) = int n" by simp
  moreover have "sint (word_of_int (int n) :: 32 word) = int n"
    using n by (simp only: signed_of_int) (simp add: signed_take_bit_int_eq_self)
  ultimately show ?thesis by (simp only: c_int_def)
qed

text \<open>The three conversions on what is typed: a number, a word, a whole amount, with a line end after it.\<close>

lemma scan_typed_int: "n < 2 ^ 31 \<Longrightarrow> scan_int (dec_digits n @ 10 # r) = (Some (int n), 10 # r)"
  by (simp add: scan_int_def Let_def c_int_small roundtrip_simps)

lemma scan_newline: "scan_int (10 # r) = scan_int r" "scan_lf (10 # r) = scan_lf r" "scan_str buf (10 # r) = scan_str buf r"
  by (simp_all add: scan_int_def scan_lf_def scan_str_def)

definition is_word :: "byte list \<Rightarrow> bool" where
  "is_word w \<longleftrightarrow> w \<noteq> [] \<and> (\<forall>b\<in>set w. \<not> is_space b \<and> b \<noteq> 0)"

lemma scan_typed_word:
  assumes "is_word w"
  shows "scan_str buf (w @ 10 # r) =
    (if length w < length buf then Ret (w @ 0 # drop (Suc (length w)) buf, 10 # r) else Fault Over_Write)"
proof -
  have "skip_space (w @ 10 # r) = w @ 10 # r" using assms by (cases w) (auto simp: is_word_def)
  moreover have "takeWhile (\<lambda>b. \<not> is_space b) (w @ 10 # r) = w" "dropWhile (\<lambda>b. \<not> is_space b) (w @ 10 # r) = 10 # r"
    using assms by (auto simp: is_word_def takeWhile_append2 dropWhile_append2)
  ultimately show ?thesis using assms by (simp add: scan_str_def is_word_def Let_def c_write_def put_bytes_def)
qed

lemma starts_with_digits: "is_digit d \<Longrightarrow> \<not> starts_with ''n'' (d # ds)" "is_digit d \<Longrightarrow> \<not> starts_with ''i'' (d # ds)"
  by (auto simp: starts_with_def chars_def is_digit_def to_lower_def)

lemma scan_typed_amount: "scan_lf (dec_digits n @ 10 # r) = (Some (f64_of_nat n), 10 # r)"
proof -
  obtain d ds where d: "dec_digits n = d # ds" "is_digit d" by (rule dec_digits_hd)
  then have "\<not> starts_with ''n'' (dec_digits n @ 10 # r)" "\<not> starts_with ''i'' (dec_digits n @ 10 # r)"
    using starts_with_digits by simp_all
  moreover have "scan_exponent (10 # r) = (Some 0, 10 # r)"
    by (simp add: scan_exponent_def starts_with_def chars_def to_lower_def)
  ultimately show ?thesis
    by (simp add: scan_lf_def scan_decimal_def Let_def roundtrip_simps f64_of_ratio_whole [simplified])
qed

text \<open>A line is thrown away when there is one, and never when there is none.\<close>

lemma discard_line_eof: "10 \<notin> set bs \<Longrightarrow> discard_line n bs = None"
  by (induction n bs rule: discard_line.induct) auto

lemma discard_line_runs: "10 \<notin> set w \<Longrightarrow> length w < n \<Longrightarrow> discard_line n (w @ 10 # r) = Some r"
proof (induction w arbitrary: n)
  case (Cons b w)
  then show ?case by (cases n) auto
next
  case Nil
  then show ?case by (cases n) auto
qed

section \<open>Finding a text in an object\<close>

lemma c_prefix_append: "c_prefix (s @ r) s = Ret True"
  by (induction s) auto

lemma c_strstr_here: "ns \<noteq> [] \<Longrightarrow> c_strstr (ns @ r) ns = Ret (Some (ns @ r))"
  by (cases ns) (simp_all add: c_prefix_append)

end
