(* ===== verification/Banking_Client.thy ===== *)
theory Banking_Client
  imports Banking_Server Tls_Wrapper C_Input
begin

text \<open>
  The interactive client, \<open>client/banking_client.c\<close>: \<open>send_request\<close>, the four menus, the menu loop and
  \<open>main\<close>, over the wrapper of theory \<open>Tls_Wrapper\<close> and the input functions of \<open>C_Input\<close>.

  A menu takes the bytes of the standard input and returns those it leaves and the text it prints. What
  an uninitialised struct holds is in \<open>ClientEnv\<close>. The menu loop has no bound of its own: \<open>client_loop\<close>
  takes the number of steps it may run and is \<open>None\<close> when they do not suffice; the properties say for
  which inputs some number does, and for which none does.

  The connection is a parameter. \<open>bank_conn\<close> is the connection to the banking server: what the client
  writes is one read of the server's \<open>connection_loop\<close>, and what that writes is read back. The contract
  \<open>teller\<close> says what a request function promises its callers over such a connection; \<open>send_request\<close> is
  shown to keep it here, the request function of the stress client in its own theory.
\<close>

section \<open>Requests\<close>

record ClientEnv =
  client_rand :: u32                \<comment> \<open>\<open>rand ()\<close> for the request identifier\<close>
  req_packet0 :: BankingPacket      \<comment> \<open>the uninitialised packets and structs on the stack\<close>
  resp_packet0 :: "byte list"
  id0 :: "byte list"
  amount0 :: f64
  response0 :: BankingResponse

definition ln :: "string \<Rightarrow> byte list" where "ln t = chars t @ [10]"

text \<open>The last component is what \<open>send_request\<close> prints itself.\<close>

definition send_request :: "'s Conn \<Rightarrow> ClientEnv \<Rightarrow> 's \<Rightarrow> u16 \<Rightarrow> byte list \<Rightarrow> nat \<Rightarrow> BankingResponse \<Rightarrow>
    ('s \<times> BankingResponse \<times> int \<times> byte list) run" where
  "send_request conn env s opcode req_data req_size response =
     bind_run (pack_request (client_rand env) (req_packet0 env) opcode (Some req_data) req_size) (\<lambda>(p, r).
     if r \<noteq> 0 then Ret (s, response, -1, ln ''Failed to pack request'')
     else case tls_write conn s (packet_bytes p) of (s, written) \<Rightarrow>
       if written \<le> 0 then Ret (s, response, -1, ln ''Failed to send request'')
       else case tls_read conn s PACKET_SIZE of
           (s, None) \<Rightarrow> Ret (s, response, -1, ln ''Failed to receive response'')
         | (s, Some bytes) \<Rightarrow>
             bind_run (unpack_response (packet_of_bytes (put_bytes (resp_packet0 env) bytes)) response)
               (\<lambda>(response, r). if r \<noteq> 0 then Ret (s, response, -1, ln ''Failed to unpack response'')
                 else Ret (s, response, 0, [])))"

section \<open>Menus\<close>

text \<open>What a menu prints of a response; \<open>%s\<close> needs a string in the message array.\<close>

definition show_response :: "string \<Rightarrow> BankingResponse \<Rightarrow> byte list run" where
  "show_response label r = bind_run (c_str (BankingResponse.message r)) (\<lambda>m.
     Ret (10 # chars ''Status: '' @ c_dec (sint (BankingResponse.status r)) @ 10 # chars ''Message: '' @ m @ [10]
       @ (if BankingResponse.status r = 0 then chars label @ fmt_2f (BankingResponse.balance r) @ [10] else [])))"

text \<open>
  The end of every menu: send, and print the response if there is one. \<open>said\<close> is what the menu has
  printed, \<open>rest\<close> the input it leaves.
\<close>

definition ask_bank :: "'s Conn \<Rightarrow> ClientEnv \<Rightarrow> 's \<Rightarrow> u16 \<Rightarrow> byte list \<Rightarrow> nat \<Rightarrow> string \<Rightarrow> byte list \<Rightarrow> byte list \<Rightarrow>
    ('s \<times> byte list \<times> byte list) run" where
  "ask_bank conn env s opcode req_data req_size label said rest =
     bind_run (send_request conn env s opcode req_data req_size (response0 env)) (\<lambda>(s', response, r, text).
       if r = 0 then bind_run (show_response label response) (\<lambda>shown. Ret (s', rest, said @ text @ shown))
       else Ret (s', rest, said @ text))"

definition menu_create_account :: "'s Conn \<Rightarrow> ClientEnv \<Rightarrow> 's \<Rightarrow> byte list \<Rightarrow> ('s \<times> byte list \<times> byte list) run" where
  "menu_create_account conn env s inp =
     bind_run (scan_str (id0 env) inp) (\<lambda>(ident, inp).
     case scan_lf inp of (amt, inp) \<Rightarrow>
       let req = \<lparr>CreateAccountRequest.account_id = ident,
                   initial_balance = (case amt of None \<Rightarrow> amount0 env | Some a \<Rightarrow> a)\<rparr> in
       ask_bank conn env s OP_CREATE_ACCOUNT (create_bytes req) CREATE_SIZE ''Balance: ''
         (10 # ln ''=== Create Account ==='' @ chars ''Enter Account ID: '' @ chars ''Enter Initial Balance: '') inp)"

definition menu_deposit :: "'s Conn \<Rightarrow> ClientEnv \<Rightarrow> 's \<Rightarrow> byte list \<Rightarrow> ('s \<times> byte list \<times> byte list) run" where
  "menu_deposit conn env s inp =
     bind_run (scan_str (id0 env) inp) (\<lambda>(ident, inp).
     case scan_lf inp of (amt, inp) \<Rightarrow>
       let req = \<lparr>DepositRequest.account_id = ident,
                   DepositRequest.amount = (case amt of None \<Rightarrow> amount0 env | Some a \<Rightarrow> a)\<rparr> in
       ask_bank conn env s OP_DEPOSIT (deposit_bytes req) DEPOSIT_SIZE ''New Balance: ''
         (10 # ln ''=== Deposit ==='' @ chars ''Enter Account ID: '' @ chars ''Enter Amount: '') inp)"

definition menu_withdraw :: "'s Conn \<Rightarrow> ClientEnv \<Rightarrow> 's \<Rightarrow> byte list \<Rightarrow> ('s \<times> byte list \<times> byte list) run" where
  "menu_withdraw conn env s inp =
     bind_run (scan_str (id0 env) inp) (\<lambda>(ident, inp).
     case scan_lf inp of (amt, inp) \<Rightarrow>
       let req = \<lparr>WithdrawRequest.account_id = ident,
                   WithdrawRequest.amount = (case amt of None \<Rightarrow> amount0 env | Some a \<Rightarrow> a)\<rparr> in
       ask_bank conn env s OP_WITHDRAW (withdraw_bytes req) WITHDRAW_SIZE ''New Balance: ''
         (10 # ln ''=== Withdraw ==='' @ chars ''Enter Account ID: '' @ chars ''Enter Amount: '') inp)"

definition menu_check_balance :: "'s Conn \<Rightarrow> ClientEnv \<Rightarrow> 's \<Rightarrow> byte list \<Rightarrow> ('s \<times> byte list \<times> byte list) run" where
  "menu_check_balance conn env s inp =
     bind_run (scan_str (id0 env) inp) (\<lambda>(ident, inp).
       ask_bank conn env s OP_BALANCE (balance_bytes \<lparr>BalanceRequest.account_id = ident\<rparr>) BALANCE_SIZE ''Balance: ''
         (10 # ln ''=== Check Balance ==='' @ chars ''Enter Account ID: '') inp)"

section \<open>The menu loop\<close>

definition menu_text :: "byte list" where
  "menu_text = 10 # ln ''--- Banking Menu ---'' @ ln ''1. Create Account'' @ ln ''2. Deposit'' @ ln ''3. Withdraw''
     @ ln ''4. Check Balance'' @ ln ''5. Exit'' @ chars ''Enter choice: ''"

definition after :: "byte list \<Rightarrow> ('s \<times> byte list \<times> byte list) option run \<Rightarrow> ('s \<times> byte list \<times> byte list) option run" where
  "after said m = bind_run m (\<lambda>res. Ret (map_option (\<lambda>(s, inp, text). (s, inp, said @ text)) res))"

fun client_loop :: "nat \<Rightarrow> 's Conn \<Rightarrow> (nat \<Rightarrow> ClientEnv) \<Rightarrow> 's \<Rightarrow> byte list \<Rightarrow>
    ('s \<times> byte list \<times> byte list) option run" where
  "client_loop 0 conn envs s inp = Ret None"
| "client_loop (Suc n) conn envs s inp =
     (let menu = (\<lambda>m. bind_run (m conn (envs 0) s (snd (scan_int inp))) (\<lambda>(s, inp, text).
            after (menu_text @ text) (client_loop n conn (\<lambda>i. envs (Suc i)) s inp))) in
      case scan_int inp of
        (None, r) \<Rightarrow> (case discard_line n r of None \<Rightarrow> Ret None
          | Some r' \<Rightarrow> after (menu_text @ ln ''Invalid input'') (client_loop n conn (\<lambda>i. envs (Suc i)) s r'))
      | (Some choice, r) \<Rightarrow>
          if choice = 1 then menu menu_create_account
          else if choice = 2 then menu menu_deposit
          else if choice = 3 then menu menu_withdraw
          else if choice = 4 then menu menu_check_balance
          else if choice = 5 then Ret (Some (s, r, menu_text @ ln ''Goodbye!''))
          else after (menu_text @ ln ''Invalid choice'') (client_loop n conn (\<lambda>i. envs (Suc i)) s r))"

section \<open>The connection to the bank\<close>

text \<open>
  The state is the server's world, whether the server still reads this connection, and what it has
  written and the client has not read. What the client writes reaches the server in reads of at most
  the size of a packet; a read that is shorter ends the connection, and so does a server that faults (what
  undefined behaviour makes of its world is not said; it is left as it was before the write).
  The client's read takes of the oldest packet as much as it asks for and leaves the rest.
\<close>

type_synonym 'o line = "'o world \<times> bool \<times> byte list list"

fun server_reads :: "byte list \<Rightarrow> byte list list" where
  "server_reads [] = []"
| "server_reads (b # bs) = take PACKET_SIZE (b # bs) # server_reads (drop (PACKET_SIZE - 1) bs)"

definition bank_conn :: "'o OtpLink \<Rightarrow> ReqEnv \<Rightarrow> 'o line Conn" where
  "bank_conn link env = \<lparr>
     ssl_write = \<lambda>(w, up, out) bs.
       if \<not> up then ((w, up, out), -1)
       else case connection_loop link w (map (\<lambda>bs. (env, Some bs)) (server_reads bs)) of
           Fault e \<Rightarrow> ((w, False, out), int (length bs))
         | Ret (w', outs) \<Rightarrow> ((w', list_all (\<lambda>bs. length bs = PACKET_SIZE) (server_reads bs), out @ outs), int (length bs)),
     ssl_read = \<lambda>(w, up, out) n. case out of [] \<Rightarrow> ((w, up, []), None)
       | bs # out \<Rightarrow> ((w, up, if length bs \<le> n then out else drop n bs # out), Some (take n bs))\<rparr>"

lemma server_reads_packet: "length bs = PACKET_SIZE \<Longrightarrow> server_reads bs = [bs]"
  by (cases bs) (simp_all add: PACKET_SIZE_def PROTOCOL_HEADER_SIZE_def MAX_DATA_SIZE_def)

lemma server_reads_first: "bs \<noteq> [] \<Longrightarrow> \<exists>rest. server_reads bs = take PACKET_SIZE bs # rest"
  by (cases bs) simp_all

lemma pack_request_packed:
  "length d \<le> 30 \<Longrightarrow> pack_request rnd p0 op (Some d) (length d) = Ret (packed rnd op d, 0)"
  by (simp add: packed_def pack_request_eq MAX_DATA_SIZE_def)

lemma send_response_unpacks:
  assumes "length (BankingResponse.message resp) = 256"
  obtains out where "send_response env resp = Ret out" "length out = PACKET_SIZE"
    "\<And>r0. length (BankingResponse.message r0) = 256 \<Longrightarrow> unpack_response (packet_of_bytes out) r0 = Ret (resp, 0)"
proof -
  obtain p where p: "pack_request (packet_rand env) (packet_stack env) OP_RESPONSE
      (Some (response_bytes resp)) RESPONSE_SIZE = Ret (p, 0)"
    using response_struct.pack_succeeds [OF assms] by blast
  have out: "send_response env resp = Ret (packet_bytes p)"
    by (simp add: send_response_def pack_response_def p)
  have "packet_wf p" using unpack_pack_request(2) [OF _ response_struct.fits order.refl _ p] response_struct.length_enc [OF assms]
    by (metis length_replicate order.refl)
  moreover have "unpack_response (packet_of_bytes (packet_bytes p)) r0 = Ret (resp, 0)"
    if "length (BankingResponse.message r0) = 256" for r0
    using response_struct.roundtrip(4,5) [OF assms response_struct.length_enc [OF that] p] by (simp add: unpack_response_def)
  ultimately show ?thesis using that out length_packet_bytes by blast
qed

text \<open>One exchange over the connection, for any request the server dispatches.\<close>

lemma bank_conn_exchange:
  assumes "stack_ok env" "length d \<le> 30"
    and "dispatch link env w (packed rnd op d) = Ret (w', resp)" "length (BankingResponse.message resp) = 256"
  obtains out where
    "tls_write (bank_conn link env) (w, True, []) (packet_bytes (packed rnd op d)) = ((w', True, [out]), 1036)"
    "tls_read (bank_conn link env) (w', True, [out]) PACKET_SIZE = ((w', True, []), Some out)" "length out = PACKET_SIZE"
    "\<And>r0. length (BankingResponse.message r0) = 256 \<Longrightarrow> unpack_response (packet_of_bytes out) r0 = Ret (resp, 0)"
proof -
  note facts = packed_facts [OF assms(2,1), of rnd op]
  obtain out where out: "send_response env resp = Ret out" "length out = PACKET_SIZE"
    "\<And>r0. length (BankingResponse.message r0) = 256 \<Longrightarrow> unpack_response (packet_of_bytes out) r0 = Ret (resp, 0)"
    using send_response_unpacks [OF assms(4)] by blast
  have "connection_loop link w [(env, Some (packet_bytes (packed rnd op d)))] = Ret (w', [out])"
    using facts assms(3) out(1) by (simp add: process_request_def)
  then show ?thesis using out facts(3)
    by (intro that) (simp_all add: tls_write_def tls_read_def bank_conn_def server_reads_packet PACKET_SIZE_def
      PROTOCOL_HEADER_SIZE_def MAX_DATA_SIZE_def)
qed

section \<open>What a request function promises\<close>

definition client_env_ok :: "ClientEnv \<Rightarrow> bool" where
  "client_env_ok e \<longleftrightarrow> length (id0 e) = 20 \<and> length (resp_packet0 e) = PACKET_SIZE
     \<and> length (BankingResponse.message (response0 e)) = 256"

locale teller =
  fixes request :: "'e \<Rightarrow> 's \<Rightarrow> u16 \<Rightarrow> byte list \<Rightarrow> nat \<Rightarrow> BankingResponse \<Rightarrow> ('s \<times> BankingResponse \<times> int) run"
    and env_ok :: "'e \<Rightarrow> bool" and ready :: "'s \<Rightarrow> bool" and bank_of :: "'s \<Rightarrow> bank"
  assumes served: "env_ok e \<Longrightarrow> ready s \<Longrightarrow> valid_op x \<Longrightarrow> length (BankingResponse.message r0) = 256 \<Longrightarrow>
    \<exists>s' r v junk. request e s (op_code_of x) (op_payload x) (length (op_payload x)) r0 = Ret (s', bank_reply x r v junk, 0)
      \<and> ready s' \<and> spec_step (bank_of s) x = (bank_of s', r, v)"
begin

text \<open>A request never hangs up, and requests in sequence follow the specification.\<close>

fun requests :: "'e \<Rightarrow> 's \<Rightarrow> BankingResponse \<Rightarrow> account_op list \<Rightarrow> ('s \<times> BankingResponse list) run" where
  "requests e s r0 [] = Ret (s, [])"
| "requests e s r0 (x # xs) = bind_run (request e s (op_code_of x) (op_payload x) (length (op_payload x)) r0) (\<lambda>(s, resp, r).
     bind_run (requests e s r0 xs) (\<lambda>(s, resps). Ret (s, resp # resps)))"

lemma requests_served:
  assumes "env_ok e" "ready s" "\<forall>x\<in>set xs. valid_op x" "length (BankingResponse.message r0) = 256"
  shows "\<exists>s' resps. requests e s r0 xs = Ret (s', resps) \<and> ready s' \<and> length resps = length xs
    \<and> bank_of s' = fst (run_spec spec_step (bank_of s) xs)"
  using assms
proof (induction xs arbitrary: s)
  case (Cons x xs)
  obtain s' r v junk where one: "request e s (op_code_of x) (op_payload x) (length (op_payload x)) r0 = Ret (s', bank_reply x r v junk, 0)"
    "ready s'" "spec_step (bank_of s) x = (bank_of s', r, v)"
    using served [OF Cons.prems(1,2) _ Cons.prems(4), of x] Cons.prems(3) by auto
  obtain s'' resps where rest: "requests e s' r0 xs = Ret (s'', resps)" "ready s''" "length resps = length xs"
    "bank_of s'' = fst (run_spec spec_step (bank_of s') xs)"
    using Cons.IH [OF Cons.prems(1) one(2) _ Cons.prems(4)] Cons.prems(3) by auto
  show ?case
    using one(1) rest by (simp add: one(3) Let_def split_def del: spec_step.simps)
qed simp

end

text \<open>The connection is ready when the server reads it, owes nothing, and holds a well-formed database.\<close>

definition line_ready :: "'o line \<Rightarrow> bool" where
  "line_ready l \<longleftrightarrow> (\<exists>d peer. l = ((Some d, peer), True, []) \<and> db_wf d)"

definition line_bank :: "'o line \<Rightarrow> bank" where
  "line_bank l = (case l of ((Some d, peer), up, out) \<Rightarrow> db_abs d | _ \<Rightarrow> Map.empty)"

lemma send_request_exchange:
  assumes "stack_ok env" "client_env_ok e" "length d \<le> 30" "length (BankingResponse.message r0) = 256"
    and "dispatch link env w (packed (client_rand e) op d) = Ret (w', resp)" "length (BankingResponse.message resp) = 256"
  shows "send_request (bank_conn link env) e (w, True, []) op d (length d) r0 = Ret ((w', True, []), resp, 0, [])"
proof -
  obtain out where out:
    "tls_write (bank_conn link env) (w, True, []) (packet_bytes (packed (client_rand e) op d)) = ((w', True, [out]), 1036)"
    "tls_read (bank_conn link env) (w', True, [out]) PACKET_SIZE = ((w', True, []), Some out)" "length out = PACKET_SIZE"
    "unpack_response (packet_of_bytes out) r0 = Ret (resp, 0)"
    using bank_conn_exchange [OF assms(1,3,5,6)] assms(4) by metis
  then show ?thesis using assms(2)
    by (simp add: send_request_def pack_request_packed [OF assms(3)] client_env_ok_def)
qed

lemma transaction_dispatched:
  assumes "line_ready l" "valid_op x" "stack_ok env"
  obtains d peer d' r v where "l = ((Some d, peer), True, [])" "line_ready ((Some d', peer), True, [])"
    "dispatch link env (Some d, peer) (packed rnd (op_code_of x) (op_payload x))
      = Ret ((Some d', peer), bank_reply x r v (balance_stack env))"
    "spec_step (line_bank l) x = (line_bank ((Some d', peer), True, [] :: byte list list), r, v)"
proof -
  from assms(1) obtain d peer where l: "l = ((Some d, peer), True, [])" "db_wf d" by (auto simp: line_ready_def)
  show ?thesis
    using dispatch_runs [OF l(2) assms(2,3), of link peer rnd] l that
    unfolding client_packet_def line_ready_def line_bank_def by auto
qed

lemma valid_op_length: "valid_op x \<Longrightarrow> length (op_payload x) \<le> 30"
  using op_payload_length(1) [of x] by (simp add: valid_op_def valid_id_def ACCOUNT_ID_LEN_def)

interpretation menu_teller: teller
  "\<lambda>(env, e) s op d n r0. bind_run (send_request (bank_conn link env) e s op d n r0) (\<lambda>(s, resp, r, text). Ret (s, resp, r))"
  "\<lambda>(env, e). stack_ok env \<and> client_env_ok e" line_ready line_bank
proof (unfold_locales, goal_cases)
  case (1 e s x r0)
  obtain env c where e: "e = (env, c)" by (cases e)
  with 1 have ok: "stack_ok env" "client_env_ok c" by auto
  obtain d peer d' r v where t: "s = ((Some d, peer), True, [])" "line_ready ((Some d', peer), True, [])"
    "dispatch link env (Some d, peer) (packed (client_rand c) (op_code_of x) (op_payload x))
      = Ret ((Some d', peer), bank_reply x r v (balance_stack env))"
    "spec_step (line_bank s) x = (line_bank ((Some d', peer), True, []), r, v)"
    by (rule transaction_dispatched [OF 1(2,3) ok(1), of link "client_rand c"])
  show ?case
    using send_request_exchange [OF ok valid_op_length [OF 1(3)] 1(4) t(3)] t
    by (auto simp: e bank_reply_def simp del: spec_step.simps)
qed

section \<open>What a session prints\<close>

text \<open>What the client prints of the answer to an operation with result \<open>r\<close> that reports \<open>v\<close>.\<close>

definition receipt :: "string \<Rightarrow> account_op \<Rightarrow> int \<Rightarrow> f64 option \<Rightarrow> byte list" where
  "receipt label x r v = 10 # chars ''Status: '' @ c_dec r @ 10 # chars ''Message: ''
     @ take 255 (bank_text x r (reported x v 0)) @ [10] @ (if r = 0 then chars label @ fmt_2f (reported x v 0) @ [10] else [])"

lemma chars_no_nul: "\<forall>c\<in>set t. of_char c \<noteq> (0 :: byte) \<Longrightarrow> 0 \<notin> set (chars t)"
  by (auto simp: chars_def)

lemma bank_text_no_nul: "0 \<notin> set (bank_text x r b)"
  by (cases x) (auto simp: chars_def dest: set_takeWhileD)

lemma spec_results: "spec_step m x = (m', r, v) \<Longrightarrow> r \<in> {0, -1, -2, -3}"
  by (cases x) (auto simp: Let_def split: if_splits option.splits)

lemma spec_reports:
  assumes "spec_step m x = (m', r, v)"
  shows "r = 0 \<Longrightarrow> v = None \<Longrightarrow> \<exists>s b. x = Create s b" "v \<noteq> None \<Longrightarrow> r = 0"
  using assms by (cases x; simp split: if_splits option.splits)+

lemma reported_junk:
  assumes "spec_step m x = (m', r, v)"
  shows "bank_text x r (reported x v junk) = bank_text x r (reported x v 0)" "r = 0 \<Longrightarrow> reported x v junk = reported x v 0"
proof -
  have same: "reported x v junk = reported x v 0" if "r = 0"
    using spec_reports(1) [OF assms that] by (cases v; cases x) simp_all
  then show "r = 0 \<Longrightarrow> reported x v junk = reported x v 0" .
  show "bank_text x r (reported x v junk) = bank_text x r (reported x v 0)"
  proof (cases "r = 0")
    case True
    with same show ?thesis by simp
  next
    case False
    then show ?thesis by (cases x) simp_all
  qed
qed

lemma show_bank_reply:
  assumes "spec_step m x = (m', r, v)"
  shows "show_response label (bank_reply x r v junk) = Ret (receipt label x r v)"
proof -
  let ?text = "take 255 (bank_text x r (reported x v 0))"
  have "0 \<notin> set ?text" using bank_text_no_nul by (auto dest: in_set_takeD)
  then have "c_str (zero_pad 256 ?text) = Ret ?text" by simp
  moreover have "sint (word_of_int r :: u32) = r" "(word_of_int r :: u32) = 0 \<longleftrightarrow> r = 0"
    using spec_results [OF assms] by auto
  ultimately show ?thesis using reported_junk [OF assms, of junk]
    by (simp add: show_response_def bank_reply_def reply_with_def receipt_def)
qed

lemma ask_bank_served:
  assumes "stack_ok env" "client_env_ok e" "line_ready s" "valid_op x"
  obtains s' r v where "ask_bank (bank_conn link env) e s (op_code_of x) (op_payload x) (length (op_payload x)) label said rest
      = Ret (s', rest, said @ receipt label x r v)"
    "line_ready s'" "spec_step (line_bank s) x = (line_bank s', r, v)"
proof -
  obtain d peer d' r v where t: "s = ((Some d, peer), True, [])" "line_ready ((Some d', peer), True, [])"
    "dispatch link env (Some d, peer) (packed (client_rand e) (op_code_of x) (op_payload x))
      = Ret ((Some d', peer), bank_reply x r v (balance_stack env))"
    "spec_step (line_bank s) x = (line_bank ((Some d', peer), True, [] :: byte list list), r, v)"
    by (rule transaction_dispatched [OF assms(3,4,1), of link "client_rand e"])
  have "send_request (bank_conn link env) e s (op_code_of x) (op_payload x) (length (op_payload x)) (response0 e)
      = Ret (((Some d', peer), True, []), bank_reply x r v (balance_stack env), 0, [])"
    unfolding t(1) using assms(2)
    by (intro send_request_exchange [OF assms(1,2) valid_op_length [OF assms(4)] _ t(3)])
       (simp_all add: client_env_ok_def bank_reply_def)
  then have "ask_bank (bank_conn link env) e s (op_code_of x) (op_payload x) (length (op_payload x)) label said rest
      = Ret (((Some d', peer), True, []), rest, said @ receipt label x r v)"
    by (simp add: ask_bank_def show_bank_reply [OF t(4)])
  then show ?thesis using that t(2,4) by blast
qed

section \<open>What a user types\<close>

datatype entry =
    Enter_Create "byte list" nat
  | Enter_Deposit "byte list" nat
  | Enter_Withdraw "byte list" nat
  | Enter_Query "byte list"

fun entered :: "entry \<Rightarrow> byte list" where
  "entered (Enter_Create w n) = w" | "entered (Enter_Deposit w n) = w"
| "entered (Enter_Withdraw w n) = w" | "entered (Enter_Query w) = w"

fun keystrokes :: "entry \<Rightarrow> byte list" where
  "keystrokes (Enter_Create w n) = dec_digits 1 @ 10 # w @ 10 # dec_digits n @ [10]"
| "keystrokes (Enter_Deposit w n) = dec_digits 2 @ 10 # w @ 10 # dec_digits n @ [10]"
| "keystrokes (Enter_Withdraw w n) = dec_digits 3 @ 10 # w @ 10 # dec_digits n @ [10]"
| "keystrokes (Enter_Query w) = dec_digits 4 @ 10 # w @ [10]"

fun entry_op :: "entry \<Rightarrow> byte list \<Rightarrow> account_op" where
  "entry_op (Enter_Create w n) s = Create s (f64_of_nat n)"
| "entry_op (Enter_Deposit w n) s = Deposit s (f64_of_nat n)"
| "entry_op (Enter_Withdraw w n) s = Withdraw s (f64_of_nat n)"
| "entry_op (Enter_Query w) s = Query s"

fun prompts :: "entry \<Rightarrow> byte list" where
  "prompts (Enter_Create w n) = 10 # ln ''=== Create Account ==='' @ chars ''Enter Account ID: '' @ chars ''Enter Initial Balance: ''"
| "prompts (Enter_Deposit w n) = 10 # ln ''=== Deposit ==='' @ chars ''Enter Account ID: '' @ chars ''Enter Amount: ''"
| "prompts (Enter_Withdraw w n) = 10 # ln ''=== Withdraw ==='' @ chars ''Enter Account ID: '' @ chars ''Enter Amount: ''"
| "prompts (Enter_Query w) = 10 # ln ''=== Check Balance ==='' @ chars ''Enter Account ID: ''"

fun balance_label :: "entry \<Rightarrow> string" where
  "balance_label (Enter_Create w n) = ''Balance: ''" | "balance_label (Enter_Deposit w n) = ''New Balance: ''"
| "balance_label (Enter_Withdraw w n) = ''New Balance: ''" | "balance_label (Enter_Query w) = ''Balance: ''"

text \<open>The bank after a session that is ended with 5, and everything the client prints.\<close>

definition entry_canonical :: "entry \<Rightarrow> account_op" where
  "entry_canonical t = entry_op t (zero_pad 20 (entered t))"

fun session :: "bank \<Rightarrow> entry list \<Rightarrow> bank \<times> byte list" where
  "session m [] = (m, menu_text @ ln ''Goodbye!'')"
| "session m (t # ts) = (let (m', r, v) = spec_step m (entry_canonical t); (m'', text) = session m' ts
     in (m'', menu_text @ prompts t @ receipt (balance_label t) (entry_canonical t) r v @ text))"

definition entry_ok :: "entry \<Rightarrow> bool" where
  "entry_ok t \<longleftrightarrow> is_word (entered t) \<and> length (entered t) < 20"

lemma entry_same_name:
  assumes "string_of s = string_of s'"
  shows "spec_step m (entry_op t s) = spec_step m (entry_op t s')"
    "bank_text (entry_op t s) r b = bank_text (entry_op t s') r b"
    "reported (entry_op t s) v b = reported (entry_op t s') v b"
  using assms by (cases t; simp only: entry_op.simps spec_step.simps bank_text.simps reported.simps)+

lemma entry_name:
  assumes "entry_ok t" "string_of s = entered t"
  shows "spec_step m (entry_op t s) = spec_step m (entry_canonical t)"
    "receipt label (entry_op t s) r v = receipt label (entry_canonical t) r v"
proof -
  have "0 \<notin> set (entered t)" using assms(1) by (auto simp: entry_ok_def is_word_def)
  then have "string_of s = string_of (zero_pad 20 (entered t))" using assms(2) by simp
  note same = entry_same_name(1) [OF this, of m t] entry_same_name(2,3) [OF this, of t]
  show "spec_step m (entry_op t s) = spec_step m (entry_canonical t)"
    "receipt label (entry_op t s) r v = receipt label (entry_canonical t) r v"
    by (simp_all only: receipt_def entry_canonical_def same)
qed

text \<open>The menu of an entry, and the input it reads after the choice.\<close>

fun menu_of :: "entry \<Rightarrow> 's Conn \<Rightarrow> ClientEnv \<Rightarrow> 's \<Rightarrow> byte list \<Rightarrow> ('s \<times> byte list \<times> byte list) run" where
  "menu_of (Enter_Create w n) = menu_create_account" | "menu_of (Enter_Deposit w n) = menu_deposit"
| "menu_of (Enter_Withdraw w n) = menu_withdraw" | "menu_of (Enter_Query w) = menu_check_balance"

fun typed_fields :: "entry \<Rightarrow> byte list" where
  "typed_fields (Enter_Create w n) = w @ 10 # dec_digits n @ [10]" | "typed_fields (Enter_Deposit w n) = w @ 10 # dec_digits n @ [10]"
| "typed_fields (Enter_Withdraw w n) = w @ 10 # dec_digits n @ [10]" | "typed_fields (Enter_Query w) = w @ [10]"

lemma scan_entered:
  assumes "is_word w" "length w < 20" "length buf = 20"
  shows "scan_str buf (10 # w @ 10 # r) = Ret (w @ 0 # drop (Suc (length w)) buf, 10 # r)"
    "valid_id (w @ 0 # drop (Suc (length w)) buf)" "string_of (w @ 0 # drop (Suc (length w)) buf) = w"
    "scan_lf (10 # dec_digits n @ 10 # r) = (Some (f64_of_nat n), 10 # r)"
proof -
  have "0 \<notin> set w" using assms(1) by (auto simp: is_word_def)
  then show "string_of (w @ 0 # drop (Suc (length w)) buf) = w" by simp
  show "scan_str buf (10 # w @ 10 # r) = Ret (w @ 0 # drop (Suc (length w)) buf, 10 # r)"
    using assms by (simp only: scan_newline scan_typed_word [OF assms(1)]) simp
  show "valid_id (w @ 0 # drop (Suc (length w)) buf)" using assms by (simp add: valid_id_def ACCOUNT_ID_LEN_def)
  show "scan_lf (10 # dec_digits n @ 10 # r) = (Some (f64_of_nat n), 10 # r)"
    by (simp only: scan_newline scan_typed_amount)
qed

lemma menu_asks:
  assumes "entry_ok t" "length (id0 e) = 20"
  obtains s where "valid_op (entry_op t s)" "string_of s = entered t"
    "menu_of t conn e st (10 # typed_fields t @ rest) = ask_bank conn e st (op_code_of (entry_op t s)) (op_payload (entry_op t s))
       (length (op_payload (entry_op t s))) (balance_label t) (prompts t) (10 # rest)"
proof -
  have w: "is_word (entered t)" "length (entered t) < 20" using assms(1) by (simp_all add: entry_ok_def)
  note scan = scan_entered [OF w assms(2)]
  let ?s = "entered t @ 0 # drop (Suc (length (entered t))) (id0 e)"
  have len: "length ?s = 20" using scan(2) [unfolded valid_id_def ACCOUNT_ID_LEN_def] by blast
  have "menu_of t conn e st (10 # typed_fields t @ rest) = ask_bank conn e st (op_code_of (entry_op t ?s)) (op_payload (entry_op t ?s))
       (length (op_payload (entry_op t ?s))) (balance_label t) (prompts t) (10 # rest)"
  proof (cases t)
    case (Enter_Create w n)
    then show ?thesis using scan(1) [of "dec_digits n @ 10 # rest"] scan(4) [of n rest] op_payload_length(2) [OF len]
      by (simp add: menu_create_account_def)
  next
    case (Enter_Deposit w n)
    then show ?thesis using scan(1) [of "dec_digits n @ 10 # rest"] scan(4) [of n rest] op_payload_length(3) [OF len]
      by (simp add: menu_deposit_def)
  next
    case (Enter_Withdraw w n)
    then show ?thesis using scan(1) [of "dec_digits n @ 10 # rest"] scan(4) [of n rest] op_payload_length(4) [OF len]
      by (simp add: menu_withdraw_def)
  next
    case (Enter_Query w)
    then show ?thesis using scan(1) [of rest] op_payload_length(5) [OF len]
      by (simp add: menu_check_balance_def)
  qed
  moreover have "valid_op (entry_op t ?s)" using scan(2) by (cases t) (simp_all add: valid_op_def)
  ultimately show ?thesis using that scan(3) by blast
qed

lemma menu_served:
  assumes "entry_ok t" "stack_ok env" "client_env_ok e" "line_ready l"
  obtains l' r v where
    "menu_of t (bank_conn link env) e l (10 # typed_fields t @ rest)
      = Ret (l', 10 # rest, prompts t @ receipt (balance_label t) (entry_canonical t) r v)"
    "line_ready l'" "spec_step (line_bank l) (entry_canonical t) = (line_bank l', r, v)"
proof -
  have "length (id0 e) = 20" using assms(3) by (simp add: client_env_ok_def)
  from menu_asks [OF assms(1) this] obtain s where s: "valid_op (entry_op t s)" "string_of s = entered t"
    "menu_of t (bank_conn link env) e l (10 # typed_fields t @ rest)
      = ask_bank (bank_conn link env) e l (op_code_of (entry_op t s)) (op_payload (entry_op t s))
         (length (op_payload (entry_op t s))) (balance_label t) (prompts t) (10 # rest)"
    by metis
  obtain l' r v where "ask_bank (bank_conn link env) e l (op_code_of (entry_op t s)) (op_payload (entry_op t s))
        (length (op_payload (entry_op t s))) (balance_label t) (prompts t) (10 # rest)
      = Ret (l', 10 # rest, prompts t @ receipt (balance_label t) (entry_op t s) r v)"
    "line_ready l'" "spec_step (line_bank l) (entry_op t s) = (line_bank l', r, v)"
    by (rule ask_bank_served [OF assms(2-4) s(1)])
  then show ?thesis using that s(3) entry_name [OF assms(1) s(2)] by simp
qed

section \<open>The loop over a session\<close>

lemma client_loop_newline: "client_loop n conn envs s (10 # r) = client_loop n conn envs s r"
  by (cases n) (simp_all only: client_loop.simps scan_newline)

lemma after_Ret [simp]: "after said (Ret (Some (s, inp, text))) = Ret (Some (s, inp, said @ text))"
  by (simp add: after_def)

lemma client_loop_entry:
  "client_loop (Suc n) conn envs s (keystrokes t @ rest) =
     bind_run (menu_of t conn (envs 0) s (10 # typed_fields t @ rest)) (\<lambda>(s, inp, text).
       after (menu_text @ text) (client_loop n conn (\<lambda>i. envs (Suc i)) s inp))"
proof -
  have digit: "scan_int (dec_digits 1 @ 10 # r) = (Some 1, 10 # r)" "scan_int (dec_digits 2 @ 10 # r) = (Some 2, 10 # r)"
    "scan_int (dec_digits 3 @ 10 # r) = (Some 3, 10 # r)" "scan_int (dec_digits 4 @ 10 # r) = (Some 4, 10 # r)" for r
    using scan_typed_int [of _ r] by simp_all
  show ?thesis by (cases t) (simp_all add: digit Let_def del: One_nat_def)
qed

lemma client_loop_exit:
  "client_loop (Suc n) conn envs s (dec_digits 5 @ 10 # rest) = Ret (Some (s, 10 # rest, menu_text @ ln ''Goodbye!''))"
  using scan_typed_int [of 5 rest] by simp

lemma client_session_runs:
  assumes "\<forall>t\<in>set ts. entry_ok t" "stack_ok env" "\<forall>i. client_env_ok (envs i)" "line_ready l" "length ts < n"
  shows "\<exists>l' text. client_loop n (bank_conn link env) envs l (concat (map keystrokes ts) @ dec_digits 5 @ 10 # rest)
      = Ret (Some (l', 10 # rest, text)) \<and> line_ready l' \<and> session (line_bank l) ts = (line_bank l', text)"
  using assms
proof (induction ts arbitrary: n envs l)
  case Nil
  then obtain m where "n = Suc m" by (cases n) auto
  then show ?case using Nil by (simp add: client_loop_exit del: client_loop.simps)
next
  case (Cons t ts)
  then obtain m where n: "n = Suc m" "length ts < m" by (cases n) auto
  have t: "entry_ok t" "client_env_ok (envs 0)" using Cons.prems by simp_all
  let ?rest = "concat (map keystrokes ts) @ dec_digits 5 @ 10 # rest"
  obtain l1 r v where one: "menu_of t (bank_conn link env) (envs 0) l (10 # typed_fields t @ ?rest)
      = Ret (l1, 10 # ?rest, prompts t @ receipt (balance_label t) (entry_canonical t) r v)"
    "line_ready l1" "spec_step (line_bank l) (entry_canonical t) = (line_bank l1, r, v)"
    by (rule menu_served [OF t(1) Cons.prems(2) t(2) Cons.prems(4)])
  obtain l' said where rest: "client_loop m (bank_conn link env) (\<lambda>i. envs (Suc i)) l1 ?rest = Ret (Some (l', 10 # rest, said))"
    "line_ready l'" "session (line_bank l1) ts = (line_bank l', said)"
    using Cons.IH [OF _ Cons.prems(2) _ one(2) n(2), of "\<lambda>i. envs (Suc i)"] Cons.prems by auto
  have "client_loop n (bank_conn link env) envs l (concat (map keystrokes (t # ts)) @ dec_digits 5 @ 10 # rest)
      = Ret (Some (l', 10 # rest, menu_text @ prompts t @ receipt (balance_label t) (entry_canonical t) r v @ said))"
    using one(1) rest(1) by (simp add: n(1) client_loop_entry client_loop_newline del: client_loop.simps)
  then show ?case using rest one(3) by simp
qed

section \<open>main\<close>

text \<open>
  What the system answers: the socket, \<open>connect\<close>, OpenSSL. The result is the calls made, the exit code and
  what the menu loop returned, or \<open>None\<close> when that has not returned.
\<close>

record ClientOs =
  os_lib :: Openssl
  os_socket :: int
  os_connect :: int

definition client_config :: "int \<Rightarrow> TLSConfig" where
  "client_config verify = \<lparr>ca_cert_path = Some DEFAULT_CA_CERT, server_cert_path = None, server_key_path = None,
     client_cert_path = Some DEFAULT_CLIENT_CERT, client_key_path = Some DEFAULT_CLIENT_KEY, verify_peer = verify\<rparr>"

definition client_run :: "ClientOs \<Rightarrow> 's Conn \<Rightarrow> (nat \<Rightarrow> ClientEnv) \<Rightarrow> nat \<Rightarrow> int \<Rightarrow> 's \<Rightarrow> byte list \<Rightarrow>
    (call list \<times> int \<times> ('s \<times> byte list \<times> byte list) option) option run" where
  "client_run os conn envs n verify_server s inp =
     (case tls_create_client_context (os_lib os) (client_config verify_server) of (made, ctx) \<Rightarrow>
        if ctx = None then Ret (Some (made, 1, None))
        else let sock = os_socket os in
          if sock < 0 then Ret (Some (made @ tls_cleanup_context ctx, 1, None))
          else if os_connect os < 0 then
            Ret (Some (made @ [Acquire (Fd sock)] @ close_fd sock @ tls_cleanup_context ctx, 1, None))
          else case tls_connect (os_lib os) sock (Some ''api.bank.com'') of (linked, ssl) \<Rightarrow>
            if ssl = None then
              Ret (Some (made @ [Acquire (Fd sock)] @ linked @ close_fd sock @ tls_cleanup_context ctx, 1, None))
            else bind_run (client_loop n conn envs s inp) (\<lambda>res. case res of None \<Rightarrow> Ret None
              | Some r \<Rightarrow> Ret (Some (made @ [Acquire (Fd sock)] @ linked @ tls_close ssl @ close_fd sock
                  @ tls_cleanup_context ctx, 0, Some r))))"

definition client_main :: "ClientOs \<Rightarrow> 's Conn \<Rightarrow> (nat \<Rightarrow> ClientEnv) \<Rightarrow> nat \<Rightarrow> byte list list \<Rightarrow> 's \<Rightarrow> byte list \<Rightarrow>
    (call list \<times> int \<times> ('s \<times> byte list \<times> byte list) option) option run" where
  "client_main os conn envs n argv s inp =
     (if length argv < 3 then Ret (Some ([], 1, None))
      else bind_run (c_atoi (argv ! 2)) (\<lambda>port.
        bind_run (if 4 \<le> length argv then c_atoi (argv ! 3) else Ret 0) (\<lambda>verify_server.
          client_run os conn envs n verify_server s inp)))"

text \<open>The calls of \<open>main\<close> give back what they take, at whichever step it leaves.\<close>

definition os_fresh :: "ClientOs \<Rightarrow> resource set \<Rightarrow> bool" where
  "os_fresh os R \<longleftrightarrow> fresh_ctx (os_lib os) R \<and> fresh_ssl (os_lib os) R \<and> Fd (os_socket os) \<notin> R"

lemma opt_res_Ctx [simp]: "Fd fd \<notin> opt_res Ctx c" "Fd fd \<notin> opt_res Ssl s" "opt_res Ssl s \<inter> opt_res Ctx c = {}"
  by (cases c; cases s; simp)+

lemma client_context_balanced:
  assumes "fresh_ctx lib R" "tls_create_client_context lib cfg = (made, ctx)"
  shows "live R made = Some (opt_res Ctx ctx \<union> R)" "live (opt_res Ctx ctx \<union> R) (tls_cleanup_context ctx) = Some R"
    "live R (made @ tls_cleanup_context ctx) = Some R"
proof -
  have "ctx \<in> {None, ctx_new lib}" using made_new(2) [of lib cfg] assms(2) by simp
  then have "opt_res Ctx ctx \<inter> R = {}"
    using assms(1) by (elim insertE) (simp_all add: fresh_ctx_def)
  then have "opt_res Ctx ctx \<union> R - opt_res Ctx ctx = R" by blast
  then show freed: "live (opt_res Ctx ctx \<union> R) (tls_cleanup_context ctx) = Some R"
    using live_cleanup [OF Un_upper1, of ctx R] by (simp only:)
  show made: "live R made = Some (opt_res Ctx ctx \<union> R)"
    using live_client_context [OF assms(1), of cfg] assms(2) by simp
  show "live R (made @ tls_cleanup_context ctx) = Some R" using made freed by simp
qed

lemma client_calls_balanced:
  assumes "os_fresh os R" "tls_create_client_context (os_lib os) cfg = (made, ctx)" "os_socket os = sock" "0 \<le> sock"
    and "tls_connect (os_lib os) sock h = (linked, ssl)"
  shows "live R (made @ [Acquire (Fd sock)] @ close_fd sock @ tls_cleanup_context ctx) = Some R"
    "live R (made @ [Acquire (Fd sock)] @ linked @ tls_close ssl @ close_fd sock @ tls_cleanup_context ctx) = Some R"
proof -
  let ?S = "insert (Fd sock) (opt_res Ctx ctx \<union> R)"
  have "fresh_ctx (os_lib os) R" using assms(1) by (simp add: os_fresh_def)
  note made = client_context_balanced [OF this assms(2)]
  have "ssl \<in> {None, ssl_new (os_lib os)}" using made_new(4) [of "os_lib os" sock h] assms(5) by simp
  then have "opt_res Ssl ssl \<inter> R = {}"
    using assms(1) by (elim insertE) (simp_all add: os_fresh_def fresh_ssl_def)
  then have ssl: "opt_res Ssl ssl \<inter> ?S = {}" by (simp add: Int_Un_distrib)
  have fd: "Fd sock \<notin> opt_res Ctx ctx \<union> R" using assms(1,3) by (simp add: os_fresh_def)
  have fresh: "fresh_ssl (os_lib os) ?S"
    using assms(1) by (simp add: os_fresh_def fresh_ssl_def Int_Un_distrib)
  have linked: "live ?S linked = Some (opt_res Ssl ssl \<union> ?S)"
    using live_connect [OF fresh, of sock h] assms(5) by simp
  have "?S - {Fd sock} = opt_res Ctx ctx \<union> R" using fd by blast
  then have closed: "live ?S (close_fd sock) = Some (opt_res Ctx ctx \<union> R)"
    using live_close_fd [of sock ?S] assms(4) by simp
  have "opt_res Ssl ssl \<union> ?S - opt_res Ssl ssl = ?S" using ssl by blast
  then have shut: "live (opt_res Ssl ssl \<union> ?S) (tls_close ssl) = Some ?S"
    using live_close [OF Un_upper1, of ssl ?S] by (simp only:)
  show "live R (made @ [Acquire (Fd sock)] @ close_fd sock @ tls_cleanup_context ctx) = Some R"
    using made closed by simp
  show "live R (made @ [Acquire (Fd sock)] @ linked @ tls_close ssl @ close_fd sock @ tls_cleanup_context ctx) = Some R"
    using made linked shut closed by simp
qed

lemma client_run_balanced:
  assumes "os_fresh os R" "client_run os conn envs n v s inp = Ret (Some (cs, code, res))"
  shows "live R cs = Some R \<and> code = (if res = None then 1 else 0)"
proof -
  obtain made ctx linked ssl where
    ctx: "tls_create_client_context (os_lib os) (client_config v) = (made, ctx)" and
    ssl: "tls_connect (os_lib os) (os_socket os) (Some ''api.bank.com'') = (linked, ssl)"
    by (metis surj_pair)
  have "fresh_ctx (os_lib os) R" using assms(1) by (simp add: os_fresh_def)
  note made = client_context_balanced [OF this ctx]
  note balanced = client_calls_balanced [OF assms(1) ctx refl _ ssl]
  consider "ctx = None" | "ctx \<noteq> None" "os_socket os < 0" | "ctx \<noteq> None" "0 \<le> os_socket os" "os_connect os < 0"
    | "ctx \<noteq> None" "0 \<le> os_socket os" "0 \<le> os_connect os" "ssl = None"
    | "ctx \<noteq> None" "0 \<le> os_socket os" "0 \<le> os_connect os" "ssl \<noteq> None"
    by linarith
  then show ?thesis
  proof cases
    case 1
    then show ?thesis using assms(2) made by (auto simp: client_run_def Let_def ctx)
  next
    case 2
    then show ?thesis using assms(2) made by (auto simp: client_run_def Let_def ctx)
  next
    case 3
    then show ?thesis using assms(2) balanced(1) by (auto simp: client_run_def Let_def ctx)
  next
    case 4
    then show ?thesis using assms(2) balanced(2) by (auto simp: client_run_def Let_def ctx ssl tls_close_def)
  next
    case 5
    then show ?thesis using assms(2) balanced(2)
      by (auto simp: client_run_def Let_def ctx ssl bind_run_eq_Ret split: option.splits)
  qed
qed

section \<open>Properties\<close>

text \<open>A client environment and a system on which everything succeeds, for concrete runs.\<close>

definition demo_client :: "nat \<Rightarrow> ClientEnv" where
  "demo_client i = \<lparr>client_rand = 5, req_packet0 = packet_of_bytes [], resp_packet0 = replicate PACKET_SIZE 1,
     id0 = replicate 20 1, amount0 = 9, response0 = \<lparr>BankingResponse.status = 3, message = replicate 256 65, balance = 0\<rparr>\<rparr>"

definition demo_os :: ClientOs where
  "demo_os = \<lparr>os_lib = demo_ssl\<lparr>connect_result := 1\<rparr>, os_socket = 3, os_connect = 0\<rparr>"

definition demo_argv :: "byte list list" where
  "demo_argv = [chars ''banking_client'' @ [0], chars ''127.0.0.1'' @ [0], chars ''8888'' @ [0]]"

lemma demo_client_ok [simp]: "client_env_ok (demo_client i)"
  by (simp add: client_env_ok_def demo_client_def)

lemma demo_line_ready: "line_ready ((Some demo_db, ()), True, [])"
  by (simp add: line_ready_def)

text \<open>
  C3: what the user types is what the bank does and what the user is told. When the connection stands, a
  user enters any list of transactions on account names of 1 to 19 characters with whole amounts, and
  then 5, then \<open>main\<close> returns 0 once the menu loop may take as many steps as there are entries and one
  more; the bank behind the connection is the one the specification gives for these transactions in
  order; the text on the terminal is the menus with, for each transaction, the status, message and
  balance of the specification; and the context, connection and socket are given back.
\<close>

theorem client_session_is_served:
  assumes "\<forall>t\<in>set ts. entry_ok t" "stack_ok env" "\<forall>i. client_env_ok (envs i)" "line_ready l" "length ts < n"
    and "os_fresh os {}" "length argv = 3" "terminated (argv ! 2)" "0 \<le> os_socket os" "0 \<le> os_connect os"
    and "ctx_new (os_lib os) \<noteq> None" "0 < load_ca (os_lib os) (Some DEFAULT_CA_CERT)"
    and "ssl_new (os_lib os) \<noteq> None" "0 < connect_result (os_lib os)"
  shows "\<exists>cs l' out. client_main os (bank_conn link env) envs n argv l (concat (map keystrokes ts) @ dec_digits 5 @ 10 # rest)
      = Ret (Some (cs, 0, Some (l', 10 # rest, out)))
    \<and> line_ready l' \<and> session (line_bank l) ts = (line_bank l', out) \<and> live {} cs = Some {}"
proof -
  obtain l' out where loop: "client_loop n (bank_conn link env) envs l (concat (map keystrokes ts) @ dec_digits 5 @ 10 # rest)
      = Ret (Some (l', 10 # rest, out))" "line_ready l'" "session (line_bank l) ts = (line_bank l', out)"
    using client_session_runs [OF assms(1-5)] by blast
  obtain made ctx linked ssl where
    ctx: "tls_create_client_context (os_lib os) (client_config 0) = (made, ctx)" "ctx \<noteq> None" and
    ssl: "tls_connect (os_lib os) (os_socket os) (Some ''api.bank.com'') = (linked, ssl)" "ssl \<noteq> None"
    using assms(11-14) by (auto simp: tls_create_client_context_def tls_connect_def client_config_def Let_def)
  obtain cs where run: "client_run os (bank_conn link env) envs n 0 l (concat (map keystrokes ts) @ dec_digits 5 @ 10 # rest)
      = Ret (Some (cs, 0, Some (l', 10 # rest, out)))"
    using loop(1) ctx ssl assms(9,10) by (simp add: client_run_def Let_def)
  have "client_main os (bank_conn link env) envs n argv l (concat (map keystrokes ts) @ dec_digits 5 @ 10 # rest)
      = Ret (Some (cs, 0, Some (l', 10 # rest, out)))"
    using assms(7,8) run by (simp add: client_main_def c_atoi_def)
  then show ?thesis using loop(2,3) client_run_balanced [OF assms(6) run] by blast
qed

theorem client_session_is_served_witness:
  "\<exists>cs l' out. client_main demo_os (bank_conn no_link demo_env) demo_client 2 demo_argv ((Some demo_db, ()), True, [])
      (keystrokes (Enter_Deposit (chars ''alice'') 5) @ dec_digits 5 @ [10]) = Ret (Some (cs, 0, Some (l', [10], out)))
    \<and> line_bank l' (chars ''alice'') = Some (f64_of_nat 1005) \<and> live {} cs = Some {}"
proof -
  have word: "entry_ok (Enter_Deposit (chars ''alice'') 5)"
    by (simp add: entry_ok_def is_word_def chars_def is_space_def)
  have "terminated (demo_argv ! 2)" "length demo_argv = 3" by (simp_all add: demo_argv_def)
  then obtain cs l' out where run: "client_main demo_os (bank_conn no_link demo_env) demo_client 2 demo_argv
      ((Some demo_db, ()), True, []) (keystrokes (Enter_Deposit (chars ''alice'') 5) @ dec_digits 5 @ [10])
      = Ret (Some (cs, 0, Some (l', [10], out)))"
    "session (line_bank ((Some demo_db, ()), True, [])) [Enter_Deposit (chars ''alice'') 5] = (line_bank l', out)"
    "live {} cs = Some {}"
    using client_session_is_served [of "[Enter_Deposit (chars ''alice'') 5]" demo_env demo_client
        "((Some demo_db, ()), True, [])" 2 demo_os demo_argv no_link "[]"] word demo_line_ready
    by (auto simp: demo_os_def demo_ssl_def os_fresh_def fresh_ctx_def fresh_ssl_def)
  have "line_bank l' = fst (spec_step (db_abs demo_db) (entry_canonical (Enter_Deposit (chars ''alice'') 5)))"
    using run(2) by (simp add: line_bank_def Let_def split_def del: spec_step.simps)
  moreover have "fst (spec_step (db_abs demo_db) (entry_canonical (Enter_Deposit (chars ''alice'') 5))) (chars ''alice'')
      = Some (f64_of_nat 1005)"
    using f64_of_nat_add [of 1000 5] f64_of_nat_le [of 5 0] by (simp add: entry_canonical_def chars_def)
  ultimately have "line_bank l' (chars ''alice'') = Some (f64_of_nat 1005)" by (simp only:)
  then show ?thesis using run(1,3) by blast
qed

text \<open>
  C38: the end of the input is never noticed. When what is typed next is not a number and no further line
  follows -- above all when the input has ended -- the menu loop does not return, whatever the server
  does and however many steps it runs: \<open>getchar\<close> gives \<open>EOF\<close> and the loop waits for a line end. So neither
  does \<open>main\<close>, and the connection is never closed.
\<close>

theorem end_of_input_is_never_noticed:
  assumes "fst (scan_int inp) = None" "10 \<notin> set (snd (scan_int inp))"
  shows "client_loop n conn envs s inp = Ret None
    \<and> (client_main os conn envs n argv s inp = Ret (Some (cs, code, res)) \<longrightarrow> code = 1 \<and> res = None)"
proof -
  obtain r where r: "scan_int inp = (None, r)" "10 \<notin> set r" using assms by (cases "scan_int inp") auto
  have loop: "client_loop n conn envs s inp = Ret None"
    by (cases n) (simp_all add: r discard_line_eof)
  moreover have "code = 1 \<and> res = None" if run: "client_run os conn envs n v s inp = Ret (Some (cs, code, res))" for v
    using run by (auto simp: client_run_def loop Let_def split: prod.splits if_splits)
  moreover have "\<exists>v. client_run os conn envs n v s inp = Ret (Some (cs, code, res))"
    if "client_main os conn envs n argv s inp = Ret (Some (cs, code, res))" "3 \<le> length argv"
    using that by (auto simp: client_main_def bind_run_eq_Ret)
  ultimately show ?thesis by (cases "length argv < 3") (auto simp: client_main_def)
qed

theorem end_of_input_is_never_noticed_witness:
  "client_loop 1000 (bank_conn no_link demo_env) demo_client ((Some demo_db, ()), True, []) [] = Ret None"
  by (rule end_of_input_is_never_noticed [THEN conjunct1]) (simp_all add: scan_int_def)

text \<open>
  Account names are read without a bound. A name of 20 or more characters, in any of the four
  menus and at any point of a session, overruns the 20 bytes of the request's array before anything
  is sent, whatever the server.
\<close>

theorem long_names_overrun_the_request:
  assumes "is_word (entered t)" "20 \<le> length (entered t)" "\<forall>i. length (id0 (envs i)) = 20"
  shows "client_loop (Suc n) conn envs s (keystrokes t @ rest) = Fault Over_Write"
proof -
  have "scan_str (id0 (envs 0)) (10 # entered t @ 10 # r) = Fault Over_Write" for r
    using assms by (simp only: scan_newline scan_typed_word [OF assms(1)]) simp
  then have "menu_of t conn (envs 0) s (10 # typed_fields t @ rest) = Fault Over_Write"
    by (cases t) (simp_all add: menu_create_account_def menu_deposit_def menu_withdraw_def menu_check_balance_def)
  then show ?thesis by (simp only: client_loop_entry bind_run.simps)
qed

theorem long_names_overrun_the_request_witness:
  "client_loop 1 (bank_conn no_link demo_env) demo_client ((Some demo_db, ()), True, [])
     (keystrokes (Enter_Query (replicate 20 65))) = Fault Over_Write"
  using long_names_overrun_the_request [of "Enter_Query (replicate 20 65)" demo_client 0 "bank_conn no_link demo_env"
      "((Some demo_db, ()), True, [])" "[]"]
  by (simp add: is_word_def is_space_def demo_client_def del: client_loop.simps)

end
