(* ===== verification/Stress_Client.thy ===== *)
theory Stress_Client
  imports Two_Servers Banking_Client
begin

text \<open>
  The stress client, \<open>stress_test/stress_client.c\<close>: \<open>perform_request\<close>, the flow of a worker thread (create
  the account, ask for a code, log in with it, deposit), the loop around it with its statistics, the
  thread, and of \<open>main\<close> the command line, the arguments of each thread and the figures it prints.

  The threads of \<open>main\<close> share nothing but the servers; a thread is \<open>worker_thread\<close> over its own
  connection. What the uninitialised structs hold and what the clock says in each flow is a \<open>FlowEnv\<close>.
  The connection is that of theory \<open>Banking_Client\<close>, with the one-time password server of \<open>Two_Servers\<close>
  behind the bank (\<open>otp_feed\<close>).

  Lemmas: \<open>perform_request\<close> keeps the contract \<open>teller\<close>; \<open>flow_runs\<close> gives a whole flow through all three
  programs; \<open>join_threads_sum\<close> gives the total of the counts, or its overflow.
\<close>

section \<open>Requests\<close>

definition perform_request :: "'s Conn \<Rightarrow> ClientEnv \<Rightarrow> 's \<Rightarrow> u16 \<Rightarrow> byte list \<Rightarrow> nat \<Rightarrow> BankingResponse \<Rightarrow>
    ('s \<times> BankingResponse \<times> int) run" where
  "perform_request conn env s opcode req_data req_size response =
     bind_run (pack_request (client_rand env) (req_packet0 env) opcode (Some req_data) req_size) (\<lambda>(p, r).
     if r \<noteq> 0 then Ret (s, response, -1)
     else case tls_write conn s (packet_bytes p) of (s, written) \<Rightarrow>
       if written \<le> 0 then Ret (s, response, -1)
       else case tls_read conn s PACKET_SIZE of
           (s, None) \<Rightarrow> Ret (s, response, -1)
         | (s, Some bytes) \<Rightarrow>
             bind_run (unpack_response (packet_of_bytes (put_bytes (resp_packet0 env) bytes)) response)
               (\<lambda>(response, r). Ret (s, response, r)))"

section \<open>The worker\<close>

text \<open>\<open>gettimeofday\<close> in milliseconds.\<close>

definition get_time_ms :: "nat \<times> nat \<Rightarrow> f64" where
  "get_time_ms tv = f64_add (f64_mul (f64_of_nat (fst tv)) (f64_of_nat 1000)) (f64_div (f64_of_nat (snd tv)) (f64_of_nat 1000))"

text \<open>The counters are \<open>int\<close>: what is added to them is checked (\<open>int_result\<close>).\<close>

record ThreadArgs =
  thread_id :: int
  server_ip :: "byte list"
  server_port :: int
  verify_cert :: int
  num_requests :: int
  success_count :: int
  fail_count :: int
  total_latency_ms :: f64
  max_latency_ms :: f64
  min_latency_ms :: f64

record FlowEnv =
  create_env :: ClientEnv
  otp_env :: ClientEnv
  login_env :: ClientEnv
  deposit_env :: ClientEnv
  login_otp0 :: "byte list"       \<comment> \<open>\<open>login_req.otp\<close> before it is filled\<close>
  started :: "nat \<times> nat"
  ended :: "nat \<times> nat"

text \<open>Steps 3 and 4 of a flow: the login with the code, and the deposit if it is granted.\<close>

definition flow_login :: "'s Conn \<Rightarrow> FlowEnv \<Rightarrow> byte list \<Rightarrow> byte list \<Rightarrow> BankingResponse \<Rightarrow> 's \<Rightarrow> 's run" where
  "flow_login conn fe acc_id code_buf response s =
     bind_run (c_strncpy (id0 (login_env fe)) acc_id 20) (\<lambda>ident.
     bind_run (c_strncpy (login_otp0 fe) code_buf 10) (\<lambda>code.
     bind_run (perform_request conn (login_env fe) s OP_LOGIN
         (login_bytes \<lparr>LoginRequest.account_id = ident, LoginRequest.otp = code\<rparr>) LOGIN_SIZE response) (\<lambda>(s, response, r).
       if r = 0 \<and> BankingResponse.status response = 0 then
         bind_run (c_strncpy (id0 (deposit_env fe)) acc_id 20) (\<lambda>ident.
         bind_run (perform_request conn (deposit_env fe) s OP_DEPOSIT
             (deposit_bytes \<lparr>DepositRequest.account_id = ident, DepositRequest.amount = f64_of_nat 100\<rparr>) DEPOSIT_SIZE response)
           (\<lambda>(s, response, r). Ret s))
       else Ret s)))"

text \<open>A flow; the second component is \<open>otp_code\<close>, which lives across flows.\<close>

definition flow :: "'s Conn \<Rightarrow> FlowEnv \<Rightarrow> byte list \<Rightarrow> 's \<times> byte list \<Rightarrow> ('s \<times> byte list) run" where
  "flow conn fe acc_id st = (case st of (s, code_buf) \<Rightarrow>
     bind_run (c_strncpy (id0 (create_env fe)) acc_id 20) (\<lambda>ident.
     bind_run (perform_request conn (create_env fe) s OP_CREATE_ACCOUNT
         (create_bytes \<lparr>CreateAccountRequest.account_id = ident, initial_balance = f64_of_nat 1000\<rparr>) CREATE_SIZE
         (response0 (create_env fe))) (\<lambda>(s, response, r).
       if r \<noteq> 0 then Ret (s, code_buf)
       else
         bind_run (c_strncpy (id0 (otp_env fe)) acc_id 20) (\<lambda>ident.
         bind_run (perform_request conn (otp_env fe) s OP_REQ_OTP
             (otp_request_bytes \<lparr>OtpRequest.account_id = ident\<rparr>) OTP_REQUEST_SIZE response) (\<lambda>(s, response, r).
           if r = 0 \<and> BankingResponse.status response = 0 then
             bind_run (c_strstr (BankingResponse.message response) (chars '': '')) (\<lambda>ptr. case ptr of
                 None \<Rightarrow> Ret (s, code_buf)
               | Some found \<Rightarrow>
                   bind_run (c_strncpy code_buf (drop 2 found) 8) (\<lambda>code_buf.
                   bind_run (flow_login conn fe acc_id (code_buf[8 := 0]) response s) (\<lambda>s.
                     Ret (s, code_buf[8 := 0]))))
           else Ret (s, code_buf))))))"

text \<open>The statistics after a flow, and the loop.\<close>

definition count_flow :: "FlowEnv \<Rightarrow> ThreadArgs \<Rightarrow> ThreadArgs run" where
  "count_flow fe t_args = (let latency = f64_sub (get_time_ms (ended fe)) (get_time_ms (started fe)) in
     bind_run (int_result (success_count t_args + 1)) (\<lambda>n.
     Ret (t_args\<lparr>total_latency_ms := f64_add (total_latency_ms t_args) latency,
       max_latency_ms := (if f64_lt (max_latency_ms t_args) latency then latency else max_latency_ms t_args),
       min_latency_ms := (if f64_lt latency (min_latency_ms t_args) then latency else min_latency_ms t_args),
       success_count := n\<rparr>)))"

fun flow_loop :: "'s Conn \<Rightarrow> FlowEnv list \<Rightarrow> byte list \<Rightarrow> ('s \<times> byte list) \<times> ThreadArgs \<Rightarrow>
    (('s \<times> byte list) \<times> ThreadArgs) run" where
  "flow_loop conn [] acc_id (st, t_args) = Ret (st, t_args)"
| "flow_loop conn (fe # fes) acc_id (st, t_args) =
     bind_run (flow conn fe acc_id st) (\<lambda>st.
     bind_run (count_flow fe t_args) (\<lambda>t_args. flow_loop conn fes acc_id (st, t_args)))"

text \<open>
  \<open>worker_thread\<close>: the environment gives the flows it runs, as many as \<open>num_requests\<close>. \<open>account0\<close> is the
  array \<open>account_id\<close> before it is filled; the calls are those of theory \<open>Tls_Wrapper\<close>.
\<close>

definition stress_config :: "int \<Rightarrow> TLSConfig" where
  "stress_config verify = \<lparr>ca_cert_path = Some ''certificate/ca.crt'', server_cert_path = None, server_key_path = None,
     client_cert_path = Some ''certificate/client.crt'', client_key_path = Some ''certificate/client.key'', verify_peer = verify\<rparr>"

definition worker_thread :: "ClientOs \<Rightarrow> 's Conn \<Rightarrow> (nat \<Rightarrow> FlowEnv) \<Rightarrow> int \<Rightarrow> byte list \<Rightarrow> ThreadArgs \<Rightarrow> 's \<Rightarrow>
    (call list \<times> 's \<times> ThreadArgs) run" where
  "worker_thread os conn fes pid account0 t_args s =
     (let t_args = t_args\<lparr>min_latency_ms := f64_of_nat 999999, max_latency_ms := 0\<rparr> in
      case tls_create_client_context (os_lib os) (stress_config (verify_cert t_args)) of (made, ctx) \<Rightarrow>
      if ctx = None then Ret (made, s, t_args)
      else let sock = os_socket os; made = made @ (if sock < 0 then [] else [Acquire (Fd sock)]) in
        if os_connect os < 0 then Ret (made @ tls_cleanup_context ctx, s, t_args)
        else case tls_connect (os_lib os) sock (Some ''api.bank.com'') of (linked, ssl) \<Rightarrow>
          if ssl = None then Ret (made @ linked @ close_fd sock @ tls_cleanup_context ctx, s, t_args)
          else bind_run (c_snprintf account0 20 (chars ''user_'' @ c_dec pid @ chars ''_'' @ c_dec (thread_id t_args)))
            (\<lambda>acc_id.
            bind_run (flow_loop conn (map fes [0..<nat (num_requests t_args)]) acc_id ((s, replicate 10 0), t_args))
              (\<lambda>((s, code_buf), t_args).
              Ret (made @ linked @ tls_close ssl @ close_fd sock @ tls_cleanup_context ctx, s, t_args))))"

section \<open>main\<close>

text \<open>The arguments of thread \<open>i\<close> as \<open>main\<close> fills them; the other fields are what \<open>malloc\<close> gave.\<close>

definition thread_args :: "byte list \<Rightarrow> int \<Rightarrow> int \<Rightarrow> int \<Rightarrow> ThreadArgs \<Rightarrow> int \<Rightarrow> ThreadArgs" where
  "thread_args ip port reqs_per_thread verify raw i =
     raw\<lparr>thread_id := i, server_ip := ip, server_port := port, num_requests := reqs_per_thread,
       verify_cert := verify, success_count := 0, fail_count := 0, total_latency_ms := 0\<rparr>"

text \<open>The totals over the threads in the order they are joined: flows, sum, maximum and minimum of latencies.\<close>

definition join_thread :: "ThreadArgs \<Rightarrow> int \<times> f64 \<times> f64 \<times> f64 \<Rightarrow> (int \<times> f64 \<times> f64 \<times> f64) run" where
  "join_thread t tot = (case tot of (total_reqs, latency_sum, global_max, global_min) \<Rightarrow>
     bind_run (int_result (total_reqs + success_count t)) (\<lambda>total_reqs.
     Ret (total_reqs, f64_add latency_sum (total_latency_ms t),
      if f64_lt global_max (max_latency_ms t) then max_latency_ms t else global_max,
      if f64_lt (min_latency_ms t) global_min then min_latency_ms t else global_min)))"

fun join_threads :: "ThreadArgs list \<Rightarrow> int \<times> f64 \<times> f64 \<times> f64 \<Rightarrow> (int \<times> f64 \<times> f64 \<times> f64) run" where
  "join_threads [] tot = Ret tot"
| "join_threads (t # ts) tot = bind_run (join_thread t tot) (join_threads ts)"

definition stress_totals :: "ThreadArgs list \<Rightarrow> (int \<times> f64 \<times> f64 \<times> f64) run" where
  "stress_totals ts = join_threads ts (0, 0, 0, f64_of_nat 999999)"

text \<open>The command line: \<open>None\<close> is the usage message; then the address, port, threads, flows of each, \<open>verify\<close>.\<close>

definition DEFAULT_THREADS :: int where "DEFAULT_THREADS = 100"
definition DEFAULT_REQUESTS :: int where "DEFAULT_REQUESTS = 100"

definition int_argument :: "byte list list \<Rightarrow> nat \<Rightarrow> int \<Rightarrow> int run" where
  "int_argument argv i default_value = (if i < length argv then c_atoi (argv ! i) else Ret default_value)"

definition stress_arguments :: "byte list list \<Rightarrow> (byte list \<times> int \<times> int \<times> int \<times> int) option run" where
  "stress_arguments argv =
     (if length argv < 3 then Ret None
      else bind_run (c_atoi (argv ! 2)) (\<lambda>port.
        bind_run (int_argument argv 3 DEFAULT_THREADS) (\<lambda>num_threads.
        bind_run (int_argument argv 4 DEFAULT_REQUESTS) (\<lambda>reqs_per_thread.
        bind_run (int_argument argv 5 0) (\<lambda>verify.
          Ret (Some (argv ! 1, port, num_threads, reqs_per_thread, verify)))))))"

text \<open>The figures of the report: duration, flows, flows per second, average, minimum and maximum latency.\<close>

definition stress_figures :: "nat \<times> nat \<Rightarrow> nat \<times> nat \<Rightarrow> ThreadArgs list \<Rightarrow>
    (f64 \<times> int \<times> f64 \<times> f64 \<times> f64 \<times> f64) run" where
  "stress_figures start_tv end_tv ts = bind_run (stress_totals ts) (\<lambda>(total_reqs, latency_sum, global_max, global_min).
     let total_duration_sec = f64_div (f64_sub (get_time_ms end_tv) (get_time_ms start_tv)) (f64_of_nat 1000) in
     Ret (total_duration_sec, total_reqs, f64_div (f64_of_int total_reqs) total_duration_sec,
      f64_div latency_sum (f64_of_int total_reqs), global_min, global_max))"

text \<open>
  When no thread could connect, the average is not a number, and the minimum is the 999999 the threads
  start from.
\<close>

lemma figures_without_flows:
  assumes "\<forall>t\<in>set ts. success_count t = 0 \<and> total_latency_ms t = 0 \<and> max_latency_ms t = 0 \<and> min_latency_ms t = f64_of_nat 999999"
  shows "\<exists>dur thr avg. stress_figures s e ts = Ret (dur, 0, thr, avg, f64_of_nat 999999, 0) \<and> is_nan avg"
proof -
  have zero: "f64_mag 0 = 0" "\<not> f64_sign 0" "\<not> is_nan 0" "\<not> is_inf 0" "f64_make False 0 = 0"
    by (simp_all add: is_nan_def is_inf_def f64_sign_def f64_mag_def inf_mag_def f64_make_def)
  then have "f64_part k 0 = 0" for k by (simp add: f64_part_def mag_sig_def with_sign_def)
  then have add: "f64_add 0 0 = 0" using zero by (simp add: f64_add_def Let_def)
  have irrefl: "\<not> f64_lt x x" for x by (simp add: f64_lt_def)
  have tot: "stress_totals ts = Ret (0, 0, 0, f64_of_nat 999999)"
    using assms unfolding stress_totals_def
    by (induction ts) (simp_all add: join_thread_def add irrefl int_result_def C_INT_MAX_def)
  have int0: "f64_of_int 0 = 0" using zero by (simp add: f64_of_int_def round_mag_def)
  have "is_nan (f64_div 0 (f64_of_int 0))"
  proof -
    have "f64_div 0 0 = f64_default_nan" using zero by (simp add: f64_div_def)
    then show ?thesis by (simp only: int0) (simp add: f64_default_nan_def is_nan_def inf_mag_def)
  qed
  then show ?thesis by (simp add: stress_figures_def tot Let_def)
qed

section \<open>The two request functions\<close>

lemma unpack_request_results: "unpack_request p buf sz = Ret (b, r) \<Longrightarrow> r = 0 \<or> r = -1"
  by (auto simp: unpack_request_def bind_run_eq_Ret Let_def split: if_splits)

text \<open>
  C27: the stress client's requests are the interactive client's. Over any connection and for any request,
  \<open>perform_request\<close> sends and reads what \<open>send_request\<close> does, faults when it does, and leaves the same
  response and the same result; the two differ in what they print only.
\<close>

theorem perform_request_is_send_request:
  "perform_request conn env s opcode req_data req_size response =
     bind_run (send_request conn env s opcode req_data req_size response) (\<lambda>(s, response, r, printed). Ret (s, response, r))"
proof (cases "pack_request (client_rand env) (req_packet0 env) opcode (Some req_data) req_size")
  case (Ret pr)
  obtain p r where pr: "pr = (p, r)" by (cases pr)
  have unpacked: "unpack_response q response = Ret (x, y) \<Longrightarrow> y = 0 \<or> y = -1" for q x y
    using unpack_request_results by (fastforce simp: unpack_response_def bind_run_eq_Ret)
  obtain s1 w where w: "tls_write conn s (packet_bytes p) = (s1, w)" by fastforce
  obtain s2 got where got: "tls_read conn s1 PACKET_SIZE = (s2, got)" by fastforce
  show ?thesis
  proof (cases got)
    case (Some bytes)
    let ?m = "unpack_response (packet_of_bytes (put_bytes (resp_packet0 env) bytes)) response"
    show ?thesis
    proof (cases ?m)
      case m: (Ret xy)
      obtain x y where "xy = (x, y)" by (cases xy)
      with m unpacked have "?m = Ret (x, y)" "y = 0 \<or> y = -1" by blast+
      then show ?thesis by (auto simp: perform_request_def send_request_def Ret pr w got Some)
    qed (simp add: perform_request_def send_request_def Ret pr w got Some)
  qed (simp add: perform_request_def send_request_def Ret pr w got)
qed (simp add: perform_request_def send_request_def)

lemma perform_exchange:
  assumes "stack_ok env" "client_env_ok e" "length d \<le> 30" "length (BankingResponse.message r0) = 256"
    and "dispatch link env w (packed (client_rand e) op d) = Ret (w', resp)" "length (BankingResponse.message resp) = 256"
  shows "perform_request (bank_conn link env) e (w, True, []) op d (length d) r0 = Ret ((w', True, []), resp, 0)"
proof -
  obtain out where out:
    "tls_write (bank_conn link env) (w, True, []) (packet_bytes (packed (client_rand e) op d)) = ((w', True, [out]), 1036)"
    "tls_read (bank_conn link env) (w', True, [out]) PACKET_SIZE = ((w', True, []), Some out)" "length out = PACKET_SIZE"
    "unpack_response (packet_of_bytes out) r0 = Ret (resp, 0)"
    using bank_conn_exchange [OF assms(1,3,5,6)] assms(4) by metis
  then show ?thesis using assms(2)
    by (simp add: perform_request_def pack_request_packed [OF assms(3)] client_env_ok_def)
qed

interpretation flow_teller: teller "\<lambda>(env, e). perform_request (bank_conn link env) e"
  "\<lambda>(env, e). stack_ok env \<and> client_env_ok e" line_ready line_bank
proof (unfold_locales, goal_cases)
  case (1 e s x r0)
  obtain env c where e: "e = (env, c)" by (cases e)
  with 1 have ok: "stack_ok env" "client_env_ok c" by auto
  obtain d peer d' r v where t: "s = ((Some d, peer), True, [])" "line_ready ((Some d', peer), True, [])"
    "dispatch link env (Some d, peer) (packed (client_rand c) (op_code_of x) (op_payload x))
      = Ret ((Some d', peer), bank_reply x r v (balance_stack env))"
    "spec_step (line_bank s) x = (line_bank ((Some d', peer), True, []), r, v)"
    by (rule transaction_dispatched [OF 1(2,3) ok(1), of link "client_rand c"])
  show ?case
    using perform_exchange [OF ok valid_op_length [OF 1(3)] 1(4) t(3)] t
    by (auto simp: e bank_reply_def simp del: spec_step.simps)
qed

section \<open>A flow through the three programs\<close>

definition flow_env_ok :: "FlowEnv \<Rightarrow> bool" where
  "flow_env_ok fe \<longleftrightarrow> client_env_ok (create_env fe) \<and> client_env_ok (otp_env fe) \<and> client_env_ok (login_env fe)
     \<and> client_env_ok (deposit_env fe) \<and> length (login_otp0 fe) = 10"

lemma redeem_frees: "slot_redeem xs s c = Some ys \<Longrightarrow> slot_issue ys s' c' \<noteq> None"
proof (induction xs arbitrary: ys)
  case (Cons x xs)
  then show ?case by (cases x) (auto split: if_splits)
qed simp

lemma id_copied:
  assumes "terminated acc" "length acc = 20" 
  shows "length buf = 20 \<Longrightarrow> c_strncpy buf acc 20 = Ret (zero_pad 20 (string_of acc))"
    "valid_id (zero_pad 20 (string_of acc))"
proof -
  have "length (string_of acc) < 20" using string_of_shorter [OF assms(1)] assms(2) by simp
  then show "length buf = 20 \<Longrightarrow> c_strncpy buf acc 20 = Ret (zero_pad 20 (string_of acc))"
    "valid_id (zero_pad 20 (string_of acc))"
    using assms by (simp_all add: c_strncpy_def strncpy_image_terminated c_write_def zero_pad_def valid_id_def ACCOUNT_ID_LEN_def)
qed

text \<open>The code is cut out of the message and put into the login request.\<close>

lemma code_extracted:
  assumes "length ds = 6" "0 \<notin> set ds" "length buf = 10" "length otp0 = 10"
  shows "c_strstr (zero_pad 256 (take 255 (chars ''OTP Generated: '' @ ds))) (chars '': '')
      = Ret (Some (chars '': '' @ ds @ replicate 235 0))"
    "c_strncpy buf (drop 2 (chars '': '' @ ds @ replicate 235 0)) 8 = Ret (ds @ [0, 0] @ drop 8 buf)"
    "c_strncpy otp0 ((ds @ [0, 0] @ drop 8 buf)[8 := 0]) 10 = Ret (zero_pad 10 ds)"
proof -
  have "c_strstr (chars ''OTP Generated'' @ chars '': '' @ ds @ replicate 235 0) (chars '': '')
      = c_strstr (chars '': '' @ ds @ replicate 235 0) (chars '': '')"
    by (simp add: chars_def)
  also have "\<dots> = Ret (Some (chars '': '' @ ds @ replicate 235 0))" by (rule c_strstr_here) (simp add: chars_def)
  finally show "c_strstr (zero_pad 256 (take 255 (chars ''OTP Generated: '' @ ds))) (chars '': '')
      = Ret (Some (chars '': '' @ ds @ replicate 235 0))"
    using assms(1) by (simp add: zero_pad_def chars_def)
  have "string_of (ds @ replicate 235 0) = ds" by (rule string_of_append_zeros [OF assms(2)])
  moreover have "terminated (ds @ replicate 235 0)" by simp
  ultimately have "strncpy_image (ds @ replicate 235 0) 8 = Ret (ds @ [0, 0])"
    using assms(1) by (simp only: strncpy_image_terminated) (simp add: numeral_2_eq_2)
  moreover have "drop 2 (chars '': '' @ x) = x" for x by (simp add: chars_def)
  ultimately show "c_strncpy buf (drop 2 (chars '': '' @ ds @ replicate 235 0)) 8 = Ret (ds @ [0, 0] @ drop 8 buf)"
    using assms by (simp only: c_strncpy_def) (simp add: c_write_def put_bytes_def)
  have "string_of ((ds @ [0, 0] @ drop 8 buf)[8 := 0]) = ds"
    using assms by (simp add: list_update_append string_of_append_nul)
  then show "c_strncpy otp0 ((ds @ [0, 0] @ drop 8 buf)[8 := 0]) 10 = Ret (zero_pad 10 ds)"
    using assms by (simp add: c_strncpy_def strncpy_image_terminated c_write_def zero_pad_def list_update_append)
qed

text \<open>The state of the two servers, and the operations of a flow on the bank.\<close>

abbreviation service :: "AccountDB \<Rightarrow> OtpEntry list \<Rightarrow> nat \<Rightarrow> (OtpEntry list \<times> nat) line" where
  "service d odb k \<equiv> ((Some d, (odb, k)), True, [])"

definition draws_ok :: "(nat \<Rightarrow> nat \<times> int \<times> byte list) \<Rightarrow> bool" where
  "draws_ok draws \<longleftrightarrow> (\<forall>k. length (snd (snd (draws k))) = IPC_REQUEST_SIZE)"

definition flow_ops :: "byte list \<Rightarrow> account_op list" where
  "flow_ops s = [Create s (f64_of_nat 1000), Deposit s (f64_of_nat 100)]"

lemma reply_status [simp]: "BankingResponse.status (reply_with r b t) = word_of_int r"
  by (simp add: reply_with_def)

lemma login_granted:
  assumes "db_wf d" "otp_wf odb" "stack_ok env" "flow_env_ok fe" "draws_ok draws"
    and "terminated acc" "length acc = 20" "length buf = 10" "length (BankingResponse.message r0) = 256"
    and "slot_redeem (otp_abs odb) (string_of acc) ds = Some ys" "length ds = 6" "0 \<notin> set ds"
  shows "\<exists>d' odb'. flow_login (bank_conn (otp_feed draws) env) fe acc ((ds @ [0, 0] @ drop 8 buf)[8 := 0]) r0 (service d odb k)
      = Ret (service d' odb' (Suc k))
    \<and> db_wf d' \<and> otp_wf odb' \<and> otp_abs odb' = ys
    \<and> db_abs d' = fst (spec_step (db_abs d) (Deposit (zero_pad 20 (string_of acc)) (f64_of_nat 100)))"
proof -
  let ?s = "zero_pad 20 (string_of acc)" and ?code = "zero_pad 10 ds" and ?link = "otp_feed draws"
  obtain rnd t stk where draw: "draws k = (rnd, t, stk)" by (cases "draws k")
  have stk: "length stk = IPC_REQUEST_SIZE" using assms(5) draw by (force simp: draws_ok_def dest: spec [of _ k])
  have link: "answers ?link (odb, k) (\<lambda>x. (x, Suc k)) rnd t stk odb" using draw by (rule answers_feed)
  have ids: "c_strncpy (id0 (login_env fe)) acc 20 = Ret ?s" "c_strncpy (id0 (deposit_env fe)) acc 20 = Ret ?s" "valid_id ?s"
    "string_of ?s = string_of acc"
    using id_copied [OF assms(6,7)] assms(4) by (simp_all add: flow_env_ok_def client_env_ok_def)
  have code: "c_strncpy (login_otp0 fe) ((ds @ [0, 0] @ drop 8 buf)[8 := 0]) 10 = Ret ?code"
    using code_extracted(3) [OF assms(11,12,8)] assms(4) by (simp add: flow_env_ok_def)
  have c: "length ?code = 10" "terminated ?code" "take 7 (string_of ?code) = ds" using assms(11,12) by simp_all
  obtain odb' resp where login: "dispatch ?link env (Some d, (odb, k)) (login_packet (client_rand (login_env fe)) ?s ?code)
      = Ret ((Some d, (odb', Suc k)), resp)" "otp_wf odb'" "otp_abs odb' = ys" "resp = reply_with 0 0 (chars ''Login Successful'')"
    using login_dispatched [OF assms(2) ids(3) c(1,2) assms(3) stk link, of "Some d" "client_rand (login_env fe)"]
      assms(10) c(3) ids(4) by auto
  have len: "length (login_bytes \<lparr>LoginRequest.account_id = ?s, LoginRequest.otp = ?code\<rparr>) = LOGIN_SIZE"
    using ids(3) c(1) by (intro login_struct.length_enc) (simp add: valid_id_def ACCOUNT_ID_LEN_def)
  have one: "perform_request (bank_conn ?link env) (login_env fe) (service d odb k) OP_LOGIN
      (login_bytes \<lparr>LoginRequest.account_id = ?s, LoginRequest.otp = ?code\<rparr>) LOGIN_SIZE r0 = Ret (service d odb' (Suc k), resp, 0)"
    using perform_exchange [OF assms(3) _ _ assms(9) login(1) [unfolded login_packet_def]] assms(4) login(4) len
    by (simp add: flow_env_ok_def LOGIN_SIZE_def)
  let ?x = "Deposit ?s (f64_of_nat 100)"
  have x: "valid_op ?x" using ids(3) by simp
  obtain d' r v where dep: "dispatch ?link env (Some d, (odb', Suc k)) (packed (client_rand (deposit_env fe)) OP_DEPOSIT (op_payload ?x))
      = Ret ((Some d', (odb', Suc k)), bank_reply ?x r v (balance_stack env))" "db_wf d'"
    "spec_step (db_abs d) ?x = (db_abs d', r, v)"
    using dispatch_runs [OF assms(1) x assms(3), of ?link "(odb', Suc k)" "client_rand (deposit_env fe)"]
    by (auto simp: client_packet_def simp del: spec_step.simps)
  have "length ?s = 20" using ids(3) by (simp add: valid_id_def ACCOUNT_ID_LEN_def)
  then have size: "length (op_payload ?x) = DEPOSIT_SIZE" by (rule op_payload_length(3))
  have two: "perform_request (bank_conn ?link env) (deposit_env fe) (service d odb' (Suc k)) OP_DEPOSIT (op_payload ?x) DEPOSIT_SIZE resp
      = Ret (service d' odb' (Suc k), bank_reply ?x r v (balance_stack env), 0)"
    using perform_exchange [OF assms(3) _ valid_op_length [OF x] _ dep(1), of resp] assms(4) login(4) size
    by (simp add: flow_env_ok_def bank_reply_def)
  have "flow_login (bank_conn ?link env) fe acc ((ds @ [0, 0] @ drop 8 buf)[8 := 0]) r0 (service d odb k)
      = Ret (service d' odb' (Suc k))"
    using one two [unfolded op_payload.simps] unfolding login(4)
    by (simp only: flow_login_def ids(1,2) code bind_run.simps prod.case reply_status of_int_0 simp_thms if_True)
  then show ?thesis using dep(2,3) login(2,3) by (simp del: spec_step.simps)
qed

lemma flow_runs:
  assumes "db_wf d" "otp_wf odb" "stack_ok env" "flow_env_ok fe" "draws_ok draws"
    and "terminated acc" "length acc = 20" "length buf = 10" "\<And>c. slot_issue (otp_abs odb) (string_of acc) c \<noteq> None"
  shows "\<exists>d' odb' buf'. flow (bank_conn (otp_feed draws) env) fe acc (service d odb k, buf)
      = Ret (service d' odb' (Suc (Suc k)), buf')
    \<and> db_wf d' \<and> otp_wf odb' \<and> length buf' = 10 \<and> (\<forall>c. slot_issue (otp_abs odb') (string_of acc) c \<noteq> None)
    \<and> db_abs d' = fst (run_spec spec_step (db_abs d) (flow_ops (zero_pad 20 (string_of acc))))"
proof -
  let ?s = "zero_pad 20 (string_of acc)" and ?link = "otp_feed draws"
  obtain rnd t stk where draw: "draws k = (rnd, t, stk)" by (cases "draws k")
  have stk: "length stk = IPC_REQUEST_SIZE" using assms(5) draw by (force simp: draws_ok_def dest: spec [of _ k])
  have link: "answers ?link (odb, k) (\<lambda>x. (x, Suc k)) rnd t stk odb" using draw by (rule answers_feed)
  have ids: "c_strncpy (id0 (create_env fe)) acc 20 = Ret ?s" "c_strncpy (id0 (otp_env fe)) acc 20 = Ret ?s" "valid_id ?s"
    "string_of ?s = string_of acc"
    using id_copied [OF assms(6,7)] assms(4) by (simp_all add: flow_env_ok_def client_env_ok_def)
  have len: "length ?s = 20" using ids(3) by (simp add: valid_id_def ACCOUNT_ID_LEN_def)
  let ?x = "Create ?s (f64_of_nat 1000)"
  have x: "valid_op ?x" using ids(3) by simp
  obtain d1 r v where cre: "dispatch ?link env (Some d, (odb, k)) (packed (client_rand (create_env fe)) OP_CREATE_ACCOUNT (op_payload ?x))
      = Ret ((Some d1, (odb, k)), bank_reply ?x r v (balance_stack env))" "db_wf d1"
    "spec_step (db_abs d) ?x = (db_abs d1, r, v)"
    using dispatch_runs [OF assms(1) x assms(3), of ?link "(odb, k)" "client_rand (create_env fe)"]
    by (auto simp: client_packet_def simp del: spec_step.simps)
  let ?resp = "bank_reply ?x r v (balance_stack env)"
  have one: "perform_request (bank_conn ?link env) (create_env fe) (service d odb k) OP_CREATE_ACCOUNT (op_payload ?x) CREATE_SIZE
      (response0 (create_env fe)) = Ret (service d1 odb k, ?resp, 0)"
    using perform_exchange [OF assms(3) _ valid_op_length [OF x] _ cre(1), of "response0 (create_env fe)"] assms(4)
      op_payload_length(2) [OF len]
    by (simp add: flow_env_ok_def client_env_ok_def bank_reply_def)
  obtain xs where issue: "slot_issue (otp_abs odb) (string_of acc) (otp_digits rnd) = Some xs" using assms(9) by fastforce
  obtain odb1 where gen: "dispatch ?link env (Some d1, (odb, k)) (otp_packet (client_rand (otp_env fe)) ?s)
      = Ret ((Some d1, (odb1, Suc k)), reply_with 0 0 (chars ''OTP Generated: '' @ otp_digits rnd))" "otp_wf odb1" "otp_abs odb1 = xs"
    using otp_request_dispatched [OF assms(2) ids(3) assms(3) stk link, of "Some d1" "client_rand (otp_env fe)"]
      issue ids(4) by auto
  have "length (otp_request_bytes \<lparr>OtpRequest.account_id = ?s\<rparr>) = OTP_REQUEST_SIZE"
    using len by (intro otp_request_struct.length_enc) simp
  then have two: "perform_request (bank_conn ?link env) (otp_env fe) (service d1 odb k) OP_REQ_OTP
      (otp_request_bytes \<lparr>OtpRequest.account_id = ?s\<rparr>) OTP_REQUEST_SIZE ?resp
      = Ret (service d1 odb1 (Suc k), reply_with 0 0 (chars ''OTP Generated: '' @ otp_digits rnd), 0)"
    using perform_exchange [OF assms(3) _ _ _ gen(1) [unfolded otp_packet_def], of ?resp] assms(4)
    by (simp add: flow_env_ok_def bank_reply_def OTP_REQUEST_SIZE_def)
  have "length (replicate 10 (0 :: byte)) = 10" by simp
  note cut = code_extracted [OF length_otp_digits otp_digits_no_nul assms(8) this, of rnd]
  obtain ys where redeem: "slot_redeem (otp_abs odb1) (string_of acc) (otp_digits rnd) = Some ys"
    using redeem_issued [OF issue] gen(3) by blast
  obtain d' odb' where login: "flow_login (bank_conn ?link env) fe acc ((otp_digits rnd @ [0, 0] @ drop 8 buf)[8 := 0])
      (reply_with 0 0 (chars ''OTP Generated: '' @ otp_digits rnd)) (service d1 odb1 (Suc k)) = Ret (service d' odb' (Suc (Suc k)))"
    "db_wf d'" "otp_wf odb'" "otp_abs odb' = ys" "db_abs d' = fst (spec_step (db_abs d1) (Deposit ?s (f64_of_nat 100)))"
    using login_granted [OF cre(2) gen(2) assms(3-8) length_reply redeem length_otp_digits otp_digits_no_nul] by blast
  have msg: "BankingResponse.message (reply_with 0 0 (chars ''OTP Generated: '' @ otp_digits rnd))
      = zero_pad 256 (take 255 (chars ''OTP Generated: '' @ otp_digits rnd))"
    by (simp only: reply_with_def BankingResponse.simps)
  have "flow (bank_conn ?link env) fe acc (service d odb k, buf)
      = Ret (service d' odb' (Suc (Suc k)), (otp_digits rnd @ [0, 0] @ drop 8 buf)[8 := 0])"
    using one [unfolded op_payload.simps] two login(1)
    by (simp only: flow_def prod.case ids bind_run.simps if_True if_False simp_thms reply_status of_int_0 msg cut option.case)
  moreover have "db_abs d' = fst (run_spec spec_step (db_abs d) (flow_ops ?s))"
    using cre(3) login(5) by (simp add: flow_ops_def split_def Let_def del: spec_step.simps)
  moreover have "length ((otp_digits rnd @ [0, 0] @ drop 8 buf)[8 := 0]) = 10" using assms(8) by simp
  ultimately show ?thesis using login(2-4) redeem_frees [OF redeem] by blast
qed

section \<open>The loop\<close>

lemma run_spec_append: "fst (run_spec spec m (xs @ ys)) = fst (run_spec spec (fst (run_spec spec m xs)) ys)"
  by (induction xs arbitrary: m) (simp_all add: split_def Let_def)

lemma count_flow_counts:
  assumes "0 \<le> success_count t" "success_count t < C_INT_MAX"
  obtains t' where "count_flow fe t = Ret t'" "success_count t' = success_count t + 1" "fail_count t' = fail_count t"
  using assms that by (simp add: count_flow_def Let_def int_result_nonneg)

lemma flow_loop_runs:
  assumes "db_wf d" "otp_wf odb" "stack_ok env" "\<forall>fe\<in>set fes. flow_env_ok fe" "draws_ok draws"
    and "terminated acc" "length acc = 20" "length buf = 10" "\<forall>c. slot_issue (otp_abs odb) (string_of acc) c \<noteq> None"
    and "0 \<le> success_count t" "success_count t + int (length fes) \<le> C_INT_MAX"
  shows "\<exists>d' odb' k' buf' t'. flow_loop (bank_conn (otp_feed draws) env) fes acc ((service d odb k, buf), t)
      = Ret ((service d' odb' k', buf'), t')
    \<and> db_wf d' \<and> otp_wf odb' \<and> success_count t' = success_count t + int (length fes) \<and> fail_count t' = fail_count t
    \<and> db_abs d' = fst (run_spec spec_step (db_abs d) (concat (replicate (length fes) (flow_ops (zero_pad 20 (string_of acc))))))"
  using assms
proof (induction fes arbitrary: d odb k buf t)
  case (Cons fe fes)
  have fe: "flow_env_ok fe" "\<forall>fe\<in>set fes. flow_env_ok fe" using Cons.prems(4) by simp_all
  obtain d1 odb1 buf1 where one: "flow (bank_conn (otp_feed draws) env) fe acc (service d odb k, buf)
      = Ret (service d1 odb1 (Suc (Suc k)), buf1)" "db_wf d1" "otp_wf odb1" "length buf1 = 10"
    "\<forall>c. slot_issue (otp_abs odb1) (string_of acc) c \<noteq> None"
    "db_abs d1 = fst (run_spec spec_step (db_abs d) (flow_ops (zero_pad 20 (string_of acc))))"
    using flow_runs [OF Cons.prems(1-3) fe(1) Cons.prems(5-8), of k] Cons.prems(9) by blast
  obtain t1 where t1: "count_flow fe t = Ret t1" "success_count t1 = success_count t + 1" "fail_count t1 = fail_count t"
    using count_flow_counts [of t fe] Cons.prems(10,11) by auto
  obtain d' odb' k' buf' t' where rest: "flow_loop (bank_conn (otp_feed draws) env) fes acc
      ((service d1 odb1 (Suc (Suc k)), buf1), t1) = Ret ((service d' odb' k', buf'), t')"
    "db_wf d'" "otp_wf odb'" "success_count t' = success_count t + 1 + int (length fes)" "fail_count t' = fail_count t"
    "db_abs d' = fst (run_spec spec_step (db_abs d1) (concat (replicate (length fes) (flow_ops (zero_pad 20 (string_of acc))))))"
    using Cons.IH [OF one(2,3) Cons.prems(3) fe(2) Cons.prems(5-7) one(4,5), of t1 "Suc (Suc k)"] t1(2,3) Cons.prems(10,11) by auto
  show ?case using one(1) t1(1) rest one(6) by (simp add: run_spec_append)
qed simp

text \<open>What the operations of \<open>n\<close> flows do to an account.\<close>

lemma flow_spec_old:
  assumes "m (string_of s) = Some (f64_of_nat b)" "b + 100 * n < 2 ^ 53"
  shows "fst (run_spec spec_step m (concat (replicate n (flow_ops s)))) = m(string_of s \<mapsto> f64_of_nat (b + 100 * n))"
  using assms
proof (induction n arbitrary: m b)
  case 0
  then show ?case by (simp add: fun_upd_idem)
next
  case (Suc n)
  have pos: "\<not> f64_lt (f64_of_nat 1000) 0" "\<not> f64_le (f64_of_nat 100) 0"
    using f64_of_nat_lt [of 1000 0] f64_of_nat_le [of 100 0] by simp_all
  have sum: "f64_add (f64_of_nat b) (f64_of_nat 100) = f64_of_nat (b + 100)"
    using Suc.prems(2) by (intro f64_of_nat_add) simp
  have "fst (run_spec spec_step m (flow_ops s)) = m(string_of s \<mapsto> f64_of_nat (b + 100))"
    using Suc.prems(1) pos sum by (simp add: flow_ops_def Let_def split_def)
  moreover have small: "b + 100 + 100 * n < 2 ^ 53" using Suc.prems(2) by simp
  have "fst (run_spec spec_step (m(string_of s \<mapsto> f64_of_nat (b + 100))) (concat (replicate n (flow_ops s))))
      = m(string_of s \<mapsto> f64_of_nat (b + 100 + 100 * n))"
    using Suc.IH [of "m(string_of s \<mapsto> f64_of_nat (b + 100))" "b + 100", OF _ small] by (simp only: fun_upd_same fun_upd_upd simp_thms)
  ultimately show ?case by (simp add: run_spec_append add.assoc del: run_spec.simps)
qed

lemma flow_spec_new:
  assumes "m (string_of s) = None" "card (dom m) < MAX_ACCOUNTS" "0 < n" "1000 + 100 * n < 2 ^ 53"
  shows "fst (run_spec spec_step m (concat (replicate n (flow_ops s)))) = m(string_of s \<mapsto> f64_of_nat (1000 + 100 * n))"
proof -
  obtain j where n: "n = Suc j" using assms(3) by (cases n) auto
  have pos: "\<not> f64_lt (f64_of_nat 1000) 0" "\<not> f64_le (f64_of_nat 100) 0"
    using f64_of_nat_lt [of 1000 0] f64_of_nat_le [of 100 0] by simp_all
  have sum: "f64_add (f64_of_nat 1000) (f64_of_nat 100) = f64_of_nat 1100"
    using f64_of_nat_add [of 1000 100] by simp
  have "fst (run_spec spec_step m (flow_ops s)) = m(string_of s \<mapsto> f64_of_nat 1100)"
    using assms(1,2) pos sum by (simp add: flow_ops_def Let_def split_def)
  moreover have "fst (run_spec spec_step (m(string_of s \<mapsto> f64_of_nat 1100)) (concat (replicate j (flow_ops s))))
      = m(string_of s \<mapsto> f64_of_nat (1100 + 100 * j))"
    using flow_spec_old [of "m(string_of s \<mapsto> f64_of_nat 1100)" s 1100 j] assms(4) n by simp
  ultimately show ?thesis by (simp add: n run_spec_append del: run_spec.simps)
qed

section \<open>Properties\<close>

text \<open>The name a thread gives its account: what fits of \<open>user_<pid>_<thread>\<close>.\<close>

definition stress_name :: "int \<Rightarrow> int \<Rightarrow> byte list" where
  "stress_name pid i = take 19 (chars ''user_'' @ c_dec pid @ chars ''_'' @ c_dec i)"

lemma c_dec_no_nul [simp]: "0 \<notin> set (c_dec v)"
  by (auto simp: c_dec_def chars_def)

lemma stress_account:
  assumes "length account0 = 20"
  obtains acc where "c_snprintf account0 20 (chars ''user_'' @ c_dec pid @ chars ''_'' @ c_dec i) = Ret acc"
    "length acc = 20" "terminated acc" "string_of acc = stress_name pid i"
proof -
  let ?t = "chars ''user_'' @ c_dec pid @ chars ''_'' @ c_dec i"
  let ?acc = "take 19 ?t @ 0 # drop (Suc (min (length ?t) 19)) account0"
  have "0 \<notin> set ?t" by (auto simp: chars_def)
  then have "0 \<notin> set (take 19 ?t)" by (auto dest: in_set_takeD)
  then have "string_of ?acc = stress_name pid i" unfolding stress_name_def by (rule string_of_append_nul)
  moreover have "c_snprintf account0 20 ?t = Ret ?acc" using assms by (subst c_snprintf_fits) simp_all
  moreover have "length ?acc = 20" using assms by simp
  ultimately show ?thesis using that by auto
qed

text \<open>
  C7: the stress test's flows go through. Take a thread that starts as \<open>main\<close> starts it, whose connection
  stands, and whose account does not exist yet, on a bank with room for it and a password server that
  has a slot for it. It runs its \<open>n\<close> flows to the end through the client, the bank and the password server:
  every login is granted, whatever codes the password server draws, the account ends at 1000 plus 100
  for each flow and no other account changes, both tables stay well-formed, the thread counts \<open>n\<close>
  successes, and it gives back what it took. So a flow ends with its deposit: the withdrawal and the
  balance query that the comment on the sequence names are not made.
\<close>

theorem stress_flows_go_through:
  assumes "db_wf d" "otp_wf odb" "stack_ok env" "\<forall>i. flow_env_ok (fes i)" "draws_ok draws" "length account0 = 20"
    and "name = stress_name pid (thread_id t)" "db_abs d name = None" "card (dom (db_abs d)) < MAX_ACCOUNTS"
    and "\<forall>c. slot_issue (otp_abs odb) name c \<noteq> None"
    and "num_requests t = int n" "0 < n" "int n \<le> C_INT_MAX" "success_count t = 0" "fail_count t = 0"
    and "os_fresh os {}" "0 \<le> os_socket os" "0 \<le> os_connect os" "ctx_new (os_lib os) \<noteq> None"
    and "0 < load_ca (os_lib os) (Some ''certificate/ca.crt'')" "ssl_new (os_lib os) \<noteq> None" "0 < connect_result (os_lib os)"
  shows "\<exists>cs d' odb' k' t'. worker_thread os (bank_conn (otp_feed draws) env) fes pid account0 t (service d odb k)
      = Ret (cs, service d' odb' k', t')
    \<and> db_wf d' \<and> otp_wf odb' \<and> db_abs d' = (db_abs d)(name \<mapsto> f64_of_nat (1000 + 100 * n))
    \<and> success_count t' = int n \<and> fail_count t' = 0 \<and> live {} cs = Some {}"
proof -
  obtain made ctx linked ssl where
    ctx: "tls_create_client_context (os_lib os) (stress_config (verify_cert t)) = (made, ctx)" "ctx \<noteq> None" and
    ssl: "tls_connect (os_lib os) (os_socket os) (Some ''api.bank.com'') = (linked, ssl)" "ssl \<noteq> None"
    using assms(19-22) by (auto simp: tls_create_client_context_def tls_connect_def stress_config_def Let_def)
  let ?t = "t\<lparr>min_latency_ms := f64_of_nat 999999, max_latency_ms := 0\<rparr>"
  obtain acc where acc: "c_snprintf account0 20 (chars ''user_'' @ c_dec pid @ chars ''_'' @ c_dec (thread_id t)) = Ret acc"
    "length acc = 20" "terminated acc" "string_of acc = name"
    unfolding assms(7) by (rule stress_account [OF assms(6)])
  have fes: "\<forall>fe\<in>set (map fes [0..<n]). flow_env_ok fe" using assms(4) by simp
  have slot: "\<forall>c. slot_issue (otp_abs odb) (string_of acc) c \<noteq> None" using assms(10) acc(4) by simp
  have buf: "length (replicate 10 (0 :: byte)) = 10" by simp
  obtain d' odb' k' buf' t' where loop: "flow_loop (bank_conn (otp_feed draws) env) (map fes [0..<n]) acc
      ((service d odb k, replicate 10 0), ?t) = Ret ((service d' odb' k', buf'), t')" "db_wf d'" "otp_wf odb'"
    "success_count t' = int n" "fail_count t' = 0"
    "db_abs d' = fst (run_spec spec_step (db_abs d) (concat (replicate n (flow_ops (zero_pad 20 name)))))"
    using flow_loop_runs [OF assms(1-3) fes assms(5) acc(3,2) buf slot, of ?t k] acc(4) assms(13-15) by auto
  have small: "1000 + 100 * n < 2 ^ 53" using assms(13) by (simp add: C_INT_MAX_def)
  have "string_of (zero_pad 20 name) = name"
    using acc(4) by (intro string_of_zero_pad) (metis string_of_no_nul)
  then have bank: "db_abs d' = (db_abs d)(name \<mapsto> f64_of_nat (1000 + 100 * n))"
    using flow_spec_new [of "db_abs d" "zero_pad 20 name" n] assms(8,9,12) small loop(6) by simp
  have "worker_thread os (bank_conn (otp_feed draws) env) fes pid account0 t (service d odb k)
      = Ret (made @ [Acquire (Fd (os_socket os))] @ linked @ tls_close ssl @ close_fd (os_socket os) @ tls_cleanup_context ctx,
          service d' odb' k', t')"
    using ctx ssl acc(1) loop(1) assms(11,17,18) by (auto simp: worker_thread_def Let_def)
  then show ?thesis
    using loop(2-5) bank client_calls_balanced(2) [OF assms(16) ctx(1) refl assms(17) ssl(1)] by blast
qed

text \<open>A thread, flows, and draws for concrete runs.\<close>

definition demo_thread :: ThreadArgs where
  "demo_thread = \<lparr>thread_id = 0, server_ip = chars ''127.0.0.1'', server_port = 8888, verify_cert = 0, num_requests = 2,
     success_count = 0, fail_count = 0, total_latency_ms = 0, max_latency_ms = 7, min_latency_ms = 7\<rparr>"

definition demo_flow :: "nat \<Rightarrow> FlowEnv" where
  "demo_flow i = \<lparr>create_env = demo_client 0, otp_env = demo_client 1, login_env = demo_client 2, deposit_env = demo_client 3,
     login_otp0 = replicate 10 1, started = (i, 0), ended = (i, 500)\<rparr>"

lemma demo_flow_ok: "flow_env_ok (demo_flow i)"
  by (simp add: flow_env_ok_def demo_flow_def)

theorem stress_flows_go_through_witness:
  "\<exists>cs d' odb' k' t'. worker_thread demo_os (bank_conn (otp_feed (\<lambda>k. (k, int k, replicate 44 0))) demo_env) demo_flow 1
      (replicate 20 9) demo_thread (service demo_db zero_otp_db 0) = Ret (cs, service d' odb' k', t')
    \<and> db_abs d' = (db_abs demo_db)(stress_name 1 0 \<mapsto> f64_of_nat 1200) \<and> success_count t' = 2"
proof -
  have "stress_name 1 0 \<noteq> chars ''alice''"
    by (simp add: stress_name_def chars_def)
  then have fresh: "db_abs demo_db (stress_name 1 0) = None" by simp
  have "slot_issue (otp_abs zero_otp_db) s c = Some (Some (s, c) # replicate 99 None)" for s c
    using issue_next [of s "[]" 99 c] by (simp add: zero_otp_db_wf(2) MAX_OTPS_def)
  then have slot: "\<forall>c. slot_issue (otp_abs zero_otp_db) (stress_name 1 0) c \<noteq> None" by simp
  have "\<exists>cs d' odb' k' t'. worker_thread demo_os (bank_conn (otp_feed (\<lambda>k. (k, int k, replicate 44 0))) demo_env) demo_flow 1
      (replicate 20 9) demo_thread (service demo_db zero_otp_db 0) = Ret (cs, service d' odb' k', t')
    \<and> db_wf d' \<and> otp_wf odb' \<and> db_abs d' = (db_abs demo_db)(stress_name 1 0 \<mapsto> f64_of_nat (1000 + 100 * 2))
    \<and> success_count t' = int 2 \<and> fail_count t' = 0 \<and> live {} cs = Some {}"
    using fresh slot demo_flow_ok
    by (intro stress_flows_go_through)
       (simp_all add: demo_thread_def draws_ok_def IPC_REQUEST_SIZE_def zero_otp_db_wf MAX_ACCOUNTS_def C_INT_MAX_def demo_os_def demo_ssl_def
         os_fresh_def fresh_ctx_def fresh_ssl_def)
  then show ?thesis by (auto simp: demo_thread_def)
qed

text \<open>The total of the flows is the sum of the threads' counts, as long as an \<open>int\<close> holds it.\<close>

lemma join_threads_sum:
  assumes "\<forall>t\<in>set ts. 0 \<le> success_count t" "0 \<le> k" "k \<le> C_INT_MAX"
  shows "if k + sum_list (map success_count ts) \<le> C_INT_MAX
    then \<exists>rest. join_threads ts (k, tot) = Ret (k + sum_list (map success_count ts), rest)
    else join_threads ts (k, tot) = Fault Int_Overflow"
  using assms
proof (induction ts arbitrary: k tot)
  case (Cons t ts)
  obtain x y z where tot: "tot = (x, y, z)" by (cases tot)
  have pos: "0 \<le> k + success_count t" "0 \<le> sum_list (map success_count ts)"
    using Cons.prems by (auto intro!: sum_list_nonneg)
  show ?case
  proof (cases "k + success_count t \<le> C_INT_MAX")
    case True
    obtain tot' where step: "join_threads (t # ts) (k, tot) = join_threads ts (k + success_count t, tot')"
      using True pos(1) by (simp add: tot join_thread_def int_result_nonneg)
    show ?thesis
      unfolding step using Cons.IH [of "k + success_count t" tot'] Cons.prems(1) True pos(1) by (auto simp: add.assoc split: if_splits)
  next
    case False
    then show ?thesis using pos by (simp add: tot join_thread_def int_result_nonneg)
  qed
next
  case Nil
  then show ?case by (cases tot) auto
qed

lemma dead_request:
  assumes "\<forall>s bs. snd (ssl_write conn s bs) \<le> 0" "length d \<le> 30"
  shows "\<exists>s'. perform_request conn e s op d (length d) r0 = Ret (s', r0, -1)"
  using assms(1) [rule_format, of s "packet_bytes (packed (client_rand e) op d)"]
  by (cases "ssl_write conn s (packet_bytes (packed (client_rand e) op d))")
     (simp add: perform_request_def pack_request_packed [OF assms(2)] tls_write_def)

lemma dead_flow:
  assumes "\<forall>s bs. snd (ssl_write conn s bs) \<le> 0" "flow_env_ok fe" "terminated acc" "length acc = 20"
  shows "\<exists>s'. flow conn fe acc (s, buf) = Ret (s', buf)"
proof -
  let ?s = "zero_pad 20 (string_of acc)"
  have ids: "c_strncpy (id0 (create_env fe)) acc 20 = Ret ?s" "valid_id ?s"
    using id_copied [OF assms(3,4)] assms(2) by (simp_all add: flow_env_ok_def client_env_ok_def)
  then have "length ?s = 20" by (simp add: valid_id_def ACCOUNT_ID_LEN_def)
  note size = op_payload_length(2) [OF this, of "f64_of_nat 1000"]
  then have "length (op_payload (Create ?s (f64_of_nat 1000))) \<le> 30" by (simp add: CREATE_SIZE_def)
  from dead_request [OF assms(1) this, unfolded size, of "create_env fe" s OP_CREATE_ACCOUNT "response0 (create_env fe)"]
  obtain s' where "perform_request conn (create_env fe) s OP_CREATE_ACCOUNT (op_payload (Create ?s (f64_of_nat 1000)))
      CREATE_SIZE (response0 (create_env fe)) = Ret (s', response0 (create_env fe), -1)" by blast
  then show ?thesis by (simp add: flow_def ids)
qed

lemma dead_loop:
  assumes "\<forall>s bs. snd (ssl_write conn s bs) \<le> 0" "\<forall>fe\<in>set fes. flow_env_ok fe" "terminated acc" "length acc = 20"
    and "0 \<le> success_count t" "success_count t + int (length fes) \<le> C_INT_MAX"
  shows "\<exists>s' t'. flow_loop conn fes acc ((s, buf), t) = Ret ((s', buf), t')
    \<and> success_count t' = success_count t + int (length fes) \<and> fail_count t' = fail_count t"
  using assms(2,5,6)
proof (induction fes arbitrary: s t)
  case (Cons fe fes)
  obtain s1 where "flow conn fe acc (s, buf) = Ret (s1, buf)"
    using dead_flow [OF assms(1) _ assms(3,4), of fe s buf] Cons.prems by auto
  moreover obtain t1 where t1: "count_flow fe t = Ret t1" "success_count t1 = success_count t + 1" "fail_count t1 = fail_count t"
    using count_flow_counts [of t fe] Cons.prems(2,3) by auto
  moreover obtain s' t' where "flow_loop conn fes acc ((s1, buf), t1) = Ret ((s', buf), t')"
    "success_count t' = success_count t + 1 + int (length fes)" "fail_count t' = fail_count t"
    using Cons.IH [of t1 s1] Cons.prems t1(2,3) by auto
  ultimately show ?case by simp
qed simp

text \<open>
  C37: failures are reported as completed flows. A thread whose connection does not carry a single byte
  any more after the handshake still counts every flow as a success and none as failed, and so "Total
  Completed Flows" of \<open>m\<close> threads that counted so is \<open>m\<close> times the flows of each, as long as an \<open>int\<close>
  holds that number; beyond, the addition in \<open>main\<close> overflows.
\<close>

theorem failures_are_reported_as_completed:
  assumes "\<forall>s bs. snd (ssl_write conn s bs) \<le> 0" "\<forall>i. flow_env_ok (fes i)" "length account0 = 20"
    and "num_requests t = int n" "int n \<le> C_INT_MAX" "success_count t = 0" "fail_count t = 0"
    and "0 \<le> os_socket os" "0 \<le> os_connect os" "ctx_new (os_lib os) \<noteq> None"
    and "0 < load_ca (os_lib os) (Some ''certificate/ca.crt'')" "ssl_new (os_lib os) \<noteq> None" "0 < connect_result (os_lib os)"
  shows "\<exists>cs s' t'. worker_thread os conn fes pid account0 t s = Ret (cs, s', t')
    \<and> success_count t' = int n \<and> fail_count t' = 0
    \<and> (\<forall>ts. length ts = m \<and> map success_count ts = replicate m (success_count t') \<longrightarrow>
        (if int (m * n) \<le> C_INT_MAX then \<exists>rest. stress_totals ts = Ret (int (m * n), rest)
         else stress_totals ts = Fault Int_Overflow))"
proof -
  obtain made ctx linked ssl where
    ctx: "tls_create_client_context (os_lib os) (stress_config (verify_cert t)) = (made, ctx)" "ctx \<noteq> None" and
    ssl: "tls_connect (os_lib os) (os_socket os) (Some ''api.bank.com'') = (linked, ssl)" "ssl \<noteq> None"
    using assms(10-13) by (auto simp: tls_create_client_context_def tls_connect_def stress_config_def Let_def)
  let ?t = "t\<lparr>min_latency_ms := f64_of_nat 999999, max_latency_ms := 0\<rparr>"
  obtain acc where acc: "c_snprintf account0 20 (chars ''user_'' @ c_dec pid @ chars ''_'' @ c_dec (thread_id t)) = Ret acc"
    "length acc = 20" "terminated acc" "string_of acc = stress_name pid (thread_id t)"
    by (rule stress_account [OF assms(3)])
  have fes: "\<forall>fe\<in>set (map fes [0..<n]). flow_env_ok fe" using assms(2) by simp
  obtain s' t' where loop: "flow_loop conn (map fes [0..<n]) acc ((s, replicate 10 0), ?t) = Ret ((s', replicate 10 0), t')"
    "success_count t' = int n" "fail_count t' = 0"
    using dead_loop [OF assms(1) fes acc(3,2), of ?t s "replicate 10 0"] assms(5-7) by auto
  have run: "\<exists>cs. worker_thread os conn fes pid account0 t s = Ret (cs, s', t')"
    using ctx ssl acc(1) loop(1) assms(4,8,9) by (auto simp: worker_thread_def Let_def)
  have total: "if int (m * n) \<le> C_INT_MAX then \<exists>rest. stress_totals ts = Ret (int (m * n), rest)
      else stress_totals ts = Fault Int_Overflow" if "length ts = m \<and> map success_count ts = replicate m (int n)" for ts
  proof -
    have counts: "map success_count ts = replicate m (int n)" using that by simp
    then have "\<forall>u\<in>set ts. success_count u = int n" by (metis imageI in_set_replicate set_map)
    then show ?thesis
      using join_threads_sum [of ts 0 "(0, 0, f64_of_nat 999999)"]
      by (cases "int (m * n) \<le> C_INT_MAX") (simp_all add: stress_totals_def counts sum_list_replicate C_INT_MAX_def)
  qed
  from run obtain cs where "worker_thread os conn fes pid account0 t s = Ret (cs, s', t')" ..
  then show ?thesis
    using loop(2,3) total by (intro exI [of _ cs] exI [of _ s'] exI [of _ t'] conjI allI impI) (simp_all only:)
qed

theorem failures_are_reported_as_completed_witness:
  "\<exists>cs s' t' rest. worker_thread demo_os \<lparr>ssl_write = \<lambda>u bs. (u, -1), ssl_read = \<lambda>u n. (u, None)\<rparr> demo_flow 1 (replicate 20 9)
      demo_thread () = Ret (cs, s', t') \<and> stress_totals (replicate 100 t') = Ret (200, rest)"
proof -
  have "\<exists>cs s' t'. worker_thread demo_os \<lparr>ssl_write = \<lambda>u bs. (u, -1), ssl_read = \<lambda>u n. (u, None)\<rparr> demo_flow 1 (replicate 20 9)
      demo_thread () = Ret (cs, s', t') \<and> success_count t' = int 2 \<and> fail_count t' = 0
      \<and> (\<forall>ts. length ts = 100 \<and> map success_count ts = replicate 100 (success_count t') \<longrightarrow>
        (if int (100 * 2) \<le> C_INT_MAX then \<exists>rest. stress_totals ts = Ret (int (100 * 2), rest)
         else stress_totals ts = Fault Int_Overflow))"
    using demo_flow_ok
    by (intro failures_are_reported_as_completed) (simp_all add: demo_thread_def demo_os_def demo_ssl_def C_INT_MAX_def)
  then obtain cs s' t' where w: "worker_thread demo_os \<lparr>ssl_write = \<lambda>u bs. (u, -1), ssl_read = \<lambda>u n. (u, None)\<rparr> demo_flow 1 (replicate 20 9)
      demo_thread () = Ret (cs, s', t')"
    and total: "\<And>ts. length ts = 100 \<and> map success_count ts = replicate 100 (success_count t') \<Longrightarrow>
      if int (100 * 2) \<le> C_INT_MAX then \<exists>rest. stress_totals ts = Ret (int (100 * 2), rest) else stress_totals ts = Fault Int_Overflow"
    by blast
  from total [of "replicate 100 t'"] have "\<exists>rest. stress_totals (replicate 100 t') = Ret (200, rest)"
    by (simp add: C_INT_MAX_def map_replicate)
  with w show ?thesis by blast
qed

end
