(* ===== verification/Client_Core.thy ===== *)
theory Client_Core
  imports Banking_Client
begin

text \<open>
  The second client: \<open>client/include/client_core.h\<close>, \<open>client/src/client_core.c\<close> and the single test of
  \<open>client/src/main.c\<close>.

  \<open>ClientContext\<close> is the struct of the connection; the functions return it updated, together with the calls
  they make (theory \<open>Tls_Wrapper\<close>) and, where they send or read, the state of the connection's peer. What
  the system and OpenSSL answer is a \<open>CoreOs\<close>. A null connection that OpenSSL is asked to use is the
  fault \<open>Null_Pointer\<close>. A read may deliver
  less than asked for: the rest of the header or of the buffer is then as it was.

  Lemmas: what \<open>client_send\<close> puts on the wire (\<open>client_send_sends\<close>) and how \<open>client_receive\<close> reads it
  (\<open>client_receive_reads\<close>), what the banking server makes of it (\<open>bank_ignores_frames\<close>,
  \<open>bank_ignores_requests\<close>) and what the client makes of the server's responses (\<open>responses_are_refused\<close>).
\<close>

section \<open>Connections\<close>

record ClientContext =
  socket_fd :: int
  ctx :: "nat option"
  ssl :: "nat option"
  server_addr :: int      \<comment> \<open>the port of \<open>server_addr\<close>\<close>
  is_connected :: int

definition zero_client :: ClientContext where
  "zero_client = \<lparr>socket_fd = 0, ctx = None, ssl = None, server_addr = 0, is_connected = 0\<rparr>"

record CoreOs =
  core_lib :: Openssl
  core_socket :: int
  core_inet_pton :: int
  core_connect :: int
  core_verified :: bool      \<comment> \<open>\<open>SSL_get_verify_result\<close> is \<open>X509_V_OK\<close>\<close>

definition CA_CERT_PATH :: string where "CA_CERT_PATH = ''certificate/ca.crt''"
definition CLIENT_CERT_PATH :: string where "CLIENT_CERT_PATH = ''certificate/client.crt''"
definition CLIENT_KEY_PATH :: string where "CLIENT_KEY_PATH = ''certificate/client.key''"

text \<open>\<open>None\<close>: the process exits.\<close>

definition client_init :: "Openssl \<Rightarrow> int \<Rightarrow> call list \<times> ClientContext option" where
  "client_init lib verify_server = (case ctx_new lib of None \<Rightarrow> ([], None)
   | Some c \<Rightarrow>
       let cert = use_cert lib (Some CLIENT_CERT_PATH) in
       ([Acquire (Ctx c), Load_file c (Some CA_CERT_PATH) (load_ca lib (Some CA_CERT_PATH)),
         Load_file c (Some CLIENT_CERT_PATH) cert]
        @ (if 0 < cert then [Load_file c (Some CLIENT_KEY_PATH) (use_key lib (Some CLIENT_KEY_PATH))] else [])
        @ [Verify c (if verify_server \<noteq> 0 then SSL_VERIFY_PEER else SSL_VERIFY_NONE)],
        Some (zero_client\<lparr>ctx := Some c\<rparr>)))"

definition client_close :: "ClientContext \<Rightarrow> call list \<times> ClientContext" where
  "client_close client =
     ((case ssl client of None \<Rightarrow> [] | Some s \<Rightarrow> [Shutdown_ssl s, Release (Ssl s)])
       @ (if 0 < socket_fd client then [Release (Fd (socket_fd client))] else [])
       @ (case ctx client of None \<Rightarrow> [] | Some c \<Rightarrow> [Release (Ctx c)]),
      client\<lparr>ssl := None, socket_fd := (if 0 < socket_fd client then -1 else socket_fd client), ctx := None,
        is_connected := 0\<rparr>)"

text \<open>
  \<open>client_connect\<close>; \<open>mode\<close> is the verification mode the context was given, which \<open>SSL_get_verify_mode\<close>
  returns.
\<close>

definition client_connect :: "CoreOs \<Rightarrow> nat \<Rightarrow> ClientContext \<Rightarrow> int \<Rightarrow> (call list \<times> ClientContext \<times> int) run" where
  "client_connect os mode client port =
     (let fd = core_socket os; client = client\<lparr>socket_fd := fd\<rparr> in
      if fd < 0 then Ret ([], client, -1)
      else let made = [Acquire (Fd fd)]; client = client\<lparr>server_addr := port mod 2 ^ 16\<rparr> in
        if core_inet_pton os \<le> 0 then Ret (made, client, -1)
        else if core_connect os < 0 then Ret (made @ close_fd fd, client, -1)
        else case ssl_new (core_lib os) of None \<Rightarrow> Fault Null_Pointer
         | Some s \<Rightarrow>
             let client = client\<lparr>ssl := Some s\<rparr>;
               made = made @ [Acquire (Ssl s), Attach_fd s fd, Server_name s ''banking.system'',
                 Handshake s (connect_result (core_lib os))] in
             if connect_result (core_lib os) \<le> 0 then
               (case client_close client of (closed, client) \<Rightarrow> Ret (made @ closed, client, -1))
             else if mode = SSL_VERIFY_PEER \<and> \<not> core_verified os then
               (case client_close client of (closed, client) \<Rightarrow> Ret (made @ closed, client, -1))
             else Ret (made, client\<lparr>is_connected := 1\<rparr>, 0))"

section \<open>Frames\<close>

text \<open>
  \<open>client_send\<close>: the header is sent as it lies in memory; its length, operation code and checksum are
  not brought into the byte order of the network. \<open>rnd\<close> is \<open>rand ()\<close>, \<open>buffer\<close> the uninitialised 4096 bytes
  of the frame. The payload is null or an object.
\<close>

definition client_header :: "u32 \<Rightarrow> u16 \<Rightarrow> u32 \<Rightarrow> u16 \<Rightarrow> PacketHeader" where
  "client_header rnd opc payload_len csum = \<lparr>hlength = word_of_nat PROTOCOL_HEADER_SIZE + payload_len,
     PacketHeader.op_code = opc, checksum = csum, req_id = rnd\<rparr>"

definition client_send :: "'s Conn \<Rightarrow> u32 \<Rightarrow> byte list \<Rightarrow> ClientContext \<Rightarrow> 's \<Rightarrow> u16 \<Rightarrow> byte list option \<Rightarrow> u32 \<Rightarrow> ('s \<times> int) run" where
  "client_send conn rnd buffer client s opc payload payload_len =
     (if is_connected client = 0 \<or> ssl client = None then Ret (s, -1)
      else bind_run (case payload of
            Some d \<Rightarrow> if 0 < payload_len then calculate_checksum d (unat payload_len) else Ret 0
          | None \<Rightarrow> Ret 0) (\<lambda>csum.
        let h = client_header rnd opc payload_len csum in
        if 4096 < unat (hlength h) then Ret (s, -1)
        else bind_run (case payload of
              Some d \<Rightarrow> if 0 < payload_len then
                  (if length d < unat payload_len then Fault Over_Read
                   else if 4096 < PROTOCOL_HEADER_SIZE + unat payload_len then Fault Over_Write
                   else Ret (take (unat payload_len) d))
                else Ret []
            | None \<Rightarrow> Ret []) (\<lambda>body.
          case ssl_write conn s (take (unat (hlength h)) (put_bytes buffer (header_bytes h @ body))) of (s, bytes_sent) \<Rightarrow>
          if bytes_sent \<le> 0 then Ret (s, -1) else Ret (s, bytes_sent))))"

text \<open>\<open>client_receive\<close>: the results are the state, the header, the body buffer and the value returned.\<close>

definition client_receive :: "'s Conn \<Rightarrow> ClientContext \<Rightarrow> 's \<Rightarrow> PacketHeader \<Rightarrow> byte list \<Rightarrow> u32 \<Rightarrow>
    ('s \<times> PacketHeader \<times> byte list \<times> int) run" where
  "client_receive conn client s header_out body_buffer buffer_size =
     (if is_connected client = 0 \<or> ssl client = None then Ret (s, header_out, body_buffer, -1)
      else case ssl_read conn s PROTOCOL_HEADER_SIZE of
          (s, None) \<Rightarrow> Ret (s, header_out, body_buffer, -1)
        | (s, Some bytes) \<Rightarrow>
            let h = header_of_bytes (put_bytes (header_bytes header_out) bytes);
              body_len = hlength h - word_of_nat PROTOCOL_HEADER_SIZE in
            if 0 < body_len then
              (if buffer_size < body_len then Ret (s, h, body_buffer, -1)
               else case ssl_read conn s (unat body_len) of
                   (s, None) \<Rightarrow> Ret (s, h, body_buffer, -1)
                 | (s, Some body) \<Rightarrow>
                     bind_run (c_write body_buffer body) (\<lambda>body_buffer.
                     bind_run (verify_checksum (checksum h) body_buffer (unat body_len)) (\<lambda>ok.
                       if ok = 0 then Ret (s, h, body_buffer, -2)
                       else Ret (s, h, body_buffer, int (length body)))))
            else Ret (s, h, body_buffer, 0))"

section \<open>The single test of main.c\<close>

definition fixed_login :: LoginRequest where
  "fixed_login = \<lparr>LoginRequest.account_id = zero_pad 20 (chars ''user''), LoginRequest.otp = zero_pad 10 (chars ''pass'')\<rparr>"

text \<open>The result is the calls, the state of the peer, whether a response is reported, and the exit code.\<close>

definition single_test :: "CoreOs \<Rightarrow> 's Conn \<Rightarrow> u32 \<Rightarrow> byte list \<Rightarrow> PacketHeader \<Rightarrow> byte list \<Rightarrow> int \<Rightarrow> 's \<Rightarrow>
    (call list \<times> 's \<times> bool \<times> int) run" where
  "single_test os conn rnd buffer header0 buf0 port s = (case client_init (core_lib os) 0 of
     (made, None) \<Rightarrow> Ret (made, s, False, 1)
   | (made, Some client) \<Rightarrow>
       bind_run (client_connect os SSL_VERIFY_NONE client port) (\<lambda>(linked, client, r).
       if r < 0 then Ret (made @ linked, s, False, 1)
       else bind_run (client_send conn rnd buffer client s OP_LOGIN (Some (login_bytes fixed_login)) (word_of_nat LOGIN_SIZE)) (\<lambda>(s, sent).
         bind_run (client_receive conn client s header0 buf0 1024) (\<lambda>(s, h, buf, got).
         case client_close client of (closed, client) \<Rightarrow> Ret (made @ linked @ closed, s, 0 < got, 0)))))"

section \<open>What the banking server makes of a frame\<close>

text \<open>A small length, read in the other byte order.\<close>

lemma ntohl_small:
  assumes "n < 65536"
  shows "unat (ntohl (word_of_nat n :: u32)) = 65536 * (n div 256) + 16777216 * (n mod 256)"
proof -
  have "unat (word_of_nat n :: u32) = n" using assms by (simp add: unat_of_nat)
  moreover have "le_bytes 4 n = [word_of_nat (n mod 256), word_of_nat (n div 256 mod 256),
      word_of_nat (n div 256 div 256 mod 256), word_of_nat (n div 256 div 256 div 256 mod 256)]"
    by (simp add: numeral_eq_Suc(1) [of "num.Bit0 (num.Bit0 num.One)"] numeral_3_eq_3)
  moreover have "n div 256 div 256 = 0" "n div 256 < 256" using assms by simp_all
  ultimately have "le_nat (rev (bytes32 (word_of_nat n))) = 65536 * (n div 256) + 16777216 * (n mod 256)"
    by (simp add: bytes32_def)
  moreover have "unat (word_of_nat m :: u32) = m" if "m < 2 ^ 32" for m
    using that by (simp add: unat_of_nat)
  moreover have "65536 * (n div 256) + 16777216 * (n mod 256) < 2 ^ 32"
  proof -
    have "n mod 256 < 256" by simp
    then have "65536 * (n div 256) + 16777216 * (n mod 256) < 4294967296"
      using \<open>n div 256 < 256\<close> by linarith
    then show ?thesis by simp
  qed
  ultimately show ?thesis
    by (simp only: ntohl_def word32_def)
qed

lemma swapped_length: "1036 \<le> n \<Longrightarrow> n \<le> 4096 \<Longrightarrow> 1036 < unat (ntohl (word_of_nat n :: u32))"
  by (subst ntohl_small) linarith+

text \<open>
  A frame shorter than a packet is a short read, which closes the connection; of a longer one the first
  1036 bytes are taken for a packet whose length, read in the order of the network, is far outside it.
\<close>

lemma bank_ignores_frames:
  assumes "length fr \<le> 4096" "take 4 fr = bytes32 (word_of_nat (length fr))"
  shows "connection_loop link w (map (\<lambda>bs. (env, Some bs)) (server_reads fr))
    = (if length fr < 1036 then Ret (w, []) else Fault Over_Read)"
proof (cases "length fr < 1036")
  case True
  then show ?thesis using assms(2) by (cases fr) (auto simp: PACKET_SIZE_def PROTOCOL_HEADER_SIZE_def MAX_DATA_SIZE_def)
next
  case False
  then obtain rest where reads: "server_reads fr = take PACKET_SIZE fr # rest"
    using server_reads_first [of fr] by (cases fr) auto
  have size: "length (take PACKET_SIZE fr) = PACKET_SIZE" "take PACKET_SIZE fr \<noteq> []"
    using False by (auto simp: PACKET_SIZE_def PROTOCOL_HEADER_SIZE_def MAX_DATA_SIZE_def)
  have "hlength (header (packet_of_bytes (take PACKET_SIZE fr))) = word_of_nat (length fr)"
    using assms(2) by (simp add: packet_of_bytes_def header_of_bytes_def PACKET_SIZE_def PROTOCOL_HEADER_SIZE_def
      MAX_DATA_SIZE_def)
  then have "verify_packet_checksum (packet_of_bytes (take PACKET_SIZE fr)) = Fault Over_Read"
    using swapped_length [of "length fr"] False assms(1)
    by (simp add: verify_packet_checksum_eq [OF packet_of_bytes_wf [OF size(1)]])
  then show ?thesis using False size by (simp add: reads)
qed

section \<open>Frames on the wire\<close>

definition frame :: "u32 \<Rightarrow> u16 \<Rightarrow> byte list \<Rightarrow> byte list" where
  "frame rnd opc body =
     header_bytes (client_header rnd opc (word_of_nat (length body)) (word_of_nat (byte_sum body))) @ body"

lemma length_frame [simp]: "length (frame rnd opc body) = 12 + length body"
  by (simp add: frame_def)

abbreviation connected :: "ClientContext \<Rightarrow> bool" where
  "connected client \<equiv> is_connected client \<noteq> 0 \<and> ssl client \<noteq> None"

lemma frame_length: "n \<le> 4084 \<Longrightarrow> unat (hlength (client_header rnd opc (word_of_nat n) csum)) = 12 + n"
proof -
  assume "n \<le> 4084"
  then have "unat (word_of_nat (12 + n) :: u32) = 12 + n" by (simp add: unat_of_nat del: of_nat_add)
  then show ?thesis by (simp add: client_header_def PROTOCOL_HEADER_SIZE_def)
qed

lemma frame_head: "length body \<le> 4084 \<Longrightarrow> take 4 (frame rnd opc body) = bytes32 (word_of_nat (12 + length body))"
  by (simp add: frame_def header_bytes_def client_header_def PROTOCOL_HEADER_SIZE_def)

lemma client_send_sends:
  assumes "connected client" "unat n \<le> length d" "unat n \<le> 4084"
  shows "client_send conn rnd buffer client s opc (Some d) n =
    (case ssl_write conn s (frame rnd opc (take (unat n) d)) of (s, sent) \<Rightarrow> Ret (s, if sent \<le> 0 then -1 else sent))"
proof -
  let ?body = "take (unat n) d"
  have len: "length ?body = unat n" using assms(2) by simp
  have sum: "(if 0 < n then calculate_checksum d (unat n) else Ret 0) = Ret (word_of_nat (byte_sum ?body))"
    using assms(2) by (auto simp: calculate_checksum_eq word_gt_0)
  have body: "(if 0 < n then (if length d < unat n then Fault Over_Read
        else if 4096 < PROTOCOL_HEADER_SIZE + unat n then Fault Over_Write else Ret ?body) else Ret []) = Ret ?body"
    using assms(2,3) by (auto simp: PROTOCOL_HEADER_SIZE_def word_gt_0)
  let ?h = "client_header rnd opc n (word_of_nat (byte_sum ?body))"
  have h: "unat (hlength ?h) = 12 + unat n" using frame_length [OF assms(3)] by simp
  have fr: "frame rnd opc ?body = header_bytes ?h @ ?body" using len by (simp add: frame_def)
  have "take (12 + unat n) (put_bytes buffer (header_bytes ?h @ ?body)) = header_bytes ?h @ ?body"
    using len by (simp add: put_bytes_def)
  then show ?thesis
    using assms h by (auto simp add: client_send_def sum body fr Let_def split: prod.split)
qed

text \<open>A connection to a peer that sends back what it receives.\<close>

definition echo_conn :: "byte list Conn" where
  "echo_conn = \<lparr>ssl_write = \<lambda>q bs. (q @ bs, int (length bs)),
     ssl_read = \<lambda>q n. if q = [] then ([], None) else (drop n q, Some (take n q))\<rparr>"

lemma client_receive_reads:
  assumes "connected client" "0 < length body" "length body \<le> unat sz" "unat sz \<le> length buf" "length body \<le> 4084"
  shows "client_receive echo_conn client (frame rnd opc body) h0 buf sz
    = Ret ([], client_header rnd opc (word_of_nat (length body)) (word_of_nat (byte_sum body)),
        put_bytes buf body, int (length body))"
proof -
  let ?h = "client_header rnd opc (word_of_nat (length body)) (word_of_nat (byte_sum body))"
  have n: "unat (word_of_nat (length body) :: u32) = length body" using assms(5) by (simp add: unat_of_nat)
  have diff: "hlength ?h - word_of_nat PROTOCOL_HEADER_SIZE = word_of_nat (length body)"
    by (simp add: client_header_def)
  have "0 < (word_of_nat (length body) :: u32)" "\<not> sz < word_of_nat (length body)"
    using n assms(2,3) by (simp_all add: word_less_nat_alt)
  moreover have "header_of_bytes (put_bytes (header_bytes h0) (header_bytes ?h)) = ?h"
    using header_of_header_bytes [of ?h "[]"] by simp
  moreover have "verify_checksum (checksum ?h) (put_bytes buf body) (length body) = Ret 1"
    using assms(3,4) by (simp add: verify_checksum_def calculate_checksum_eq client_header_def)
  ultimately show ?thesis
    using assms n diff by (simp add: client_receive_def echo_conn_def frame_def c_write_def Let_def PROTOCOL_HEADER_SIZE_def)
qed

text \<open>A response of the banking server announces a length no buffer of the client holds.\<close>

lemma responses_are_refused:
  assumes "connected client" "send_response env resp = Ret out"
    and "length (BankingResponse.message resp) = 256" "unat sz < 402718708"
    and "ssl_read conn s PROTOCOL_HEADER_SIZE = (s', Some (take PROTOCOL_HEADER_SIZE out))"
  shows "\<exists>h. client_receive conn client s h0 buf sz = Ret (s', h, buf, -1)"
proof -
  have len: "length (response_bytes resp) = RESPONSE_SIZE" using response_struct.length_enc [OF assms(3)] .
  have fits: "RESPONSE_SIZE \<le> length (response_bytes resp)" "RESPONSE_SIZE \<le> MAX_DATA_SIZE"
    by (simp_all add: len RESPONSE_SIZE_def MAX_DATA_SIZE_def)
  obtain p where p: "out = packet_bytes p" "hlength (header p) = htonl (word_of_nat (12 + RESPONSE_SIZE))"
    using assms(2) by (auto simp: send_response_def pack_response_def pack_request_eq [OF fits])
  have "htonl (word_of_nat (12 + RESPONSE_SIZE)) = 402718720"
  proof -
    have "unat (htonl (word_of_nat 280)) = 402718720"
      using ntohl_small [of 280] by (simp add: htonl_def ntohl_def)
    then have "word_of_nat (unat (htonl (word_of_nat 280))) = (402718720 :: u32)" by simp
    then show ?thesis by (simp add: RESPONSE_SIZE_def)
  qed
  then have "hlength (header_of_bytes (put_bytes (header_bytes h0) (take PROTOCOL_HEADER_SIZE out))) = 402718720"
    using p by (simp add: packet_bytes_def PROTOCOL_HEADER_SIZE_def header_of_header_bytes [of _ "[]", simplified])
  then show ?thesis
    using assms(1,4,5) by (auto simp: client_receive_def Let_def PROTOCOL_HEADER_SIZE_def word_less_nat_alt)
qed

text \<open>A request of at most 1023 bytes, sent to the server.\<close>

lemma bank_ignores_requests:
  assumes "connected client" "unat n \<le> length d" "unat n < 1024"
  shows "client_send (bank_conn link env) rnd buffer client (w, up, []) opc (Some d) n
      = Ret ((w, False, []), if up then 12 + int (unat n) else -1)"
    "client_receive (bank_conn link env) client (w, False, []) h0 buf sz = Ret ((w, False, []), h0, buf, -1)"
proof -
  let ?fr = "frame rnd opc (take (unat n) d)"
  have len: "length ?fr = 12 + unat n" using assms(2) by simp
  have "take 4 ?fr = bytes32 (word_of_nat (length ?fr))"
    using frame_head [of "take (unat n) d" rnd opc] assms(2,3) by simp
  then have loop: "connection_loop link w (map (\<lambda>bs. (env, Some bs)) (server_reads ?fr)) = Ret (w, [])"
    using bank_ignores_frames [of ?fr link w env] assms(3) len by simp
  have pos: "\<not> 12 + uint n \<le> 0" by (simp add: not_le add_pos_nonneg)
  have "?fr \<noteq> []" using len by (cases ?fr) auto
  then obtain rest where "server_reads ?fr = take PACKET_SIZE ?fr # rest" using server_reads_first by blast
  then have short: "\<not> list_all (\<lambda>bs. length bs = PACKET_SIZE) (server_reads ?fr)"
    using len assms(3) by (simp add: PACKET_SIZE_def PROTOCOL_HEADER_SIZE_def MAX_DATA_SIZE_def)
  show "client_send (bank_conn link env) rnd buffer client (w, up, []) opc (Some d) n
      = Ret ((w, False, []), if up then 12 + int (unat n) else -1)"
    using client_send_sends [OF assms(1,2), of "bank_conn link env" rnd buffer "(w, up, [])" opc] assms(3) loop short len pos
    by (simp add: bank_conn_def)
  show "client_receive (bank_conn link env) client (w, False, []) h0 buf sz = Ret ((w, False, []), h0, buf, -1)"
    by (simp add: client_receive_def bank_conn_def)
qed

section \<open>Properties\<close>

text \<open>
  C26: the framing of the client core agrees with itself. What \<open>client_send\<close> puts on a connection, for a
  payload of at most 4084 bytes, is read back by \<open>client_receive\<close> from a peer that returns it: the
  header comes back field for field, the payload is at the start of the buffer with the rest of the
  buffer as it was, the checksum is accepted, and both calls return the number of bytes they moved.
\<close>

theorem frames_read_back:
  assumes "connected client" "0 < unat n" "unat n \<le> length d" "unat n \<le> 4084"
    and "unat n \<le> unat sz" "unat sz \<le> length buf"
  shows "client_send echo_conn rnd buffer client [] opc (Some d) n
      = Ret (frame rnd opc (take (unat n) d), 12 + int (unat n))
    \<and> client_receive echo_conn client (frame rnd opc (take (unat n) d)) h0 buf sz
      = Ret ([], client_header rnd opc n (word_of_nat (byte_sum (take (unat n) d))),
          put_bytes buf (take (unat n) d), int (unat n))"
proof -
  have len: "length (take (unat n) d) = unat n" using assms(3) by simp
  show ?thesis
    using client_send_sends [OF assms(1,3,4), of echo_conn rnd buffer "[]" opc]
      client_receive_reads [OF assms(1) _ _ assms(6), of "take (unat n) d" rnd opc h0] assms(2-5) len
    by (cases d) (simp_all add: echo_conn_def)
qed

definition core_client :: ClientContext where
  "core_client = zero_client\<lparr>ssl := Some 2, is_connected := 1\<rparr>"

theorem frames_read_back_witness:
  "client_send echo_conn 7 (replicate 4096 0) core_client [] OP_LOGIN (Some (login_bytes fixed_login)) 30
      = Ret (frame 7 OP_LOGIN (login_bytes fixed_login), 42)"
proof -
  have len: "length (login_bytes fixed_login) = 30" by (simp add: login_bytes_def fixed_login_def zero_pad_def)
  have n: "unat (30 :: u32) = 30" by simp
  show ?thesis
    using frames_read_back [of core_client 30 "login_bytes fixed_login" 1024 "replicate 1024 0" 7 "replicate 4096 0" OP_LOGIN
        "client_header 0 0 0 0"]
    by (simp only: n len) (simp add: len core_client_def zero_client_def)
qed

text \<open>
  C25: the client core and the banking server do not speak the same protocol. A frame of \<open>client_send\<close>,
  with a payload smaller than a packet's (every request of the single test and of the stress test), is
  no packet for the server, whatever its operation and contents: the server changes no account and asks
  no one-time password, answers nothing and closes the connection, so that \<open>client_receive\<close> returns -1.
  And a response of the server would not be read either: the length in its header is in the order of
  the network, which \<open>client_receive\<close> takes for more than 400 million bytes.
\<close>

theorem client_core_is_not_understood:
  assumes "connected client" "unat n \<le> length d" "unat n < 1024"
    and "send_response env' resp = Ret out" "length (BankingResponse.message resp) = 256" "unat sz \<le> 4096"
  shows "client_send (bank_conn link env) rnd buffer client (w, up, []) opc (Some d) n
      = Ret ((w, False, []), if up then 12 + int (unat n) else -1)
    \<and> client_receive (bank_conn link env) client (w, False, []) h0 buf sz = Ret ((w, False, []), h0, buf, -1)
    \<and> (\<exists>s h. client_receive (bank_conn link env) client (w, up, [out]) h0 buf sz = Ret (s, h, buf, -1))"
proof (intro conjI)
  show "client_send (bank_conn link env) rnd buffer client (w, up, []) opc (Some d) n
      = Ret ((w, False, []), if up then 12 + int (unat n) else -1)"
    "client_receive (bank_conn link env) client (w, False, []) h0 buf sz = Ret ((w, False, []), h0, buf, -1)"
    by (rule bank_ignores_requests [OF assms(1-3)])+
  show "\<exists>s h. client_receive (bank_conn link env) client (w, up, [out]) h0 buf sz = Ret (s, h, buf, -1)"
  proof -
    obtain s' where "ssl_read (bank_conn link env) (w, up, [out]) PROTOCOL_HEADER_SIZE = (s', Some (take PROTOCOL_HEADER_SIZE out))"
      by (simp add: bank_conn_def)
    moreover have "unat sz < 402718708" using assms(6) by simp
    ultimately show ?thesis using responses_are_refused [OF assms(1,4,5)] by meson
  qed
qed

theorem client_core_is_not_understood_witness:
  "client_send (bank_conn no_link demo_env) 7 (replicate 4096 0) core_client ((Some init_db, ()), True, []) OP_LOGIN
      (Some (login_bytes fixed_login)) 30 = Ret (((Some init_db, ()), False, []), 42)
    \<and> client_receive (bank_conn no_link demo_env) core_client ((Some init_db, ()), False, []) (client_header 0 0 0 0)
      (replicate 1024 0) 1024 = Ret (((Some init_db, ()), False, []), client_header 0 0 0 0, replicate 1024 0, -1)"
proof -
  have len: "length (login_bytes fixed_login) = 30" by (simp add: login_bytes_def fixed_login_def zero_pad_def)
  have n: "unat (30 :: u32) = 30" "unat (1024 :: u32) = 1024" by simp_all
  have resp: "length (BankingResponse.message (reply_with 0 0 [])) = 256" by simp
  obtain out where "send_response demo_env (reply_with 0 0 []) = Ret out"
    using send_response_unpacks [OF resp, of demo_env] by blast
  then show ?thesis
    using client_core_is_not_understood [of core_client 30 "login_bytes fixed_login" demo_env "reply_with 0 0 []" out 1024
        no_link demo_env 7 "replicate 4096 0" "(Some init_db, ())" True OP_LOGIN "client_header 0 0 0 0" "replicate 1024 0"]
    by (simp only: n len resp) (simp add: core_client_def zero_client_def)
qed

text \<open>
  What a failed connection leaves behind. After \<open>client_init\<close> and a \<open>client_connect\<close> that returns
  -1, no caller calls \<open>client_close\<close>. An address that \<open>inet_pton\<close> refuses leaves the socket open and
  the context allocated, a refused connection leaves the context, and only a failed handshake (or a
  certificate that does not verify) has freed all of it.
\<close>

theorem failed_connections_leak:
  assumes "ctx_new (core_lib os) = Some c" "client_init (core_lib os) verify_server = (made, Some client)"
    and "0 < core_socket os" "ssl_new (core_lib os) = Some s"
    and "client_connect os mode client port = Ret (linked, client', r)"
  shows "r = (if 0 < core_inet_pton os \<and> 0 \<le> core_connect os \<and> 0 < connect_result (core_lib os)
      \<and> (mode = SSL_VERIFY_PEER \<longrightarrow> core_verified os) then 0 else -1)
    \<and> (r = -1 \<longrightarrow> live {} (made @ linked)
      = Some (if core_inet_pton os \<le> 0 then {Ctx c, Fd (core_socket os)}
          else if core_connect os < 0 then {Ctx c} else {}))"
proof -
  have client: "client = zero_client\<lparr>ctx := Some c\<rparr>" and made: "live {} (made @ cs) = live {Ctx c} cs" for cs
    using assms(1,2) by (auto simp: client_init_def Let_def)
  show ?thesis
    using assms(3-5) unfolding made
    by (auto simp: client client_connect_def client_close_def zero_client_def close_fd_def Let_def split: if_splits)
qed

text \<open>An OpenSSL and a system on which everything succeeds but the reading of the address.\<close>

definition good_ssl :: Openssl where
  "good_ssl = demo_ssl\<lparr>connect_result := 1\<rparr>"

definition good_os :: CoreOs where
  "good_os = \<lparr>core_lib = good_ssl, core_socket = 3, core_inet_pton = 1, core_connect = 0, core_verified = True\<rparr>"

theorem failed_connections_leak_witness:
  "\<exists>made linked client client'. client_init good_ssl 0 = (made, Some client)
    \<and> client_connect (good_os\<lparr>core_inet_pton := 0\<rparr>) SSL_VERIFY_NONE client 8080 = Ret (linked, client', -1)
    \<and> live {} (made @ linked) = Some {Ctx 1, Fd 3}"
proof -
  obtain made client where init: "client_init good_ssl 0 = (made, Some client)"
    by (simp add: client_init_def good_ssl_def demo_ssl_def)
  obtain linked client' where link: "client_connect (good_os\<lparr>core_inet_pton := 0\<rparr>) SSL_VERIFY_NONE client 8080
      = Ret (linked, client', -1)"
    by (simp add: client_connect_def good_os_def)
  have "live {} (made @ linked) = Some {Ctx 1, Fd 3}"
    using failed_connections_leak [of "good_os\<lparr>core_inet_pton := 0\<rparr>" 1 0 made client 2 SSL_VERIFY_NONE 8080 linked client' "-1"]
      init link by (simp add: good_os_def good_ssl_def demo_ssl_def)
  with init link show ?thesis by blast
qed

text \<open>
  The single test of \<open>main.c\<close> against the banking server. When every call of the system succeeds,
  it sends its login, gets no response whatever the server's state, leaves the accounts and the
  one-time password server as they are, gives back all it acquired, and exits with success.
\<close>

theorem single_test_reports_nothing:
  assumes "ctx_new (core_lib os) = Some c" "0 < core_socket os" "0 < core_inet_pton os" "0 \<le> core_connect os"
    and "ssl_new (core_lib os) = Some i" "0 < connect_result (core_lib os)"
  shows "\<exists>calls. single_test os (bank_conn link env) rnd buffer h0 buf0 port (w, True, [])
      = Ret (calls, (w, False, []), False, 0) \<and> live {} calls = Some {}"
proof -
  define client where "client = zero_client\<lparr>socket_fd := core_socket os, ctx := Some c, ssl := Some i,
      server_addr := port mod 2 ^ 16, is_connected := 1\<rparr>"
  obtain made where init: "client_init (core_lib os) 0 = (made, Some (zero_client\<lparr>ctx := Some c\<rparr>))"
    "live {} (made @ cs) = live {Ctx c} cs" for cs
    using assms(1) by (auto simp: client_init_def Let_def)
  obtain linked where con: "client_connect os SSL_VERIFY_NONE (zero_client\<lparr>ctx := Some c\<rparr>) port = Ret (linked, client, 0)"
    "live {Ctx c} (linked @ cs) = live {Ctx c, Fd (core_socket os), Ssl i} cs" for cs
    using assms by (auto simp: client_def client_connect_def zero_client_def Let_def SSL_VERIFY_NONE_def SSL_VERIFY_PEER_def insert_commute)
  have len: "unat (word_of_nat LOGIN_SIZE :: u32) \<le> length (login_bytes fixed_login)"
    "unat (word_of_nat LOGIN_SIZE :: u32) < 1024" "connected client"
    by (simp_all add: client_def login_bytes_def fixed_login_def zero_pad_def LOGIN_SIZE_def)
  note sent = bank_ignores_requests [OF len(3,1,2)]
  have closed: "client_close client = ([Shutdown_ssl i, Release (Ssl i), Release (Fd (core_socket os)), Release (Ctx c)],
      zero_client\<lparr>socket_fd := -1, server_addr := port mod 2 ^ 16\<rparr>)"
    using assms(2) by (simp add: client_def client_close_def zero_client_def)
  show ?thesis
    using init con by (auto simp add: single_test_def sent closed)
qed

theorem single_test_reports_nothing_witness:
  "\<exists>calls. single_test good_os (bank_conn no_link demo_env) 7 (replicate 4096 0) (client_header 0 0 0 0)
      (replicate 1024 0) 8080 ((Some init_db, ()), True, []) = Ret (calls, ((Some init_db, ()), False, []), False, 0)
    \<and> live {} calls = Some {}"
  by (rule single_test_reports_nothing [of good_os 1 2]) (simp_all add: good_os_def good_ssl_def demo_ssl_def)

end
