(* ===== verification/Core_Stress.thy ===== *)
theory Core_Stress
  imports Client_Core
begin

text \<open>
  The stress test of the client core, \<open>client/src/stress_test.c\<close>, and the \<open>main\<close> of \<open>client/src/main.c\<close>.

  \<open>worker_routine\<close> is one thread, over a connection whose peer has a state: \<open>worker_prepare\<close> up to the
  barrier, \<open>stress_loop\<close> after it, one \<open>stress_round\<close> for each request. Its result is what it does in
  order (calls of the system, and the wait at the barrier), the state of the peer and the statistics of
  the thread, or \<open>None\<close> where \<open>client_init\<close> ends the process.

  The threads together are the step relation \<open>arena_step\<close> over a world they share, the servers and
  whatever else their connections reach: a thread runs \<open>worker_prepare\<close> and arrives at the barrier, the
  barrier opens when as many threads as it was made for wait at it, a thread runs one \<open>stress_round\<close> or
  closes. Each thread has its own connection, an arbitrary function of the world, so that any answers
  are possible whatever the others did in between. The process ends when \<open>client_init\<close> exits, and it
  stops where a thread faults. \<open>stress_report\<close> is what \<open>run_stress_test\<close> makes of the statistics.

  The arguments: \<open>rand ()\<close>, \<open>rand_r\<close>, the two readings of the clock of each request, and the uninitialised
  objects of the stack.

  Lemmas: \<open>stress_round_total\<close> and \<open>worker_prepare_total\<close> for one thread over any connection,
  \<open>stress_loop_refused\<close> over the connection to the banking server; \<open>arena_inv\<close> and \<open>arena_measure\<close> for
  the threads together; \<open>arena_single_thread\<close>, that one thread in the arena does what \<open>worker_routine\<close> does.
\<close>

section \<open>One thread\<close>

record timespec =
  tv_sec :: int
  tv_nsec :: int

definition get_time_diff_ms :: "timespec \<Rightarrow> timespec \<Rightarrow> f64" where
  "get_time_diff_ms start_ts end_ts =
     f64_add (f64_mul (f64_of_int (tv_sec end_ts - tv_sec start_ts)) (f64_of_nat 1000))
       (f64_div (f64_of_int (tv_nsec end_ts - tv_nsec start_ts)) (f64_of_nat 1000000))"

record ThreadArgs =
  thread_id :: int
  ip :: "byte list"
  port :: int
  requests :: int
  rand_seed :: u32

record ThreadStats =
  success_count :: int
  fail_count :: int
  total_latency_ms :: f64

record CoreEnv =
  c_rand :: "nat \<Rightarrow> u32"                \<comment> \<open>\<open>rand ()\<close>, by the number of the frame sent\<close>
  rand_r :: "u32 \<Rightarrow> nat \<times> u32"           \<comment> \<open>\<open>rand_r\<close>: the number and the next seed\<close>
  clock :: "nat \<Rightarrow> timespec \<times> timespec"  \<comment> \<open>the readings before and after a request\<close>
  frame0 :: "byte list"
  account0 :: "byte list"
  otp_req0 :: "byte list"
  login0 :: LoginRequest
  header0 :: PacketHeader
  recv0 :: "byte list"
  trans0 :: "nat \<Rightarrow> byte list"           \<comment> \<open>\<open>trans_req\<close> of each round of the loop\<close>

text \<open>
  The login before the barrier. The structs are filled by \<open>strncpy\<close>; the password is the beginning
  of the response's message.
\<close>

definition core_login :: "'s Conn \<Rightarrow> CoreEnv \<Rightarrow> int \<Rightarrow> ClientContext \<Rightarrow> 's \<Rightarrow> ('s \<times> PacketHeader \<times> byte list) run" where
  "core_login conn e tid client s =
     bind_run (c_snprintf (account0 e) 20 (chars ''USER_'' @ c_dec tid)) (\<lambda>my_account.
     bind_run (c_strncpy (otp_req0 e) my_account 20) (\<lambda>req.
     bind_run (client_send conn (c_rand e 0) (frame0 e) client s OP_REQ_OTP (Some req) (word_of_nat OTP_REQUEST_SIZE)) (\<lambda>(s, sent).
     if sent \<le> 0 then Ret (s, header0 e, recv0 e)
     else bind_run (client_receive conn client s (header0 e) (recv0 e) 1024) (\<lambda>(s, h, recv_buf, got).
     if got < 0 then Ret (s, h, recv_buf)
     else let resp = response_of_bytes (take RESPONSE_SIZE recv_buf) in
       if BankingResponse.status resp \<noteq> 0 then Ret (s, h, recv_buf)
       else bind_run (c_strncpy (LoginRequest.account_id (login0 e)) my_account 20) (\<lambda>ident.
         bind_run (c_strncpy (LoginRequest.otp (login0 e)) (BankingResponse.message resp) 10) (\<lambda>code.
         bind_run (client_send conn (c_rand e 1) (frame0 e) client s OP_LOGIN
           (Some (login_bytes \<lparr>LoginRequest.account_id = ident, LoginRequest.otp = code\<rparr>)) (word_of_nat LOGIN_SIZE)) (\<lambda>(s, sent).
         bind_run (client_receive conn client s h recv_buf 1024) (\<lambda>(s, h, recv_buf, got). Ret (s, h, recv_buf)))))))))"

text \<open>The union \<open>trans_req\<close> is as large as its largest member, and is sent whole.\<close>

definition TRANS_SIZE :: nat where "TRANS_SIZE = 28"

definition chosen_op :: "nat \<Rightarrow> u16" where
  "chosen_op action = (if action = 0 then OP_DEPOSIT else if action = 1 then OP_WITHDRAW else OP_BALANCE)"

definition fill_request :: "byte list \<Rightarrow> u16 \<Rightarrow> int \<Rightarrow> byte list run" where
  "fill_request trans_req opc tid =
     bind_run (c_snprintf (take 20 trans_req) 20 (c_dec tid)) (\<lambda>ident.
       Ret (if opc = OP_DEPOSIT \<or> opc = OP_WITHDRAW
         then deposit_bytes \<lparr>DepositRequest.account_id = ident, DepositRequest.amount = f64_of_nat 10\<rparr>
         else ident @ drop 20 trans_req))"

text \<open>
  One pass of the loop, of number \<open>i\<close>: the seed, the state of the peer, the header and the buffer for the
  response, and the statistics, whose counters are \<open>long\<close>.
\<close>

type_synonym 's round_state = "u32 \<times> 's \<times> PacketHeader \<times> byte list \<times> ThreadStats"

definition count_failure :: "ThreadStats \<Rightarrow> ThreadStats run" where
  "count_failure stats = bind_run (long_result (fail_count stats + 1)) (\<lambda>n. Ret (stats\<lparr>fail_count := n\<rparr>))"

definition count_success :: "timespec \<times> timespec \<Rightarrow> ThreadStats \<Rightarrow> ThreadStats run" where
  "count_success readings stats = bind_run (long_result (success_count stats + 1)) (\<lambda>n.
     Ret (stats\<lparr>success_count := n,
       total_latency_ms := f64_add (total_latency_ms stats) (get_time_diff_ms (fst readings) (snd readings))\<rparr>))"

definition stress_round :: "'s Conn \<Rightarrow> CoreEnv \<Rightarrow> ClientContext \<Rightarrow> int \<Rightarrow> nat \<Rightarrow> 's round_state \<Rightarrow> 's round_state run" where
  "stress_round conn e client tid i st = (case st of (seed, s, h, recv_buf, stats) \<Rightarrow>
     case rand_r e seed of (r, seed) \<Rightarrow>
     let opc = chosen_op (r mod 3) in
     bind_run (fill_request (trans0 e i) opc tid) (\<lambda>trans_req.
     bind_run (client_send conn (c_rand e (2 + i)) (frame0 e) client s opc (Some trans_req) (word_of_nat TRANS_SIZE)) (\<lambda>(s, sent).
     if sent \<le> 0 then bind_run (count_failure stats) (\<lambda>stats. Ret (seed, s, h, recv_buf, stats))
     else bind_run (client_receive conn client s h recv_buf 1024) (\<lambda>(s, h, recv_buf, got).
       if got < 0 then bind_run (count_failure stats) (\<lambda>stats. Ret (seed, s, h, recv_buf, stats))
       else bind_run (count_success (clock e i) stats) (\<lambda>stats. Ret (seed, s, h, recv_buf, stats))))))"

fun stress_loop :: "'s Conn \<Rightarrow> CoreEnv \<Rightarrow> ClientContext \<Rightarrow> int \<Rightarrow> nat list \<Rightarrow> 's round_state \<Rightarrow> 's round_state run" where
  "stress_loop conn e client tid [] st = Ret st"
| "stress_loop conn e client tid (i # is) st = bind_run (stress_round conn e client tid i st) (stress_loop conn e client tid is)"

text \<open>How a thread comes to the barrier, with the calls it made: not at all, without a connection, or with one.\<close>

datatype prepared =
    Process_Exits "call list"
  | Unconnected "call list"
  | Connected "call list" ClientContext PacketHeader "byte list"

definition worker_prepare :: "CoreOs \<Rightarrow> 's Conn \<Rightarrow> CoreEnv \<Rightarrow> ThreadArgs \<Rightarrow> 's \<Rightarrow> ('s \<times> prepared) run" where
  "worker_prepare os conn e args s = (case client_init (core_lib os) 0 of
     (made, None) \<Rightarrow> Ret (s, Process_Exits made)
   | (made, Some client) \<Rightarrow>
       bind_run (client_connect os SSL_VERIFY_NONE client (port args)) (\<lambda>(linked, client, r).
       if r < 0 then Ret (s, Unconnected (made @ linked))
       else bind_run (core_login conn e (thread_id args) client s) (\<lambda>(s, h, recv_buf).
         Ret (s, Connected (made @ linked) client h recv_buf))))"

datatype stress_event = Did call | Wait_Barrier

definition worker_routine :: "CoreOs \<Rightarrow> 's Conn \<Rightarrow> CoreEnv \<Rightarrow> ThreadArgs \<Rightarrow> ThreadStats \<Rightarrow> 's \<Rightarrow>
    (stress_event list \<times> ('s \<times> ThreadStats) option) run" where
  "worker_routine os conn e args stats s = bind_run (worker_prepare os conn e args s) (\<lambda>(s, p). case p of
     Process_Exits made \<Rightarrow> Ret (map Did made, None)
   | Unconnected made \<Rightarrow> Ret (map Did made @ [Wait_Barrier], Some (s, stats\<lparr>fail_count := requests args\<rparr>))
   | Connected made client h recv_buf \<Rightarrow>
       bind_run (stress_loop conn e client (thread_id args) [0..<nat (requests args)] (rand_seed args, s, h, recv_buf, stats))
         (\<lambda>(seed, s, h, recv_buf, stats).
           Ret (map Did made @ [Wait_Barrier] @ map Did (fst (client_close client)), Some (s, stats))))"

section \<open>One thread over any connection\<close>

text \<open>What the code relies on: a read delivers no more than was asked for.\<close>

definition reads_bounded :: "'s Conn \<Rightarrow> bool" where
  "reads_bounded conn \<longleftrightarrow> (\<forall>s n s' bs. ssl_read conn s n = (s', Some bs) \<longrightarrow> length bs \<le> n)"

definition core_env_ok :: "CoreEnv \<Rightarrow> bool" where
  "core_env_ok e \<longleftrightarrow> length (account0 e) = 20 \<and> length (otp_req0 e) = 20 \<and> length (LoginRequest.account_id (login0 e)) = 20
     \<and> length (LoginRequest.otp (login0 e)) = 10 \<and> length (recv0 e) = 1024 \<and> (\<forall>i. length (trans0 e i) = TRANS_SIZE)"

lemma client_receive_total:
  assumes "reads_bounded conn" "length buf = 1024"
  obtains s' h' buf' got where "client_receive conn client s h buf 1024 = Ret (s', h', buf', got)" "length buf' = 1024"
proof -
  have "\<exists>s' h' buf' got. client_receive conn client s h buf 1024 = Ret (s', h', buf', got) \<and> length buf' = 1024"
  proof (cases "connected client")
    case True
    obtain s1 r where r: "ssl_read conn s PROTOCOL_HEADER_SIZE = (s1, r)" by force
    show ?thesis
    proof (cases r)
      case None
      then show ?thesis using True r assms(2) by (simp add: client_receive_def)
    next
      case (Some bytes)
      define h1 where "h1 = header_of_bytes (put_bytes (header_bytes h) bytes)"
      define n where "n = hlength h1 - word_of_nat PROTOCOL_HEADER_SIZE"
      obtain s2 q where q: "ssl_read conn s1 (unat n) = (s2, q)" by force
      have n: "unat n \<le> 1024" if "\<not> 1024 < n"
        using that by (simp add: word_less_nat_alt)
      show ?thesis
      proof (cases "1024 < n \<or> n = 0 \<or> q = None")
        case True
        then show ?thesis using \<open>connected client\<close> r Some q assms(2)
          by (auto simp: client_receive_def Let_def h1_def [symmetric] n_def [symmetric])
      next
        case False
        then obtain body where body: "q = Some body" by auto
        have "length body \<le> 1024" using assms(1) q n body False by (fastforce simp: reads_bounded_def)
        then obtain b where b: "c_write buf body = Ret b" "length b = 1024" using assms(2) by (auto simp: c_write_def)
        have "verify_checksum (checksum h1) b (unat n) = Ret (if checksum h1 = word_of_nat (byte_sum (take (unat n) b)) then 1 else 0)"
          using n False b(2) by (simp add: verify_checksum_def calculate_checksum_eq)
        then show ?thesis using \<open>connected client\<close> r Some q body b False assms(2)
          by (simp add: client_receive_def Let_def h1_def [symmetric] n_def [symmetric])
      qed
    qed
  qed (use assms in \<open>auto simp: client_receive_def\<close>)
  then show ?thesis using that by blast
qed

lemma client_send_total:
  assumes "unat n \<le> length d" "unat n \<le> 4084"
  shows "\<exists>s' sent. client_send conn rnd buffer client s opc (Some d) n = Ret (s', sent)"
proof (cases "connected client")
  case True
  then show ?thesis
    by (cases "ssl_write conn s (frame rnd opc (take (unat n) d))") (simp add: client_send_sends [OF True assms])
qed (auto simp: client_send_def)

lemma c_snprintf_total: "length dst = sz \<Longrightarrow> 0 < sz \<Longrightarrow> \<exists>b. c_snprintf dst sz text = Ret b \<and> length b = sz \<and> terminated b"
  by (cases dst) (auto simp: c_snprintf_def c_write_def put_bytes_def min_def)

lemma fill_request_total:
  assumes "length tr = TRANS_SIZE"
  obtains b where "fill_request tr opc tid = Ret b" "length b = TRANS_SIZE"
proof -
  obtain ident where "c_snprintf (take 20 tr) 20 (c_dec tid) = Ret ident" "length ident = 20"
    using c_snprintf_total [of "take 20 tr" 20] assms by (auto simp: TRANS_SIZE_def)
  then show ?thesis using that assms by (simp add: fill_request_def TRANS_SIZE_def deposit_bytes_def)
qed

lemma strncpy_image_total: "n \<le> length src \<Longrightarrow> \<exists>b. strncpy_image src n = Ret b"
proof (induction src n rule: strncpy_image.induct)
  case (2 b bs n)
  then show ?case by (cases n) (auto simp: bind_run_eq_Ret)
qed simp

lemma c_strncpy_total:
  assumes "n \<le> length src" "n \<le> length dst"
  shows "\<exists>b. c_strncpy dst src n = Ret b \<and> length b = length dst"
proof -
  obtain b where "strncpy_image src n = Ret b" using strncpy_image_total [OF assms(1)] by blast
  then show ?thesis using assms(2) strncpy_image_length [of src n b] by (simp add: c_strncpy_def c_write_def)
qed

lemma core_login_total:
  assumes "core_env_ok e" "reads_bounded conn"
  shows "\<exists>s' h' buf'. core_login conn e tid client s = Ret (s', h', buf') \<and> length buf' = 1024"
proof -
  note ok = assms(1) [unfolded core_env_ok_def]
  obtain acc where acc: "c_snprintf (account0 e) 20 (chars ''USER_'' @ c_dec tid) = Ret acc" "length acc = 20"
    using c_snprintf_total [of "account0 e" 20] ok by auto
  obtain req where req: "c_strncpy (otp_req0 e) acc 20 = Ret req" "length req = 20"
    using c_strncpy_total [of 20 acc "otp_req0 e"] acc(2) ok by auto
  obtain s1 sent where sent: "client_send conn (c_rand e 0) (frame0 e) client s OP_REQ_OTP (Some req)
      (word_of_nat OTP_REQUEST_SIZE) = Ret (s1, sent)"
    using client_send_total [of "word_of_nat OTP_REQUEST_SIZE" req] req(2) unfolding OTP_REQUEST_SIZE_def by fastforce
  obtain s2 h2 buf2 got where got: "client_receive conn client s1 (header0 e) (recv0 e) 1024 = Ret (s2, h2, buf2, got)"
    "length buf2 = 1024"
    using client_receive_total [OF assms(2)] ok by metis
  let ?msg = "BankingResponse.message (response_of_bytes (take RESPONSE_SIZE buf2))"
  have "length ?msg = 256" using got(2) by (simp add: response_of_bytes_def RESPONSE_SIZE_def)
  then obtain code where code: "c_strncpy (LoginRequest.otp (login0 e)) ?msg 10 = Ret code" "length code = 10"
    using c_strncpy_total [of 10 ?msg "LoginRequest.otp (login0 e)"] ok by auto
  obtain ident where ident: "c_strncpy (LoginRequest.account_id (login0 e)) acc 20 = Ret ident" "length ident = 20"
    using c_strncpy_total [of 20 acc "LoginRequest.account_id (login0 e)"] acc(2) ok by auto
  let ?login = "login_bytes \<lparr>LoginRequest.account_id = ident, LoginRequest.otp = code\<rparr>"
  have "length ?login = 30" using code ident by (simp add: login_bytes_def)
  then obtain s3 sent3 where sent3: "client_send conn (c_rand e 1) (frame0 e) client s2 OP_LOGIN (Some ?login)
      (word_of_nat LOGIN_SIZE) = Ret (s3, sent3)"
    using client_send_total [of "word_of_nat LOGIN_SIZE" ?login] unfolding LOGIN_SIZE_def by fastforce
  obtain s4 h4 buf4 got4 where got4: "client_receive conn client s3 h2 buf2 1024 = Ret (s4, h4, buf4, got4)" "length buf4 = 1024"
    using client_receive_total [OF assms(2) got(2)] by metis
  show ?thesis
    using ok got(2) got4(2) by (simp add: core_login_def acc req(1) sent got(1) code(1) ident(1) sent3 [unfolded One_nat_def] got4(1) Let_def)
qed

text \<open>The counters of a thread that has dealt with \<open>n\<close> requests.\<close>

definition counted :: "int \<Rightarrow> ThreadStats \<Rightarrow> bool" where
  "counted n st \<longleftrightarrow> 0 \<le> success_count st \<and> 0 \<le> fail_count st \<and> success_count st + fail_count st = n"

lemma count_total:
  assumes "counted n st" "n < C_LONG_MAX"
  shows "\<exists>st'. count_failure st = Ret st' \<and> counted (n + 1) st'" "\<exists>st'. count_success readings st = Ret st' \<and> counted (n + 1) st'"
  using assms by (simp_all add: counted_def count_failure_def count_success_def long_result_nonneg)

lemma stress_round_total:
  assumes "core_env_ok e" "reads_bounded conn" "length buf = 1024" "counted n stats" "n < C_LONG_MAX"
  shows "\<exists>seed' s' h' buf' stats'. stress_round conn e client tid i (seed, s, h, buf, stats) = Ret (seed', s', h', buf', stats')
    \<and> length buf' = 1024 \<and> counted (n + 1) stats'"
proof -
  obtain r seed' where r: "rand_r e seed = (r, seed')" by force
  obtain tr where tr: "fill_request (trans0 e i) (chosen_op (r mod 3)) tid = Ret tr" "length tr = TRANS_SIZE"
    using fill_request_total assms(1) unfolding core_env_ok_def by metis
  obtain s1 sent where sent: "client_send conn (c_rand e (2 + i)) (frame0 e) client s (chosen_op (r mod 3)) (Some tr)
      (word_of_nat TRANS_SIZE) = Ret (s1, sent)"
    using client_send_total [of "word_of_nat TRANS_SIZE" tr] tr(2) unfolding TRANS_SIZE_def by fastforce
  obtain s2 h2 buf2 got where got: "client_receive conn client s1 h buf 1024 = Ret (s2, h2, buf2, got)" "length buf2 = 1024"
    using client_receive_total [OF assms(2,3)] by blast
  obtain st1 st2 where "count_failure stats = Ret st1" "counted (n + 1) st1"
    "count_success (clock e i) stats = Ret st2" "counted (n + 1) st2"
    using count_total [OF assms(4,5)] by blast
  then show ?thesis using assms(3) r tr(1) sent got by (simp add: stress_round_def Let_def)
qed

lemma stress_loop_counts:
  assumes "core_env_ok e" "reads_bounded conn" "length buf = 1024" "counted n stats" "n + int (length is) \<le> C_LONG_MAX"
  shows "\<exists>seed' s' h' buf' stats'. stress_loop conn e client tid is (seed, s, h, buf, stats) = Ret (seed', s', h', buf', stats')
    \<and> counted (n + int (length is)) stats'"
  using assms(3-5)
proof (induction "is" arbitrary: seed s h buf stats n)
  case (Cons i "is")
  then have "n < C_LONG_MAX" by simp
  from stress_round_total [OF assms(1,2) Cons.prems(1,2) this, of client tid i seed s h]
  obtain seed' s' h' buf' st' where one: "stress_round conn e client tid i (seed, s, h, buf, stats) = Ret (seed', s', h', buf', st')"
    "length buf' = 1024" "counted (n + 1) st'" by blast
  have "n + 1 + int (length is) \<le> C_LONG_MAX" using Cons.prems(3) by simp
  from Cons.IH [OF one(2,3) this, of seed' s' h'] one(1) show ?case by (simp add: ac_simps)
qed simp

text \<open>When the calls of the system let a thread connect, and when \<open>client_connect\<close> uses a null pointer.\<close>

definition no_ssl :: "CoreOs \<Rightarrow> bool" where
  "no_ssl os \<longleftrightarrow> 0 \<le> core_socket os \<and> 0 < core_inet_pton os \<and> 0 \<le> core_connect os \<and> ssl_new (core_lib os) = None"

definition can_connect :: "CoreOs \<Rightarrow> bool" where
  "can_connect os \<longleftrightarrow> 0 \<le> core_socket os \<and> 0 < core_inet_pton os \<and> 0 \<le> core_connect os
     \<and> ssl_new (core_lib os) \<noteq> None \<and> 0 < connect_result (core_lib os)"

lemma client_connect_cases:
  "if no_ssl os then client_connect os SSL_VERIFY_NONE client p = Fault Null_Pointer
   else \<exists>linked client'. client_connect os SSL_VERIFY_NONE client p = Ret (linked, client', if can_connect os then 0 else -1)"
  by (auto simp: client_connect_def no_ssl_def can_connect_def Let_def SSL_VERIFY_NONE_def SSL_VERIFY_PEER_def
      split: option.split prod.split)

lemma count_Did [simp]: "count_list (map Did cs) Wait_Barrier = 0"
  by (induction cs) auto

lemma client_init_cases:
  "if ctx_new lib = None then client_init lib v = ([], None) else \<exists>made client. client_init lib v = (made, Some client)"
  by (auto simp: client_init_def Let_def split: option.splits)

lemma worker_prepare_total:
  assumes "core_env_ok e" "reads_bounded conn"
  shows "if ctx_new (core_lib os) = None then worker_prepare os conn e args s = Ret (s, Process_Exits [])
    else if no_ssl os then worker_prepare os conn e args s = Fault Null_Pointer
    else if can_connect os then \<exists>s' made client h buf.
      worker_prepare os conn e args s = Ret (s', Connected made client h buf) \<and> length buf = 1024
    else \<exists>made. worker_prepare os conn e args s = Ret (s, Unconnected made)"
proof (cases "ctx_new (core_lib os)")
  case None
  then show ?thesis using client_init_cases [of "core_lib os" 0] by (simp add: worker_prepare_def)
next
  case (Some c)
  then obtain made client where init: "client_init (core_lib os) 0 = (made, Some client)"
    using client_init_cases [of "core_lib os" 0] by auto
  note con = client_connect_cases [of os client "port args"]
  have login: "\<exists>s' h' buf'. core_login conn e (thread_id args) client' s = Ret (s', h', buf') \<and> length buf' = 1024" for client'
    by (rule core_login_total [OF assms])
  show ?thesis
  proof (cases "no_ssl os")
    case True
    then show ?thesis using Some con by (simp add: worker_prepare_def init)
  next
    case False
    then obtain linked client' where "client_connect os SSL_VERIFY_NONE client (port args) = Ret (linked, client', if can_connect os then 0 else -1)"
      using con by auto
    moreover obtain s' h' buf' where "core_login conn e (thread_id args) client' s = Ret (s', h', buf')" "length buf' = 1024"
      using login by blast
    ultimately show ?thesis using Some False by (simp add: worker_prepare_def init)
  qed
qed

definition zero_stats :: ThreadStats where
  "zero_stats = \<lparr>success_count = 0, fail_count = 0, total_latency_ms = 0\<rparr>"

lemma counted_zero: "counted 0 zero_stats"
  by (simp add: counted_def zero_stats_def)

lemma worker_accounts:
  assumes "core_env_ok e" "reads_bounded conn" "requests args \<le> C_INT_MAX"
  shows "if ctx_new (core_lib os) = None then worker_routine os conn e args zero_stats s = Ret ([], None)
    else if no_ssl os then worker_routine os conn e args zero_stats s = Fault Null_Pointer
    else \<exists>tr s' st. worker_routine os conn e args zero_stats s = Ret (tr, Some (s', st)) \<and> count_list tr Wait_Barrier = 1
      \<and> (if can_connect os then counted (max 0 (requests args)) st else s' = s \<and> st = zero_stats\<lparr>fail_count := requests args\<rparr>)"
proof -
  note prep = worker_prepare_total [OF assms(1,2), of os args s]
  consider (no_ctx) "ctx_new (core_lib os) = None" | (crash) "ctx_new (core_lib os) \<noteq> None" "no_ssl os"
    | (link) "ctx_new (core_lib os) \<noteq> None" "\<not> no_ssl os" "can_connect os"
    | (alone) "ctx_new (core_lib os) \<noteq> None" "\<not> no_ssl os" "\<not> can_connect os" by blast
  then show ?thesis
  proof cases
    case link
    then obtain s' made client h buf where p: "worker_prepare os conn e args s = Ret (s', Connected made client h buf)" "length buf = 1024"
      using prep by auto
    have "0 + int (length [0..<nat (requests args)]) \<le> C_LONG_MAX"
      using assms(3) by (simp add: C_INT_MAX_def C_LONG_MAX_def)
    from stress_loop_counts [OF assms(1,2) p(2) counted_zero this, of client "thread_id args" "rand_seed args" s' h]
    obtain seed2 s2 h2 buf2 st where "stress_loop conn e client (thread_id args) [0..<nat (requests args)]
        (rand_seed args, s', h, buf, zero_stats) = Ret (seed2, s2, h2, buf2, st)"
      "counted (int (nat (requests args))) st" by auto
    then show ?thesis using link p(1) by (simp add: worker_routine_def max_def)
  next
    case alone
    then obtain made where "worker_prepare os conn e args s = Ret (s, Unconnected made)" using prep by auto
    then show ?thesis using alone by (simp add: worker_routine_def)
  qed (use prep in \<open>simp_all add: worker_routine_def\<close>)
qed

section \<open>One thread over the connection to the bank\<close>

lemma bank_refuses:
  assumes "length d = n" "n < 1024"
  shows "client_send (bank_conn link env) rnd buffer client (w, False, []) opc (Some d) (word_of_nat n) = Ret ((w, False, []), -1)"
proof (cases "connected client")
  case True
  have "unat (word_of_nat n :: u32) = n" using assms(2) by (simp add: unat_of_nat)
  then show ?thesis using bank_ignores_requests(1) [OF True, of "word_of_nat n" d link env rnd buffer w False opc] assms by simp
qed (auto simp: client_send_def)

lemma stress_loop_refused:
  assumes "core_env_ok e" "0 \<le> fail_count stats" "fail_count stats + int (length is) \<le> C_LONG_MAX"
  shows "\<exists>seed'. stress_loop (bank_conn link env) e client tid is (seed, (w, False, []), h, buf, stats)
    = Ret (seed', (w, False, []), h, buf, stats\<lparr>fail_count := fail_count stats + int (length is)\<rparr>)"
  using assms(2,3)
proof (induction "is" arbitrary: seed stats)
  case (Cons i "is")
  obtain r seed' where r: "rand_r e seed = (r, seed')" by force
  obtain tr where tr: "fill_request (trans0 e i) (chosen_op (r mod 3)) tid = Ret tr" "length tr = TRANS_SIZE"
    using fill_request_total assms(1) unfolding core_env_ok_def by metis
  have small: "TRANS_SIZE < 1024" by (simp add: TRANS_SIZE_def)
  have "count_failure stats = Ret (stats\<lparr>fail_count := fail_count stats + 1\<rparr>)"
    using Cons.prems by (simp add: count_failure_def long_result_nonneg)
  then have "stress_round (bank_conn link env) e client tid i (seed, (w, False, []), h, buf, stats)
      = Ret (seed', (w, False, []), h, buf, stats\<lparr>fail_count := fail_count stats + 1\<rparr>)"
    using r tr(1) by (simp add: stress_round_def Let_def bank_refuses [OF tr(2) small])
  then show ?case using Cons.IH [of "stats\<lparr>fail_count := fail_count stats + 1\<rparr>" seed'] Cons.prems by (simp add: add.assoc)
qed simp

lemma core_login_refused:
  assumes "core_env_ok e" "connected client"
  shows "core_login (bank_conn link env) e tid client (w, True, []) = Ret ((w, False, []), header0 e, recv0 e)"
proof -
  note ok = assms(1) [unfolded core_env_ok_def]
  obtain acc where acc: "c_snprintf (account0 e) 20 (chars ''USER_'' @ c_dec tid) = Ret acc" "length acc = 20"
    using c_snprintf_total [of "account0 e" 20] ok by auto
  obtain req where req: "c_strncpy (otp_req0 e) acc 20 = Ret req" "length req = 20"
    using c_strncpy_total [of 20 acc "otp_req0 e"] acc(2) ok by auto
  have "unat (20 :: u32) = 20" by simp
  then have "client_send (bank_conn link env) (c_rand e 0) (frame0 e) client (w, True, []) OP_REQ_OTP (Some req) 20
      = Ret ((w, False, []), 32)"
    using bank_ignores_requests(1) [OF assms(2), of 20 req link env "c_rand e 0" "frame0 e" w True OP_REQ_OTP] req(2)
    by (simp only:) simp
  then show ?thesis
    using req(2) by (simp add: core_login_def acc(1) req(1) OTP_REQUEST_SIZE_def
      bank_ignores_requests(2) [OF assms(2), of 20 req])
qed

section \<open>The threads together\<close>

datatype thread_state =
    Preparing
  | At_Barrier prepared
  | Running ClientContext nat u32 PacketHeader "byte list"   \<comment> \<open>the connection, the requests done, the seed, header and buffer\<close>
  | Done
  | Not_Created

datatype program_state = Going | Exited | Crashed fault

record 's arena =
  arg_array :: "ThreadArgs list"
  barrier_count :: nat
  phases :: "thread_state list"
  all_stats :: "ThreadStats list"
  world :: 's
  program :: program_state

text \<open>The start: \<open>created\<close> says of each thread whether \<open>pthread_create\<close> made it, \<open>seed0\<close> is \<open>time (NULL)\<close>.\<close>

definition start_threads :: "byte list \<Rightarrow> int \<Rightarrow> int \<Rightarrow> u32 \<Rightarrow> bool list \<Rightarrow> 's \<Rightarrow> 's arena" where
  "start_threads addr prt num_requests seed0 created w = \<lparr>
     arg_array = map (\<lambda>i. \<lparr>thread_id = int i, ip = addr, port = prt, requests = num_requests, rand_seed = seed0 + word_of_nat i\<rparr>)
       [0..<length created],
     barrier_count = length created,
     phases = map (\<lambda>c. if c then Preparing else Not_Created) created, all_stats = replicate (length created) zero_stats,
     world = w, program = Going\<rparr>"

text \<open>\<open>run_stress_test\<close> up to there; it prints the product of threads and requests, an \<open>int\<close>, first.\<close>

definition run_stress_test :: "byte list \<Rightarrow> int \<Rightarrow> int \<Rightarrow> u32 \<Rightarrow> bool list \<Rightarrow> 's \<Rightarrow> 's arena run" where
  "run_stress_test addr prt num_requests seed0 created w =
     bind_run (int_result (int (length created) * num_requests)) (\<lambda>total.
       Ret (start_threads addr prt num_requests seed0 created w))"

text \<open>A thread comes to the barrier, which without a connection all its requests count as failed.\<close>

definition arrive_thread :: "(nat \<Rightarrow> CoreOs) \<Rightarrow> (nat \<Rightarrow> 's Conn) \<Rightarrow> (nat \<Rightarrow> CoreEnv) \<Rightarrow> nat \<Rightarrow> 's arena \<Rightarrow> 's arena" where
  "arrive_thread os conn env i a = (let args = arg_array a ! i in
     case worker_prepare (os i) (conn i) (env i) args (world a) of
       Fault e \<Rightarrow> a\<lparr>program := Crashed e\<rparr>
     | Ret (w, Process_Exits made) \<Rightarrow> a\<lparr>world := w, program := Exited\<rparr>
     | Ret (w, Unconnected made) \<Rightarrow> a\<lparr>world := w, phases := (phases a)[i := At_Barrier (Unconnected made)],
         all_stats := (all_stats a)[i := (all_stats a ! i)\<lparr>fail_count := requests args\<rparr>]\<rparr>
     | Ret (w, p) \<Rightarrow> a\<lparr>world := w, phases := (phases a)[i := At_Barrier p]\<rparr>)"

text \<open>Past the barrier: the loop, or the return of a thread without a connection.\<close>

fun pass_barrier :: "ThreadArgs \<Rightarrow> thread_state \<Rightarrow> thread_state" where
  "pass_barrier args (At_Barrier (Connected made client h recv_buf)) = Running client 0 (rand_seed args) h recv_buf"
| "pass_barrier args (At_Barrier p) = Done"
| "pass_barrier args p = p"

definition open_barrier :: "'s arena \<Rightarrow> 's arena" where
  "open_barrier a = a\<lparr>phases := map (\<lambda>i. pass_barrier (arg_array a ! i) (phases a ! i)) [0..<length (phases a)]\<rparr>"

definition waits_at_barrier :: "thread_state \<Rightarrow> bool" where
  "waits_at_barrier p \<longleftrightarrow> (\<exists>q. p = At_Barrier q)"

text \<open>The next request of a thread, or its end.\<close>

definition advance_thread :: "(nat \<Rightarrow> 's Conn) \<Rightarrow> (nat \<Rightarrow> CoreEnv) \<Rightarrow> nat \<Rightarrow> ClientContext \<Rightarrow> nat \<Rightarrow> u32 \<Rightarrow> PacketHeader \<Rightarrow> byte list \<Rightarrow>
    's arena \<Rightarrow> 's arena" where
  "advance_thread conn env i client k seed h recv_buf a = (let args = arg_array a ! i in
     if int k < requests args then
       (case stress_round (conn i) (env i) client (thread_id args) k (seed, world a, h, recv_buf, all_stats a ! i) of
          Fault e \<Rightarrow> a\<lparr>program := Crashed e\<rparr>
        | Ret (seed, w, h, recv_buf, st) \<Rightarrow> a\<lparr>world := w, phases := (phases a)[i := Running client (Suc k) seed h recv_buf],
            all_stats := (all_stats a)[i := st]\<rparr>)
     else a\<lparr>phases := (phases a)[i := Done]\<rparr>)"

inductive arena_step :: "(nat \<Rightarrow> CoreOs) \<Rightarrow> (nat \<Rightarrow> 's Conn) \<Rightarrow> (nat \<Rightarrow> CoreEnv) \<Rightarrow> 's arena \<Rightarrow> 's arena \<Rightarrow> bool" for os conn env where
  arrive: "program a = Going \<Longrightarrow> i < length (phases a) \<Longrightarrow> phases a ! i = Preparing \<Longrightarrow>
    arena_step os conn env a (arrive_thread os conn env i a)"
| opens: "program a = Going \<Longrightarrow> 0 < barrier_count a \<Longrightarrow> length (filter waits_at_barrier (phases a)) = barrier_count a \<Longrightarrow>
    arena_step os conn env a (open_barrier a)"
| advance: "program a = Going \<Longrightarrow> i < length (phases a) \<Longrightarrow> phases a ! i = Running client k seed h recv_buf \<Longrightarrow>
    arena_step os conn env a (advance_thread conn env i client k seed h recv_buf a)"

text \<open>The sums of the report, in \<open>long\<close>: successes, failures, latency.\<close>

fun add_stats :: "ThreadStats list \<Rightarrow> int \<times> int \<times> f64 \<Rightarrow> (int \<times> int \<times> f64) run" where
  "add_stats [] tot = Ret tot"
| "add_stats (st # stats) (total_success, total_fail, total_latency_sum) =
     bind_run (long_result (total_success + success_count st)) (\<lambda>total_success.
     bind_run (long_result (total_fail + fail_count st)) (\<lambda>total_fail.
       add_stats stats (total_success, total_fail, f64_add total_latency_sum (total_latency_ms st))))"

text \<open>The report: requests, successes, failures, the average latency, the total time and the throughput.\<close>

definition stress_report :: "ThreadStats list \<Rightarrow> timespec \<Rightarrow> timespec \<Rightarrow> (int \<times> int \<times> int \<times> f64 \<times> f64 \<times> f64) run" where
  "stress_report stats global_start global_end =
     bind_run (add_stats stats (0, 0, f64_of_nat 0)) (\<lambda>(total_success, total_fail, total_latency_sum).
     bind_run (long_result (total_success + total_fail)) (\<lambda>total.
     let total_time_ms = get_time_diff_ms global_start global_end in
      Ret (total, total_success, total_fail,
       if 0 < total_success then f64_div total_latency_sum (f64_of_int total_success) else f64_of_nat 0,
       total_time_ms, f64_div (f64_of_int total_success) (f64_div total_time_ms (f64_of_nat 1000)))))"

section \<open>The program\<close>

datatype core_mode = Usage | Single_Test int | Stress_Test int int int | Stress_Usage | No_Mode

definition client_core_main :: "byte list list \<Rightarrow> core_mode run" where
  "client_core_main argv =
     (if length argv < 4 then Ret Usage
      else bind_run (c_atoi (argv ! 2)) (\<lambda>port.
        bind_run (c_atoi (argv ! 3)) (\<lambda>mode.
        if mode = 1 then Ret (Single_Test port)
        else if mode = 2 then
          (if length argv \<noteq> 6 then Ret Stress_Usage
           else bind_run (c_atoi (argv ! 4)) (\<lambda>threads. bind_run (c_atoi (argv ! 5)) (\<lambda>reqs. Ret (Stress_Test port threads reqs))))
        else Ret No_Mode)))"

section \<open>Invariants of the threads\<close>

fun past_barrier :: "thread_state \<Rightarrow> bool" where
  "past_barrier (Running client k seed h recv_buf) = True"
| "past_barrier Done = True"
| "past_barrier p = False"

fun to_go :: "nat \<Rightarrow> thread_state \<Rightarrow> nat" where
  "to_go R Preparing = R + 3"
| "to_go R (At_Barrier p) = R + 2"
| "to_go R (Running client k seed h recv_buf) = R - k + 1"
| "to_go R Done = 0"
| "to_go R Not_Created = 0"

definition arena_measure :: "nat \<Rightarrow> 's arena \<Rightarrow> nat" where
  "arena_measure R a = (if program a = Going then sum_list (map (to_go R) (phases a)) else 0)"

text \<open>What a thread has left in its statistics in each state.\<close>

fun thread_ok :: "int \<Rightarrow> thread_state \<Rightarrow> ThreadStats \<Rightarrow> bool" where
  "thread_ok reqs Preparing st = (st = zero_stats)"
| "thread_ok reqs (At_Barrier (Connected made client h recv_buf)) st = (st = zero_stats \<and> length recv_buf = 1024)"
| "thread_ok reqs (At_Barrier (Unconnected made)) st = counted reqs st"
| "thread_ok reqs (At_Barrier (Process_Exits made)) st = False"
| "thread_ok reqs (Running client k seed h recv_buf) st = (int k \<le> reqs \<and> counted (int k) st \<and> length recv_buf = 1024)"
| "thread_ok reqs Done st = counted reqs st"
| "thread_ok reqs Not_Created st = False"

definition program_ok :: "(nat \<Rightarrow> CoreOs) \<Rightarrow> nat \<Rightarrow> program_state \<Rightarrow> bool" where
  "program_ok os n p \<longleftrightarrow> (case p of Going \<Rightarrow> True
     | Exited \<Rightarrow> \<exists>i<n. ctx_new (core_lib (os i)) = None
     | Crashed e \<Rightarrow> e = Null_Pointer \<and> (\<exists>i<n. ctx_new (core_lib (os i)) \<noteq> None \<and> no_ssl (os i)))"

text \<open>Before the barrier opens no thread is past it; after that every thread is.\<close>

definition arena_inv :: "(nat \<Rightarrow> CoreOs) \<Rightarrow> nat \<Rightarrow> int \<Rightarrow> 's arena \<Rightarrow> bool" where
  "arena_inv os n reqs a \<longleftrightarrow> length (phases a) = n \<and> length (all_stats a) = n \<and> barrier_count a = n
     \<and> (\<forall>i<n. requests (arg_array a ! i) = reqs \<and> thread_ok reqs (phases a ! i) (all_stats a ! i))
     \<and> ((\<forall>i<n. \<not> past_barrier (phases a ! i)) \<or> (\<forall>i<n. past_barrier (phases a ! i)))
     \<and> program_ok os n (program a)"

lemma all_created:
  "\<forall>c\<in>set created. c \<Longrightarrow> map (\<lambda>c. if c then Preparing else Not_Created) created = replicate (length created) Preparing"
  by (induction created) auto

lemma arena_inv_start:
  "\<forall>c\<in>set created. c \<Longrightarrow> arena_inv os (length created) reqs (start_threads addr prt reqs seed0 created w)"
  by (simp add: arena_inv_def start_threads_def program_ok_def all_created)

lemma sum_update_less:
  "i < length ps \<Longrightarrow> to_go R q < to_go R (ps ! i) \<Longrightarrow> sum_list (map (to_go R) (ps[i := q])) < sum_list (map (to_go R) ps)"
  by (induction ps arbitrary: i) (auto split: nat.split)

lemma sum_pos: "i < length ps \<Longrightarrow> 0 < to_go R (ps ! i) \<Longrightarrow> 0 < sum_list (map (to_go R) ps)"
  by (induction ps arbitrary: i) (auto simp: nth_Cons split: nat.splits)

lemma filter_full: "length (filter P xs) = length xs \<Longrightarrow> i < length xs \<Longrightarrow> P (xs ! i)"
  by (metis length_filter_less less_irrefl nth_mem)

text \<open>One step of a thread: what becomes of it, and that it comes closer to its end.\<close>

lemma arrive_step:
  assumes "arena_inv os n reqs a" "program a = Going" "i < length (phases a)" "phases a ! i = Preparing" "0 \<le> reqs" "nat reqs = R"
    and "core_env_ok (env i)" "reads_bounded (conn i)"
  shows "arena_inv os n reqs (arrive_thread os conn env i a) \<and> arena_measure R (arrive_thread os conn env i a) < arena_measure R a"
proof -
  note inv = assms(1) [unfolded arena_inv_def]
  have i: "i < n" "requests (arg_array a ! i) = reqs" "all_stats a ! i = zero_stats" using inv assms(3,4) by auto
  then have before: "\<forall>j<n. \<not> past_barrier (phases a ! j)" using inv assms(4) by auto
  have pos: "0 < arena_measure R a" using assms(2-4) sum_pos [of i "phases a" R] by (simp add: arena_measure_def)
  have less: "sum_list (map (to_go R) ((phases a)[i := At_Barrier p])) < arena_measure R a" for p
    using assms(2-4) sum_update_less [of i "phases a" R "At_Barrier p"] by (simp add: arena_measure_def)
  note prep = worker_prepare_total [OF assms(7,8), of "os i" "arg_array a ! i" "world a"]
  consider (no_ctx) "ctx_new (core_lib (os i)) = None" | (crash) "ctx_new (core_lib (os i)) \<noteq> None" "no_ssl (os i)"
    | (link) "ctx_new (core_lib (os i)) \<noteq> None" "\<not> no_ssl (os i)" "can_connect (os i)"
    | (alone) "ctx_new (core_lib (os i)) \<noteq> None" "\<not> no_ssl (os i)" "\<not> can_connect (os i)" by blast
  then show ?thesis
  proof cases
    case no_ctx
    then have "arrive_thread os conn env i a = a\<lparr>world := world a, program := Exited\<rparr>" using prep by (simp add: arrive_thread_def Let_def)
    then show ?thesis using inv pos i(1) no_ctx by (auto simp: arena_inv_def arena_measure_def program_ok_def)
  next
    case crash
    then have "arrive_thread os conn env i a = a\<lparr>program := Crashed Null_Pointer\<rparr>" using prep by (simp add: arrive_thread_def Let_def)
    then show ?thesis using inv pos i(1) crash by (auto simp: arena_inv_def arena_measure_def program_ok_def)
  next
    case link
    then obtain w made client h buf where p: "worker_prepare (os i) (conn i) (env i) (arg_array a ! i) (world a)
        = Ret (w, Connected made client h buf)" "length buf = 1024"
      using prep by auto
    then have "arrive_thread os conn env i a = a\<lparr>world := w, phases := (phases a)[i := At_Barrier (Connected made client h buf)]\<rparr>"
      by (simp add: arrive_thread_def Let_def)
    then show ?thesis
      using inv before i less [of "Connected made client h buf"] p(2) assms(2) by (simp add: arena_inv_def arena_measure_def nth_list_update)
  next
    case alone
    then obtain made where p: "worker_prepare (os i) (conn i) (env i) (arg_array a ! i) (world a) = Ret (world a, Unconnected made)"
      using prep by auto
    then have step: "arrive_thread os conn env i a = a\<lparr>world := world a, phases := (phases a)[i := At_Barrier (Unconnected made)],
        all_stats := (all_stats a)[i := zero_stats\<lparr>fail_count := reqs\<rparr>]\<rparr>"
      using i by (simp add: arrive_thread_def Let_def)
    have "counted reqs (zero_stats\<lparr>fail_count := reqs\<rparr>)" using assms(5) by (simp add: counted_def zero_stats_def)
    then show ?thesis
      unfolding step using inv before i less [of "Unconnected made"] assms(2) by (simp add: arena_inv_def arena_measure_def nth_list_update)
  qed
qed

lemma open_step:
  assumes "arena_inv os n reqs a" "program a = Going" "0 < barrier_count a"
    and "length (filter waits_at_barrier (phases a)) = barrier_count a" "0 \<le> reqs" "nat reqs = R"
  shows "arena_inv os n reqs (open_barrier a) \<and> arena_measure R (open_barrier a) < arena_measure R a"
proof -
  note inv = assms(1) [unfolded arena_inv_def]
  have wait: "waits_at_barrier (phases a ! i)" if "i < n" for i
    using filter_full [of waits_at_barrier "phases a" i] inv assms(4) that by simp
  have each: "thread_ok reqs (pass_barrier (arg_array a ! i) (phases a ! i)) (all_stats a ! i)
      \<and> past_barrier (pass_barrier (arg_array a ! i) (phases a ! i))
      \<and> to_go R (pass_barrier (arg_array a ! i) (phases a ! i)) < to_go R (phases a ! i)" if "i < n" for i
  proof -
    have "waits_at_barrier (phases a ! i)" by (rule wait [OF that])
    then obtain p where p: "phases a ! i = At_Barrier p" by (auto simp: waits_at_barrier_def)
    have "thread_ok reqs (At_Barrier p) (all_stats a ! i)" using inv that p by metis
    then show ?thesis using assms(5) counted_zero by (cases p) (simp_all add: p)
  qed
  have len: "length (phases a) = n" "0 < n" using inv assms(3) by simp_all
  have "sum_list (map (to_go R) (phases a)) = (\<Sum>i<n. to_go R (phases a ! i))"
    using len(1) by (simp add: sum_list_sum_nth atLeast0LessThan)
  moreover have "sum_list (map (to_go R) (phases (open_barrier a)))
      = (\<Sum>i<n. to_go R (pass_barrier (arg_array a ! i) (phases a ! i)))"
    using len(1) by (simp add: open_barrier_def sum_list_sum_nth atLeast0LessThan)
  moreover have "(\<Sum>i<n. to_go R (pass_barrier (arg_array a ! i) (phases a ! i))) < (\<Sum>i<n. to_go R (phases a ! i))"
    using each len(2) by (intro sum_strict_mono) auto
  ultimately have "arena_measure R (open_barrier a) < arena_measure R a"
    using assms(2) by (simp add: arena_measure_def open_barrier_def)
  then show ?thesis using inv each by (simp add: arena_inv_def open_barrier_def)
qed

lemma advance_step:
  assumes "arena_inv os n reqs a" "program a = Going" "i < length (phases a)" "phases a ! i = Running client k seed h buf"
    and "0 \<le> reqs" "reqs \<le> C_INT_MAX" "nat reqs = R" "core_env_ok (env i)" "reads_bounded (conn i)"
  shows "arena_inv os n reqs (advance_thread conn env i client k seed h buf a)
    \<and> arena_measure R (advance_thread conn env i client k seed h buf a) < arena_measure R a"
proof -
  note inv = assms(1) [unfolded arena_inv_def]
  have i: "i < n" "requests (arg_array a ! i) = reqs" using inv assms(3) by auto
  have ok: "int k \<le> reqs" "counted (int k) (all_stats a ! i)" "length buf = 1024" using inv i(1) assms(4) by auto
  have after: "\<forall>j<n. past_barrier (phases a ! j)" using inv i(1) assms(4) by auto
  show ?thesis
  proof (cases "int k < reqs")
    case True
    have "int k < C_LONG_MAX" using True assms(6) by (simp add: C_INT_MAX_def C_LONG_MAX_def)
    from stress_round_total [OF assms(8,9) ok(3,2) this, of client "thread_id (arg_array a ! i)" k seed "world a" h]
    obtain seed' w' h' buf' st' where r: "stress_round (conn i) (env i) client (thread_id (arg_array a ! i)) k
        (seed, world a, h, buf, all_stats a ! i) = Ret (seed', w', h', buf', st')" "length buf' = 1024" "counted (int (Suc k)) st'"
      by (auto simp: add.commute)
    have step: "advance_thread conn env i client k seed h buf a = a\<lparr>world := w',
        phases := (phases a)[i := Running client (Suc k) seed' h' buf'], all_stats := (all_stats a)[i := st']\<rparr>"
      using True i r(1) by (simp add: advance_thread_def Let_def)
    have "k < R" using True assms(7) by simp
    then have "sum_list (map (to_go R) ((phases a)[i := Running client (Suc k) seed' h' buf'])) < sum_list (map (to_go R) (phases a))"
      using assms(3,4) by (intro sum_update_less) simp_all
    then show ?thesis
      unfolding step using inv after i r(2,3) True assms(2) by (simp add: arena_inv_def arena_measure_def nth_list_update)
  next
    case False
    then have "int k = reqs" using ok(1) by simp
    moreover have "sum_list (map (to_go R) ((phases a)[i := Done])) < sum_list (map (to_go R) (phases a))"
      using assms(3,4) by (intro sum_update_less) simp_all
    ultimately show ?thesis
      using inv after i ok(2) assms(2) by (simp add: advance_thread_def Let_def arena_inv_def arena_measure_def nth_list_update)
  qed
qed

lemma arena_step_inv:
  assumes "arena_step os conn env a b" "arena_inv os n reqs a" "0 \<le> reqs" "reqs \<le> C_INT_MAX" "nat reqs = R"
    and "\<forall>i. core_env_ok (env i) \<and> reads_bounded (conn i)"
  shows "arena_inv os n reqs b \<and> arena_measure R b < arena_measure R a"
  using assms(1)
proof (cases rule: arena_step.cases)
  case (arrive i)
  then show ?thesis using arrive_step [of os n reqs a i R env conn] assms(2-6) by simp
next
  case opens
  then show ?thesis using open_step [of os n reqs a R] assms(2-6) by simp
next
  case (advance i client k seed h buf)
  then show ?thesis using advance_step [of os n reqs a i client k seed h buf R env conn] assms(2-6) by simp
qed

lemma arena_run_inv:
  assumes "(arena_step os conn env ^^ k) a b" "arena_inv os n reqs a" "0 \<le> reqs" "reqs \<le> C_INT_MAX" "nat reqs = R"
    and "\<forall>i. core_env_ok (env i) \<and> reads_bounded (conn i)"
  shows "arena_inv os n reqs b \<and> k + arena_measure R b \<le> arena_measure R a"
  using assms(1)
proof (induction k arbitrary: b)
  case (Suc k)
  then obtain c where c: "(arena_step os conn env ^^ k) a c" "arena_step os conn env c b" by auto
  from Suc.IH [OF c(1)] show ?case using arena_step_inv [OF c(2) _ assms(3-6)] by fastforce
qed (use assms(2) in simp)

lemma arena_progress:
  assumes "arena_inv os n reqs a" "program a = Going" "phases a \<noteq> replicate n Done"
  shows "\<exists>b. arena_step os conn env a b"
proof -
  note inv = assms(1) [unfolded arena_inv_def]
  have len: "length (phases a) = n" "barrier_count a = n" using inv by simp_all
  obtain i where i: "i < n" "phases a ! i \<noteq> Done"
    using assms(3) len(1) by (metis length_replicate nth_equalityI nth_replicate)
  have ok: "thread_ok reqs (phases a ! i) (all_stats a ! i)" using inv i(1) by blast
  consider j where "j < n" "phases a ! j = Preparing" | client k seed h buf where "phases a ! i = Running client k seed h buf"
    | "\<forall>j<n. phases a ! j \<noteq> Preparing" "\<not> past_barrier (phases a ! i)"
    using i ok by (cases "phases a ! i") auto
  then show ?thesis
  proof cases
    case (1 j)
    then show ?thesis using arena_step.arrive [of a j] assms(2) len(1) by blast
  next
    case 2
    then show ?thesis using arena_step.advance [of a i] assms(2) len(1) i(1) by blast
  next
    case 3
    then have before: "\<forall>j<n. \<not> past_barrier (phases a ! j)" using inv i(1) by blast
    have "waits_at_barrier (phases a ! j)" if "j < n" for j
    proof -
      have "thread_ok reqs (phases a ! j) (all_stats a ! j)" using inv that by blast
      then show ?thesis using 3(1) before that by (cases "phases a ! j") (auto simp: waits_at_barrier_def)
    qed
    then have "filter waits_at_barrier (phases a) = phases a" using len(1) by (auto simp: in_set_conv_nth intro!: filter_True)
    then show ?thesis using arena_step.opens [of a] assms(2) len i(1) by auto
  qed
qed

text \<open>The sums of the report.\<close>

lemma add_stats_runs:
  assumes "\<forall>st\<in>set stats. counted reqs st" "0 \<le> x" "0 \<le> y" "0 \<le> reqs" "x + y + int (length stats) * reqs \<le> C_LONG_MAX"
  shows "\<exists>x' y' z'. add_stats stats (x, y, z) = Ret (x', y', z') \<and> 0 \<le> x' \<and> 0 \<le> y' \<and> x' + y' = x + y + int (length stats) * reqs"
  using assms
proof (induction stats arbitrary: x y z)
  case (Cons st stats)
  let ?x = "x + success_count st" and ?y = "y + fail_count st"
  have c: "0 \<le> success_count st" "0 \<le> fail_count st" "success_count st + fail_count st = reqs"
    using Cons.prems(1) by (simp_all add: counted_def)
  have rest: "?x + ?y + int (length stats) * reqs = x + y + int (length (st # stats)) * reqs" using c(3) by (simp add: algebra_simps)
  have "0 \<le> int (length stats) * reqs" using Cons.prems(4) by simp
  then have fit: "?x \<le> C_LONG_MAX" "?y \<le> C_LONG_MAX" "0 \<le> ?x" "0 \<le> ?y" using Cons.prems(2,3,5) c rest by linarith+
  have "add_stats (st # stats) (x, y, z) = add_stats stats (?x, ?y, f64_add z (total_latency_ms st))"
    using fit by (simp add: long_result_nonneg)
  moreover have "\<exists>x' y' z'. add_stats stats (?x, ?y, f64_add z (total_latency_ms st)) = Ret (x', y', z')
      \<and> 0 \<le> x' \<and> 0 \<le> y' \<and> x' + y' = ?x + ?y + int (length stats) * reqs"
    using Cons.prems fit rest by (intro Cons.IH) simp_all
  ultimately show ?case using rest by (simp only:)
qed simp

lemma report_adds_up:
  assumes "\<forall>st\<in>set stats. counted reqs st" "0 \<le> reqs" "int (length stats) * reqs \<le> C_INT_MAX"
  shows "\<exists>succeeded failed rest. stress_report stats gs ge = Ret (int (length stats) * reqs, succeeded, failed, rest)
    \<and> 0 \<le> succeeded \<and> 0 \<le> failed \<and> succeeded + failed = int (length stats) * reqs"
proof -
  have fit: "int (length stats) * reqs \<le> C_LONG_MAX" using assms(3) by (simp add: C_INT_MAX_def C_LONG_MAX_def)
  obtain x y z where sums: "add_stats stats (0, 0, f64_of_nat 0) = Ret (x, y, z)" "0 \<le> x" "0 \<le> y"
    "x + y = int (length stats) * reqs"
    using add_stats_runs [OF assms(1) _ _ assms(2), of 0 0 "f64_of_nat 0"] fit by auto
  moreover have "long_result (int (length stats) * reqs) = Ret (int (length stats) * reqs)"
    using fit sums(2-4) by (simp add: long_result_nonneg [of "int (length stats) * reqs"])
  ultimately show ?thesis by (simp add: stress_report_def Let_def)
qed

text \<open>A thread that could not be created never arrives.\<close>

definition blocked_inv :: "'s arena \<Rightarrow> bool" where
  "blocked_inv a \<longleftrightarrow> barrier_count a = length (phases a) \<and> Not_Created \<in> set (phases a) \<and> (\<forall>p\<in>set (phases a). \<not> past_barrier p)"

lemma blocked_update:
  assumes "blocked_inv a" "i < length (phases a)" "phases a ! i = Preparing"
  shows "Not_Created \<in> set ((phases a)[i := At_Barrier q]) \<and> (\<forall>p\<in>set ((phases a)[i := At_Barrier q]). \<not> past_barrier p)"
proof -
  obtain j where j: "j < length (phases a)" "phases a ! j = Not_Created"
    using assms(1) by (auto simp: blocked_inv_def in_set_conv_nth)
  then have "(phases a)[i := At_Barrier q] ! j = Not_Created" using assms(3) by (cases "i = j") auto
  then have "Not_Created \<in> set ((phases a)[i := At_Barrier q])" using j(1) by (metis length_list_update nth_mem)
  moreover have "set ((phases a)[i := At_Barrier q]) \<subseteq> insert (At_Barrier q) (set (phases a))" by (rule set_update_subset_insert)
  ultimately show ?thesis using assms(1) by (auto simp: blocked_inv_def)
qed

lemma blocked_step: "arena_step os conn env a b \<Longrightarrow> blocked_inv a \<Longrightarrow> blocked_inv b"
proof (induction rule: arena_step.induct)
  case (arrive a i)
  then show ?case using blocked_update [OF arrive(4,2,3)]
    by (auto simp: arrive_thread_def Let_def blocked_inv_def split: run.splits prod.splits prepared.splits)
next
  case (opens a)
  then have "filter waits_at_barrier (phases a) = phases a" by (metis blocked_inv_def length_filter_less less_irrefl filter_id_conv)
  then have "\<forall>p\<in>set (phases a). waits_at_barrier p" by (metis filter_id_conv)
  then show ?case using opens(4) by (auto simp: blocked_inv_def waits_at_barrier_def)
next
  case (advance a i client k seed h recv_buf)
  then have "past_barrier (phases a ! i)" by simp
  then show ?case using advance(2,4) nth_mem [of i "phases a"] by (auto simp: blocked_inv_def)
qed

lemma blocked_run: "(arena_step os conn env)\<^sup>*\<^sup>* a b \<Longrightarrow> blocked_inv a \<Longrightarrow> blocked_inv b"
  by (induction rule: rtranclp_induct) (auto intro: blocked_step)

text \<open>One thread in the arena does what \<open>worker_routine\<close> does.\<close>

definition alone :: "ThreadArgs \<Rightarrow> thread_state \<Rightarrow> ThreadStats \<Rightarrow> 's \<Rightarrow> 's arena" where
  "alone args p st w = \<lparr>arg_array = [args], barrier_count = 1, phases = [p], all_stats = [st], world = w, program = Going\<rparr>"

lemma alone_loop:
  assumes "stress_loop (conn 0) (env 0) client (thread_id args) [k..<R] (seed, w, h, buf, st) = Ret (seed', w', h', buf', st')"
    and "k \<le> R" "nat (requests args) = R"
  shows "(arena_step os conn env)\<^sup>*\<^sup>* (alone args (Running client k seed h buf) st w) (alone args (Running client R seed' h' buf') st' w')"
  using assms(1,2)
proof (induction "R - k" arbitrary: k seed w h buf st)
  case (Suc j)
  then have k: "k < R" "[k..<R] = k # [Suc k..<R]" by (simp_all add: upt_conv_Cons)
  obtain seed1 w1 h1 buf1 st1 where one: "stress_round (conn 0) (env 0) client (thread_id args) k (seed, w, h, buf, st)
      = Ret (seed1, w1, h1, buf1, st1)"
    "stress_loop (conn 0) (env 0) client (thread_id args) [Suc k..<R] (seed1, w1, h1, buf1, st1) = Ret (seed', w', h', buf', st')"
    using Suc.prems(1) k(2) by (auto simp: bind_run_eq_Ret)
  have "int k < requests args" using k(1) assms(3) by auto
  then have "advance_thread conn env 0 client k seed h buf (alone args (Running client k seed h buf) st w)
      = alone args (Running client (Suc k) seed1 h1 buf1) st1 w1"
    using one(1) by (simp add: advance_thread_def alone_def Let_def)
  then have "arena_step os conn env (alone args (Running client k seed h buf) st w) (alone args (Running client (Suc k) seed1 h1 buf1) st1 w1)"
    using arena_step.advance [of "alone args (Running client k seed h buf) st w" 0 client k seed h buf os conn env] by (simp add: alone_def)
  moreover have "(arena_step os conn env)\<^sup>*\<^sup>* (alone args (Running client (Suc k) seed1 h1 buf1) st1 w1) (alone args (Running client R seed' h' buf') st' w')"
    using Suc.hyps(2) k(1) by (intro Suc.hyps(1) one(2)) simp_all
  ultimately show ?case by (rule converse_rtranclp_into_rtranclp)
qed simp

lemma arena_single_thread:
  assumes "worker_routine (os 0) (conn 0) (env 0) args zero_stats w = Ret (tr, Some (w', st))"
    and "start_threads addr prt reqs seed0 [True] w = alone args Preparing zero_stats w"
  shows "(arena_step os conn env)\<^sup>*\<^sup>* (start_threads addr prt reqs seed0 [True] w) (alone args Done st w')"
proof -
  obtain w1 p where p1: "worker_prepare (os 0) (conn 0) (env 0) args w = Ret (w1, p)"
    using assms(1) by (auto simp: worker_routine_def bind_run_eq_Ret)
  then have p: "worker_prepare (os 0) (conn 0) (env 0) args w = Ret (w1, p)" "\<forall>made. p \<noteq> Process_Exits made"
    using assms(1) by (auto simp: worker_routine_def)
  let ?st = "case p of Unconnected made \<Rightarrow> zero_stats\<lparr>fail_count := requests args\<rparr> | _ \<Rightarrow> zero_stats"
  have "arrive_thread os conn env 0 (alone args Preparing zero_stats w) = alone args (At_Barrier p) ?st w1"
    using p by (cases p) (simp_all add: arrive_thread_def alone_def Let_def)
  then have one: "arena_step os conn env (alone args Preparing zero_stats w) (alone args (At_Barrier p) ?st w1)"
    using arena_step.arrive [of "alone args Preparing zero_stats w" 0 os conn env] by (simp add: alone_def)
  have "open_barrier (alone args (At_Barrier p) ?st w1) = alone args (pass_barrier args (At_Barrier p)) ?st w1"
    by (simp add: open_barrier_def alone_def)
  then have two: "arena_step os conn env (alone args (At_Barrier p) ?st w1) (alone args (pass_barrier args (At_Barrier p)) ?st w1)"
    using arena_step.opens [of "alone args (At_Barrier p) ?st w1" os conn env] by (simp add: alone_def waits_at_barrier_def)
  have "(arena_step os conn env)\<^sup>*\<^sup>* (alone args (pass_barrier args (At_Barrier p)) ?st w1) (alone args Done st w')"
  proof (cases p)
    case (Connected made client h buf)
    let ?R = "nat (requests args)"
    obtain seed' h' buf' where loop: "stress_loop (conn 0) (env 0) client (thread_id args) [0..<?R] (rand_seed args, w1, h, buf, zero_stats)
        = Ret (seed', w', h', buf', st)"
      using assms(1) p(1) Connected by (auto simp: worker_routine_def bind_run_eq_Ret)
    have "advance_thread conn env 0 client ?R seed' h' buf' (alone args (Running client ?R seed' h' buf') st w') = alone args Done st w'"
      by (simp add: advance_thread_def alone_def Let_def)
    then have "arena_step os conn env (alone args (Running client ?R seed' h' buf') st w') (alone args Done st w')"
      using arena_step.advance [of "alone args (Running client ?R seed' h' buf') st w'" 0 client ?R seed' h' buf' os conn env]
      by (simp add: alone_def)
    moreover have "(arena_step os conn env)\<^sup>*\<^sup>* (alone args (Running client 0 (rand_seed args) h buf) zero_stats w1)
        (alone args (Running client ?R seed' h' buf') st w')"
      using alone_loop [where conn = conn and env = env and args = args and k = 0 and R = ?R and os = os, OF loop] by simp
    ultimately show ?thesis by (simp add: Connected)
  qed (use assms(1) p in \<open>auto simp: worker_routine_def bind_run_eq_Ret\<close>)
  then show ?thesis unfolding assms(2) using one two by (meson converse_rtranclp_into_rtranclp)
qed

section \<open>Properties\<close>

text \<open>
  C24: one thread of the core stress test, over a connection whose peer does anything. If OpenSSL gives no
  context, the process exits, and the thread never waits at the barrier. If the socket is connected but
  OpenSSL gives no \<open>SSL\<close>, the null pointer is used. Otherwise the thread returns and has waited at the
  barrier exactly once. If it could not connect, and then it waits too, all its requests are counted as
  failed and the peer saw nothing; if it could, it counted every request once: its successes and failures
  are not negative and add up to the number of requests (to 0 if that is negative).
\<close>

theorem stress_thread_accounts:
  assumes "core_env_ok e" "reads_bounded conn" "requests args \<le> C_INT_MAX"
  shows "if ctx_new (core_lib os) = None then worker_routine os conn e args zero_stats s = Ret ([], None)
    else if no_ssl os then worker_routine os conn e args zero_stats s = Fault Null_Pointer
    else \<exists>tr s' st. worker_routine os conn e args zero_stats s = Ret (tr, Some (s', st)) \<and> count_list tr Wait_Barrier = 1
      \<and> (if can_connect os then counted (max 0 (requests args)) st else s' = s \<and> st = zero_stats\<lparr>fail_count := requests args\<rparr>)"
  by (rule worker_accounts [OF assms])

definition demo_core_env :: CoreEnv where
  "demo_core_env = \<lparr>c_rand = \<lambda>i. 1, rand_r = \<lambda>x. (unat x, x + 1), clock = \<lambda>i. (\<lparr>tv_sec = 0, tv_nsec = 0\<rparr>, \<lparr>tv_sec = 0, tv_nsec = 1\<rparr>),
     frame0 = replicate 4096 0, account0 = replicate 20 7, otp_req0 = replicate 20 7,
     login0 = \<lparr>LoginRequest.account_id = replicate 20 7, LoginRequest.otp = replicate 10 7\<rparr>,
     header0 = client_header 0 0 0 0, recv0 = replicate 1024 7, trans0 = \<lambda>i. replicate TRANS_SIZE 7\<rparr>"

definition demo_args :: ThreadArgs where
  "demo_args = \<lparr>thread_id = 0, ip = [], port = 8080, requests = 5, rand_seed = 1\<rparr>"

lemma demo_core_env_ok [simp]: "core_env_ok demo_core_env"
  by (simp add: core_env_ok_def demo_core_env_def)

lemma echo_bounded: "reads_bounded echo_conn"
  by (auto simp: reads_bounded_def echo_conn_def split: if_splits)

lemma good_os_connects: "ctx_new (core_lib good_os) \<noteq> None" "\<not> no_ssl good_os" "can_connect good_os"
  by (simp_all add: good_os_def good_ssl_def demo_ssl_def no_ssl_def can_connect_def)

theorem stress_thread_accounts_witness:
  "\<exists>tr s' st. worker_routine good_os echo_conn demo_core_env demo_args zero_stats [] = Ret (tr, Some (s', st))
    \<and> success_count st + fail_count st = 5 \<and> count_list tr Wait_Barrier = 1"
proof -
  have five: "requests demo_args = 5" "requests demo_args \<le> C_INT_MAX" by (simp_all add: demo_args_def C_INT_MAX_def)
  have "\<exists>tr s' st. worker_routine good_os echo_conn demo_core_env demo_args zero_stats [] = Ret (tr, Some (s', st))
      \<and> count_list tr Wait_Barrier = 1 \<and> counted 5 st"
    using stress_thread_accounts [OF demo_core_env_ok echo_bounded five(2), of good_os "[]"] good_os_connects five(1) by simp
  then show ?thesis by (auto simp: counted_def)
qed

text \<open>
  C23: the core stress test ends, and its totals are right. Every thread was created, each has a connection
  of its own into a world they share, whose peers do anything; the requests of each are \<open>reqs\<close>, not negative,
  and the product with the threads fits an \<open>int\<close> (else printing it overflows, before anything starts).
  However the threads are interleaved, no run has more than \<open>reqs + 3\<close> steps for each of them. While the
  program goes on and not every thread is done, one can step. When every thread is done, each has counted
  its requests once, and the report adds up: its total is threads times requests, of which the
  successes and the failures make up all. The program ends otherwise only if OpenSSL gave some thread
  no context, where the whole process exits, or no \<open>SSL\<close>, where the null pointer is used.
\<close>

theorem core_stress_completes:
  assumes "\<forall>c\<in>set created. c" "\<forall>i. core_env_ok (env i) \<and> reads_bounded (conn i)" "0 \<le> reqs" "reqs \<le> C_INT_MAX"
    and "run_stress_test addr prt reqs seed0 created w = Ret a0" "(arena_step os conn env ^^ k) a0 a"
  shows "k \<le> length created * (nat reqs + 3)
    \<and> (case program a of
        Going \<Rightarrow> if phases a = replicate (length created) Done
          then (\<forall>st\<in>set (all_stats a). counted reqs st)
            \<and> (\<exists>succeeded failed rest. stress_report (all_stats a) global_start global_end
                  = Ret (int (length created) * reqs, succeeded, failed, rest)
                \<and> 0 \<le> succeeded \<and> 0 \<le> failed \<and> succeeded + failed = int (length created) * reqs)
          else \<exists>b. arena_step os conn env a b
      | Exited \<Rightarrow> \<exists>i<length created. ctx_new (core_lib (os i)) = None
      | Crashed e \<Rightarrow> e = Null_Pointer \<and> (\<exists>i<length created. ctx_new (core_lib (os i)) \<noteq> None \<and> no_ssl (os i)))"
proof -
  let ?n = "length created" and ?start = "start_threads addr prt reqs seed0 created w"
  have a0: "a0 = ?start" and fit: "int ?n * reqs \<le> C_INT_MAX"
    using assms(3,5) by (auto simp: run_stress_test_def int_result_nonneg split: if_splits)
  have run: "arena_inv os ?n reqs a \<and> k + arena_measure (nat reqs) a \<le> arena_measure (nat reqs) ?start"
    by (rule arena_run_inv [OF assms(6) [unfolded a0] arena_inv_start [OF assms(1)] assms(3,4) refl assms(2)])
  then have inv: "arena_inv os ?n reqs a" ..
  have "arena_measure (nat reqs) ?start = ?n * (nat reqs + 3)"
    by (simp add: arena_measure_def start_threads_def all_created [OF assms(1)] sum_list_replicate)
  then have bound: "k \<le> ?n * (nat reqs + 3)" using run by simp
  have finished: "(\<forall>st\<in>set (all_stats a). counted reqs st)
      \<and> (\<exists>succeeded failed rest. stress_report (all_stats a) global_start global_end = Ret (int ?n * reqs, succeeded, failed, rest)
          \<and> 0 \<le> succeeded \<and> 0 \<le> failed \<and> succeeded + failed = int ?n * reqs)" if "phases a = replicate ?n Done"
  proof -
    have "length (all_stats a) = ?n" "\<forall>i<?n. thread_ok reqs (phases a ! i) (all_stats a ! i)" using inv by (simp_all add: arena_inv_def)
    then have "\<forall>st\<in>set (all_stats a). counted reqs st" using that by (auto simp: in_set_conv_nth)
    then show ?thesis using report_adds_up [OF _ assms(3), of "all_stats a" global_start global_end] fit \<open>length (all_stats a) = ?n\<close> by simp
  qed
  have "program_ok os ?n (program a)" using inv by (simp add: arena_inv_def)
  then show ?thesis
    using bound finished arena_progress [OF inv, of conn env]
    by (cases "program a") (simp_all add: program_ok_def)
qed

theorem core_stress_completes_witness:
  "\<exists>k a succeeded failed rest. (arena_step (\<lambda>i. good_os) (\<lambda>i. echo_conn) (\<lambda>i. demo_core_env) ^^ k) (start_threads [] 8080 5 1 [True] []) a
    \<and> phases a = [Done] \<and> stress_report (all_stats a) \<lparr>tv_sec = 0, tv_nsec = 0\<rparr> \<lparr>tv_sec = 1, tv_nsec = 0\<rparr> = Ret (5, succeeded, failed, rest)
    \<and> succeeded + failed = 5"
proof -
  let ?step = "arena_step (\<lambda>i. good_os) (\<lambda>i. echo_conn) (\<lambda>i. demo_core_env)" and ?start = "start_threads [] 8080 5 1 [True] []"
  have start: "?start = alone (demo_args\<lparr>rand_seed := 1 + 0\<rparr>) Preparing zero_stats []"
    by (simp add: start_threads_def alone_def demo_args_def)
  have five: "requests (demo_args\<lparr>rand_seed := 1 + 0\<rparr>) \<le> C_INT_MAX" by (simp add: demo_args_def C_INT_MAX_def)
  obtain tr w' st where w: "worker_routine good_os echo_conn demo_core_env (demo_args\<lparr>rand_seed := 1 + 0\<rparr>) zero_stats [] = Ret (tr, Some (w', st))"
    using worker_accounts [OF demo_core_env_ok echo_bounded five, of good_os "[]"] good_os_connects by auto
  let ?a = "alone (demo_args\<lparr>rand_seed := 1 + 0\<rparr>) Done st w'"
  obtain k where k: "(?step ^^ k) ?start ?a"
    using arena_single_thread [where os = "\<lambda>i. good_os" and conn = "\<lambda>i. echo_conn" and env = "\<lambda>i. demo_core_env", OF w start] by (metis rtranclp_power)
  have "run_stress_test [] 8080 5 1 [True] [] = Ret ?start" by (simp add: run_stress_test_def int_result_def C_INT_MAX_def)
  from core_stress_completes [OF _ _ _ _ this k, of "\<lparr>tv_sec = 0, tv_nsec = 0\<rparr>" "\<lparr>tv_sec = 1, tv_nsec = 0\<rparr>"]
  have "\<exists>succeeded failed rest. stress_report (all_stats ?a) \<lparr>tv_sec = 0, tv_nsec = 0\<rparr> \<lparr>tv_sec = 1, tv_nsec = 0\<rparr> = Ret (5, succeeded, failed, rest)
      \<and> succeeded + failed = 5"
    using echo_bounded by (auto simp: alone_def C_INT_MAX_def)
  moreover have "phases ?a = [Done]" by (simp add: alone_def)
  ultimately show ?thesis using k by blast
qed

text \<open>
  C39: a thread that could not be created hangs the others. The barrier is made for all threads, and the
  result of \<open>pthread_create\<close> is not looked at: if one fails, no thread ever gets past the barrier, in
  any run.
\<close>

theorem missing_thread_blocks_the_barrier:
  assumes "False \<in> set created" "(arena_step os conn env)\<^sup>*\<^sup>* (start_threads addr prt reqs seed0 created w) a"
  shows "Done \<notin> set (phases a) \<and> (\<forall>client k seed h recv_buf. Running client k seed h recv_buf \<notin> set (phases a))"
proof -
  have "blocked_inv (start_threads addr prt reqs seed0 created w)" using assms(1) by (auto simp: blocked_inv_def start_threads_def)
  then have "blocked_inv a" using blocked_run [OF assms(2)] by simp
  then show ?thesis by (force simp: blocked_inv_def)
qed

theorem missing_thread_blocks_the_barrier_witness:
  "\<exists>made a. (arena_step (\<lambda>i. good_os\<lparr>core_socket := -1\<rparr>) (\<lambda>i. echo_conn) (\<lambda>i. demo_core_env))\<^sup>*\<^sup>* (start_threads [] 8080 5 1 [True, False] []) a
    \<and> phases a = [At_Barrier (Unconnected made), Not_Created] \<and> Done \<notin> set (phases a)"
proof -
  let ?os = "\<lambda>i :: nat. good_os\<lparr>core_socket := -1\<rparr>" and ?s = "start_threads [] 8080 5 1 [True, False] []"
  let ?step = "arena_step ?os (\<lambda>i. echo_conn) (\<lambda>i. demo_core_env)"
  let ?a = "arrive_thread ?os (\<lambda>i. echo_conn) (\<lambda>i. demo_core_env) 0 ?s"
  have "ctx_new (core_lib (?os 0)) \<noteq> None" "\<not> no_ssl (?os 0)" "\<not> can_connect (?os 0)"
    using good_os_connects(1) by (simp_all add: no_ssl_def can_connect_def)
  then obtain made where "worker_prepare (?os 0) echo_conn demo_core_env (arg_array ?s ! 0) [] = Ret ([], Unconnected made)"
    using worker_prepare_total [OF demo_core_env_ok echo_bounded, of "?os 0" "arg_array ?s ! 0" "[]"] by auto
  then have phases: "phases ?a = [At_Barrier (Unconnected made), Not_Created]" by (simp add: arrive_thread_def Let_def start_threads_def)
  have step: "?step\<^sup>*\<^sup>* ?s ?a" by (intro r_into_rtranclp arena_step.arrive) (simp_all add: start_threads_def)
  have "Done \<notin> set (phases ?a)"
    using missing_thread_blocks_the_barrier [OF _ step] by simp
  then show ?thesis using step phases by blast
qed

text \<open>
  Against the banking server the core stress test counts every request as failed. When every call of
  the system succeeds, each thread's statistics are its requests as failures and nothing else, and the
  state of the server is what it was.
\<close>

theorem core_stress_measures_nothing:
  assumes "core_env_ok e" "ctx_new (core_lib os) = Some c" "0 \<le> core_socket os" "0 < core_inet_pton os" "0 \<le> core_connect os"
    and "ssl_new (core_lib os) = Some i" "0 < connect_result (core_lib os)" "requests args \<le> C_INT_MAX"
  shows "\<exists>tr. worker_routine os (bank_conn link env) e args zero_stats (w, True, [])
    = Ret (tr, Some ((w, False, []), zero_stats\<lparr>fail_count := int (nat (requests args))\<rparr>))"
proof -
  obtain made where init: "client_init (core_lib os) 0 = (made, Some (zero_client\<lparr>ctx := Some c\<rparr>))"
    using assms(2) by (auto simp: client_init_def Let_def)
  obtain linked client where con: "client_connect os SSL_VERIFY_NONE (zero_client\<lparr>ctx := Some c\<rparr>) (port args)
      = Ret (linked, client, 0)" "connected client"
    using assms(3-7) by (auto simp: client_connect_def zero_client_def Let_def SSL_VERIFY_NONE_def SSL_VERIFY_PEER_def)
  have "0 \<le> fail_count zero_stats" "fail_count zero_stats + int (length [0..<nat (requests args)]) \<le> C_LONG_MAX"
    using assms(8) by (simp_all add: zero_stats_def C_INT_MAX_def C_LONG_MAX_def)
  from stress_loop_refused [OF assms(1) this, of link env client "thread_id args" "rand_seed args" w "header0 e" "recv0 e"]
  show ?thesis
    by (auto simp: worker_routine_def worker_prepare_def init con(1) core_login_refused [OF assms(1) con(2)] zero_stats_def)
qed

theorem core_stress_measures_nothing_witness:
  "\<exists>tr. worker_routine good_os (bank_conn no_link demo_env) demo_core_env demo_args zero_stats ((Some init_db, ()), True, [])
    = Ret (tr, Some (((Some init_db, ()), False, []), \<lparr>success_count = 0, fail_count = 5, total_latency_ms = 0\<rparr>))"
  using core_stress_measures_nothing [of demo_core_env good_os 1 2 demo_args no_link demo_env "(Some init_db, ())"]
  by (simp add: good_os_def good_ssl_def demo_ssl_def demo_args_def zero_stats_def C_INT_MAX_def)

end
