(* ===== verification/Shared_Memory.thy ===== *)
theory Shared_Memory
  imports Account
begin

text \<open>
  The shared memory the workers keep the accounts in: \<open>common/include/ipc.h\<close> and \<open>common/src/ipc.c\<close>.

  The kernel's System V segments are a record \<open>Shm\<close>: which segment the key is bound to, and for each
  segment its content and the number of processes attached. \<open>shmget\<close>, \<open>shmat\<close>, \<open>shmdt\<close> and
  \<open>shmctl (IPC_RMID)\<close> are its operations, with their documented effect: a removed segment loses the key
  at once and its memory when the last process detaches. Where a call can fail for reasons of the
  system, its outcome is a field of \<open>IpcEnv\<close>.

  Lemmas: \<open>shm_wf\<close> (the key is bound to a segment that exists, a segment without the key is attached) is
  kept by every operation; \<open>ipc_init_server\<close> leaves a fresh database or nothing.
\<close>

section \<open>Segments\<close>

record Segment =
  content :: AccountDB
  nattch :: nat

record Shm =
  by_key :: "nat option"          \<comment> \<open>the segment of \<open>SHM_KEY\<close>\<close>
  segs :: "nat \<rightharpoonup> Segment"

record IpcEnv =
  fresh_id :: nat       \<comment> \<open>the identifier of the next new segment\<close>
  create_ok :: bool     \<comment> \<open>a segment can be created\<close>
  access_ok :: bool     \<comment> \<open>the existing segment may be used by this process\<close>
  owner_ok :: bool      \<comment> \<open>the existing segment may be removed by this process\<close>
  attach_ok :: bool     \<comment> \<open>\<open>shmat\<close> succeeds\<close>

definition shm_wf :: "Shm \<Rightarrow> bool" where
  "shm_wf k \<longleftrightarrow> (\<forall>i. by_key k = Some i \<longrightarrow> segs k i \<noteq> None)
     \<and> (\<forall>i seg. segs k i = Some seg \<longrightarrow> by_key k \<noteq> Some i \<longrightarrow> 0 < nattch seg)"

datatype shmget_result = Got nat | Exists | Failed

definition shm_create :: "IpcEnv \<Rightarrow> Shm \<Rightarrow> Shm \<times> shmget_result" where
  "shm_create env k =
     (if create_ok env then
        (\<lparr>by_key = Some (fresh_id env), segs = (segs k)(fresh_id env \<mapsto> \<lparr>content = zero_db, nattch = 0\<rparr>)\<rparr>, Got (fresh_id env))
      else (k, Failed))"

text \<open>\<open>shmget (SHM_KEY, \<dots>)\<close> with \<open>IPC_CREAT | IPC_EXCL\<close>, with \<open>IPC_CREAT\<close>, and with neither.\<close>

definition shmget_excl :: "IpcEnv \<Rightarrow> Shm \<Rightarrow> Shm \<times> shmget_result" where
  "shmget_excl env k = (case by_key k of None \<Rightarrow> shm_create env k | Some i \<Rightarrow> (k, Exists))"

definition shmget_find :: "IpcEnv \<Rightarrow> Shm \<Rightarrow> shmget_result" where
  "shmget_find env k = (case by_key k of None \<Rightarrow> Failed | Some i \<Rightarrow> if access_ok env then Got i else Failed)"

definition shmget_creat :: "IpcEnv \<Rightarrow> Shm \<Rightarrow> Shm \<times> shmget_result" where
  "shmget_creat env k = (case by_key k of None \<Rightarrow> shm_create env k
     | Some i \<Rightarrow> (k, if access_ok env then Got i else Failed))"

definition shm_attach :: "nat \<Rightarrow> Shm \<Rightarrow> Shm" where
  "shm_attach i k = k\<lparr>segs := (segs k)(i := map_option (\<lambda>seg. seg\<lparr>nattch := nattch seg + 1\<rparr>) (segs k i))\<rparr>"

text \<open>A segment without the key goes when nobody is attached.\<close>

definition shm_reap :: "nat \<Rightarrow> Shm \<Rightarrow> Shm" where
  "shm_reap i k = (case segs k i of None \<Rightarrow> k
     | Some seg \<Rightarrow> if by_key k \<noteq> Some i \<and> nattch seg = 0 then k\<lparr>segs := (segs k)(i := None)\<rparr> else k)"

definition shm_detach :: "nat \<Rightarrow> Shm \<Rightarrow> Shm" where
  "shm_detach i k = shm_reap i
     (k\<lparr>segs := (segs k)(i := map_option (\<lambda>seg. seg\<lparr>nattch := nattch seg - 1\<rparr>) (segs k i))\<rparr>)"

definition shm_rmid :: "nat \<Rightarrow> Shm \<Rightarrow> Shm" where
  "shm_rmid i k = shm_reap i (k\<lparr>by_key := if by_key k = Some i then None else by_key k\<rparr>)"

definition shm_store :: "nat \<Rightarrow> AccountDB \<Rightarrow> Shm \<Rightarrow> Shm" where
  "shm_store i d k = k\<lparr>segs := (segs k)(i := map_option (\<lambda>seg. seg\<lparr>content := d\<rparr>) (segs k i))\<rparr>"

section \<open>ipc.c\<close>

datatype shm_ptr = Null | Map_Failed | At nat

record IPCContext =
  shm_id :: int
  sem_id :: int
  db :: shm_ptr

definition zero_ctx :: IPCContext where "zero_ctx = \<lparr>shm_id = 0, sem_id = 0, db = Null\<rparr>"

text \<open>The first half of \<open>ipc_init_server\<close>: the segment, created anew if one is there.\<close>

definition ipc_segment :: "IpcEnv \<Rightarrow> Shm \<Rightarrow> Shm \<times> shmget_result" where
  "ipc_segment env k = (case shmget_excl env k of
     (k, Exists) \<Rightarrow>
       shmget_creat env (case shmget_find env k of Got old \<Rightarrow> if owner_ok env then shm_rmid old k else k | _ \<Rightarrow> k)
   | r \<Rightarrow> r)"

definition ipc_init_server :: "IpcEnv \<Rightarrow> Shm \<Rightarrow> IPCContext option \<Rightarrow> (Shm \<times> IPCContext option \<times> int) run" where
  "ipc_init_server env k ctx = (case ctx of None \<Rightarrow> Ret (k, None, -1)
   | Some _ \<Rightarrow> (case ipc_segment env k of
       (k, Got i) \<Rightarrow>
         if \<not> attach_ok env then
           Ret (shm_rmid i k, Some (zero_ctx\<lparr>shm_id := int i, db := Map_Failed\<rparr>), -1)
         else let k = shm_attach i k; ctx = zero_ctx\<lparr>shm_id := int i, db := At i\<rparr> in
           bind_run (account_init (map_option content (segs k i))) (\<lambda>(d, r).
             if r < 0 then Ret (shm_rmid i (shm_detach i k), Some ctx, -1)
             else case d of None \<Rightarrow> Ret (k, Some ctx, 0) | Some d \<Rightarrow> Ret (shm_store i d k, Some ctx, 0))
     | (k, _) \<Rightarrow> Ret (k, Some (zero_ctx\<lparr>shm_id := -1\<rparr>), -1)))"

definition ipc_attach_client :: "IpcEnv \<Rightarrow> Shm \<Rightarrow> IPCContext option \<Rightarrow> Shm \<times> IPCContext option \<times> int" where
  "ipc_attach_client env k ctx = (case ctx of None \<Rightarrow> (k, None, -1)
   | Some _ \<Rightarrow> (case shmget_find env k of
       Got i \<Rightarrow> if attach_ok env then (shm_attach i k, Some (zero_ctx\<lparr>shm_id := int i, db := At i\<rparr>), 0)
                else (k, Some (zero_ctx\<lparr>shm_id := int i, db := Map_Failed\<rparr>), -1)
     | _ \<Rightarrow> (k, Some (zero_ctx\<lparr>shm_id := -1\<rparr>), -1)))"

definition ipc_get_db :: "IPCContext option \<Rightarrow> shm_ptr" where
  "ipc_get_db ctx = (case ctx of None \<Rightarrow> Null | Some c \<Rightarrow> db c)"

definition ipc_cleanup :: "Shm \<Rightarrow> IPCContext option \<Rightarrow> bool \<Rightarrow> Shm run" where
  "ipc_cleanup k ctx is_server = (case ctx of None \<Rightarrow> Ret k
   | Some c \<Rightarrow>
       bind_run (case db c of
           At i \<Rightarrow> bind_run
             (if is_server then
                bind_run (account_cleanup (map_option content (segs k i))) (\<lambda>d.
                  Ret (case d of None \<Rightarrow> k | Some d \<Rightarrow> shm_store i d k))
              else Ret k)
             (\<lambda>k. Ret (shm_detach i k))
         | _ \<Rightarrow> Ret k)
       (\<lambda>k. Ret (if is_server \<and> 0 \<le> shm_id c then shm_rmid (nat (shm_id c)) k else k)))"

section \<open>What the operations keep\<close>

lemmas shm_defs = shm_create_def shm_attach_def shm_reap_def shm_detach_def shm_rmid_def shm_store_def

lemma shm_rmid_wf: "shm_wf k \<Longrightarrow> shm_wf (shm_rmid i k)"
  by (auto simp: shm_wf_def shm_rmid_def shm_reap_def split: option.splits) (metis option.inject)

lemma shm_create_wf: "shm_wf k \<Longrightarrow> by_key k = None \<Longrightarrow> shm_wf (fst (shm_create env k))"
  by (auto simp: shm_wf_def shm_create_def)

lemma shm_attach_wf: "shm_wf k \<Longrightarrow> shm_wf (shm_attach i k)"
  by (auto simp: shm_wf_def shm_attach_def)

lemma shm_detach_wf: "shm_wf k \<Longrightarrow> shm_wf (shm_detach i k)"
  by (auto simp: shm_wf_def shm_detach_def shm_reap_def split: option.splits)

lemma shm_store_wf: "shm_wf k \<Longrightarrow> shm_wf (shm_store i d k)"
  by (auto simp: shm_wf_def shm_store_def)

lemma shm_rmid_key: "by_key (shm_rmid i k) = (if by_key k = Some i then None else by_key k)"
  by (simp add: shm_rmid_def shm_reap_def split: option.split)

text \<open>The segment of the key after the first half: new and empty, unless the old one is not ours.\<close>

lemma ipc_segment_cases:
  assumes "shm_wf k" "segs k (fresh_id env) = None" "by_key k \<noteq> None \<longrightarrow> access_ok env \<and> owner_ok env"
  obtains k' where "ipc_segment env k = (k', if create_ok env then Got (fresh_id env) else Failed)" "shm_wf k'"
    "by_key k' = (if create_ok env then Some (fresh_id env) else None)"
    "segs k' (fresh_id env) = (if create_ok env then Some \<lparr>content = zero_db, nattch = 0\<rparr> else None)"
    "\<And>i. by_key k \<noteq> Some i \<Longrightarrow> i \<noteq> fresh_id env \<Longrightarrow> segs k' i = segs k i"
proof -
  define k1 where "k1 = (case by_key k of None \<Rightarrow> k | Some old \<Rightarrow> shm_rmid old k)"
  have k1: "by_key k1 = None" "shm_wf k1" "segs k1 (fresh_id env) = None"
  proof -
    show "by_key k1 = None" by (auto simp: k1_def shm_rmid_key split: option.split)
    show "shm_wf k1" using assms(1) shm_rmid_wf by (auto simp: k1_def split: option.split)
    show "segs k1 (fresh_id env) = None"
      using assms(2) by (auto simp: k1_def shm_rmid_def shm_reap_def split: option.split)
  qed
  have frame: "segs k1 i = segs k i" if "by_key k \<noteq> Some i" for i
    using that by (auto simp: k1_def shm_rmid_def shm_reap_def split: option.split)
  have "ipc_segment env k = shm_create env k1"
    using assms(3) k1(1)
    by (auto simp: ipc_segment_def shmget_excl_def shmget_find_def shmget_creat_def k1_def shm_create_def
        split: option.splits)
  then show ?thesis
    using that [of "fst (shm_create env k1)"] k1 frame shm_create_wf [OF k1(2,1), of env] by (simp add: shm_create_def)
qed

lemma shm_rmid_fresh:
  assumes "by_key k = Some i" "segs k i = Some \<lparr>content = d, nattch = 0\<rparr>"
  shows "by_key (shm_rmid i k) = None" "segs (shm_rmid i k) i = None" "j \<noteq> i \<Longrightarrow> segs (shm_rmid i k) j = segs k j"
  using assms by (simp_all add: shm_rmid_def shm_reap_def)

lemma shm_attach_store:
  assumes "segs k i = Some \<lparr>content = d, nattch = n\<rparr>"
  shows "by_key (shm_store i d' (shm_attach i k)) = by_key k"
    "segs (shm_store i d' (shm_attach i k)) i = Some \<lparr>content = d', nattch = n + 1\<rparr>"
    "j \<noteq> i \<Longrightarrow> segs (shm_store i d' (shm_attach i k)) j = segs k j"
  using assms by (simp_all add: shm_store_def shm_attach_def)

text \<open>How \<open>ipc_init_server\<close> ends: with the fresh database attached, or with nothing of its own left.\<close>

definition init_outcome :: "IpcEnv \<Rightarrow> Shm \<Rightarrow> Shm \<Rightarrow> IPCContext \<Rightarrow> int \<Rightarrow> bool" where
  "init_outcome env k k' c r \<longleftrightarrow> shm_wf k'
    \<and> (r = 0 \<longleftrightarrow> create_ok env \<and> attach_ok env)
    \<and> (r = 0 \<longrightarrow> db c = At (fresh_id env) \<and> shm_id c = int (fresh_id env) \<and> by_key k' = Some (fresh_id env)
         \<and> segs k' (fresh_id env) = Some \<lparr>content = init_db, nattch = 1\<rparr>)
    \<and> (r \<noteq> 0 \<longrightarrow> r = -1 \<and> by_key k' = None \<and> segs k' (fresh_id env) = None)
    \<and> (\<forall>i. by_key k \<noteq> Some i \<longrightarrow> i \<noteq> fresh_id env \<longrightarrow> segs k' i = segs k i)"

lemma ipc_init_server_runs:
  assumes "shm_wf k" "segs k (fresh_id env) = None" "by_key k \<noteq> None \<longrightarrow> access_ok env \<and> owner_ok env"
  obtains k' c r where "ipc_init_server env k (Some c0) = Ret (k', Some c, r)" "init_outcome env k k' c r"
proof -
  let ?i = "fresh_id env"
  obtain k1 where seg: "ipc_segment env k = (k1, if create_ok env then Got ?i else Failed)" "shm_wf k1"
    "by_key k1 = (if create_ok env then Some ?i else None)"
    "segs k1 ?i = (if create_ok env then Some \<lparr>content = zero_db, nattch = 0\<rparr> else None)"
    "\<And>i. by_key k \<noteq> Some i \<Longrightarrow> i \<noteq> ?i \<Longrightarrow> segs k1 i = segs k i"
    by (rule ipc_segment_cases [OF assms], rule that)
  consider (no_segment) "\<not> create_ok env" | (no_attach) "create_ok env" "\<not> attach_ok env" | (ok) "create_ok env" "attach_ok env"
    by blast
  then show ?thesis
  proof cases
    case no_segment
    then have "ipc_init_server env k (Some c0) = Ret (k1, Some (zero_ctx\<lparr>shm_id := -1\<rparr>), -1)"
      by (simp add: ipc_init_server_def seg(1))
    then show ?thesis using no_segment seg by (intro that) (assumption, simp add: init_outcome_def)
  next
    case no_attach
    then have "ipc_init_server env k (Some c0) = Ret (shm_rmid ?i k1, Some (zero_ctx\<lparr>shm_id := int ?i, db := Map_Failed\<rparr>), -1)"
      by (simp add: ipc_init_server_def seg(1))
    then show ?thesis using no_attach seg shm_rmid_wf [OF seg(2)] shm_rmid_fresh [of k1 ?i zero_db]
      by (intro that) (assumption, simp add: init_outcome_def)
  next
    case ok
    have "account_init (map_option content (segs (shm_attach ?i k1) ?i)) = Ret (Some init_db, 0)"
      using ok seg(4) by (simp add: shm_attach_def account_init_eq)
    then have "ipc_init_server env k (Some c0)
        = Ret (shm_store ?i init_db (shm_attach ?i k1), Some (zero_ctx\<lparr>shm_id := int ?i, db := At ?i\<rparr>), 0)"
      using ok by (simp add: ipc_init_server_def seg(1) Let_def)
    then show ?thesis
      using ok seg shm_store_wf [OF shm_attach_wf [OF seg(2)]] shm_attach_store [of k1 ?i zero_db 0]
      by (intro that) (assumption, simp add: init_outcome_def)
  qed
qed

text \<open>The cleanup of a process attached to segment \<open>i\<close>.\<close>

lemma ipc_cleanup_runs:
  assumes "segs k i = Some \<lparr>content = d, nattch = Suc n\<rparr>" "by_key k = Some i" "db c = At i" "shm_id c = int i"
  shows "ipc_cleanup k (Some c) False = Ret (k\<lparr>segs := (segs k)(i \<mapsto> \<lparr>content = d, nattch = n\<rparr>)\<rparr>)"
    "account_cleanup (Some d) = Ret (Some d') \<Longrightarrow>
      ipc_cleanup k (Some c) True = Ret \<lparr>by_key = None,
        segs = (segs k)(i := if n = 0 then None else Some \<lparr>content = d', nattch = n\<rparr>)\<rparr>"
  using assms by (cases k, simp add: ipc_cleanup_def shm_detach_def shm_reap_def)
    (use assms in \<open>cases k, simp add: ipc_cleanup_def shm_detach_def shm_reap_def shm_store_def shm_rmid_def\<close>)

section \<open>Properties\<close>


text \<open>A kernel with a stale segment of an earlier run that another process still has attached.\<close>

definition stale_shm :: Shm where
  "stale_shm = \<lparr>by_key = Some 7, segs = [7 \<mapsto> \<lparr>content = demo_db, nattch = 1\<rparr>]\<rparr>"

definition demo_ipc :: IpcEnv where
  "demo_ipc = \<lparr>fresh_id = 8, create_ok = True, access_ok = True, owner_ok = True, attach_ok = True\<rparr>"

lemma stale_shm_facts:
  "shm_wf stale_shm" "segs stale_shm (fresh_id demo_ipc) = None" "by_key stale_shm \<noteq> None \<longrightarrow> access_ok demo_ipc \<and> owner_ok demo_ipc"
  by (simp_all add: stale_shm_def demo_ipc_def shm_wf_def)


text \<open>
  The bank lives exactly as long as the server and its users. After a server started, a client that
  attaches and detaches again leaves the content, the key and the number of attached processes as they
  were; the server's own cleanup unbinds the key, destroys the locks (the content is the one
  \<open>account_cleanup\<close> leaves), and the segment is gone at once when nobody else is attached, and otherwise
  stays, without a key, for those who are.
\<close>

theorem segment_outlives_no_user:
  assumes "by_key k = Some i" "segs k i = Some \<lparr>content = d, nattch = Suc n\<rparr>" "access_ok env" "attach_ok env"
    and "db c = At i" "shm_id c = int i" "account_cleanup (Some d) = Ret (Some d')"
  shows "\<exists>k1 c1. ipc_attach_client env k (Some c0) = (k1, Some c1, 0) \<and> ipc_get_db (Some c1) = At i
      \<and> segs k1 i = Some \<lparr>content = d, nattch = Suc (Suc n)\<rparr>
      \<and> ipc_cleanup k1 (Some c1) False = Ret k
      \<and> ipc_cleanup k (Some c) True = Ret \<lparr>by_key = None,
          segs = (segs k)(i := if n = 0 then None else Some \<lparr>content = d', nattch = n\<rparr>)\<rparr>
      \<and> ipc_attach_client env \<lparr>by_key = None, segs = (segs k)(i := if n = 0 then None else Some \<lparr>content = d', nattch = n\<rparr>)\<rparr>
          (Some c0) = (\<lparr>by_key = None, segs = (segs k)(i := if n = 0 then None else Some \<lparr>content = d', nattch = n\<rparr>)\<rparr>,
            Some (zero_ctx\<lparr>shm_id := -1\<rparr>), -1)"
proof -
  let ?k = "shm_attach i k" and ?c = "zero_ctx\<lparr>shm_id := int i, db := At i\<rparr>"
  have at: "segs ?k i = Some \<lparr>content = d, nattch = Suc (Suc n)\<rparr>" "by_key ?k = Some i"
    "?k\<lparr>segs := (segs ?k)(i \<mapsto> \<lparr>content = d, nattch = Suc n\<rparr>)\<rparr> = k"
    using assms(1,2) by (simp_all add: shm_attach_def fun_upd_idem)
  have "ipc_attach_client env k (Some c0) = (?k, Some ?c, 0)"
    using assms(1,3,4) by (simp add: ipc_attach_client_def shmget_find_def)
  moreover have "ipc_cleanup ?k (Some ?c) False = Ret k"
    using ipc_cleanup_runs(1) [OF at(1,2), of ?c] at(3) by simp
  ultimately show ?thesis
    using at(1) ipc_cleanup_runs(2) [OF assms(2,1,5-7)]
    by (simp add: ipc_get_db_def ipc_attach_client_def shmget_find_def)
qed

theorem segment_outlives_no_user_witness:
  "\<exists>d'. ipc_cleanup \<lparr>by_key = Some 8, segs = [8 \<mapsto> \<lparr>content = init_db, nattch = 1\<rparr>]\<rparr>
     (Some (zero_ctx\<lparr>shm_id := 8, db := At 8\<rparr>)) True = Ret \<lparr>by_key = None, segs = \<lambda>i. None\<rparr>"
proof -
  obtain d' where "account_cleanup (Some init_db) = Ret (Some d')"
    by (simp add: account_cleanup_def destroy_locks_free init_db_def)
  then show ?thesis
    using segment_outlives_no_user [of "\<lparr>by_key = Some 8, segs = [8 \<mapsto> \<lparr>content = init_db, nattch = 1\<rparr>]\<rparr>" 8 init_db 0
        demo_ipc "zero_ctx\<lparr>shm_id := 8, db := At 8\<rparr>" d' zero_ctx]
    by (auto simp: demo_ipc_def)
qed

end
