(* ===== verification/Server_Master.thy ===== *)
theory Server_Master
  imports Shared_Memory Tls_Wrapper C_Input "HOL-Library.Multiset"
begin

text \<open>
  The master process of the banking server: the signal handler and the \<open>main\<close> of
  \<open>server/banking_server.c\<close>.

  The state \<open>Master\<close> holds the global variables, the calls made so far (theory \<open>Tls_Wrapper\<close>), the
  segments of the kernel (theory \<open>Shared_Memory\<close>), and of the kernel's processes the workers still
  running, those that ended and were not waited for, those sent \<open>SIGTERM\<close>, and those waited for, by
  \<open>sigchld_handler\<close> or by the loop at the end. \<open>MasterEnv\<close> says what the system answers, at which points
  of the start a shutdown signal arrives, at which points a worker ends by itself, what happens while the
  master waits, and what the workers made of the database meanwhile. A process that \<open>fork\<close> makes is
  attached to the segment as its parent is, and detaches when it ends.

  \<open>wait_step\<close> is the loop \<open>while (keep_running) pause ()\<close>, with a signal possible between any two of
  its steps. The handlers are installed by \<open>signal\<close>, which with the flags of the Makefile restarts the
  \<open>waitpid\<close> it interrupts.

  Lemmas: \<open>workers_inv\<close> relates the workers to the array of their numbers and to the count of processes
  attached; every step keeps it (\<open>child_ends_keeps\<close>, \<open>fork_workers_runs\<close>, \<open>wait_loop_keeps\<close>), and
  \<open>stop_workers\<close> ends it; \<open>master_runs\<close> says how every run of the master ends.
\<close>

section \<open>State\<close>

record Master =
  keep_running :: bool
  server_fd :: int
  ssl_ctx :: "nat option"
  worker_pids :: "int list"
  did :: "call list"
  shm :: Shm
  alive :: "int list"       \<comment> \<open>workers that run\<close>
  zombies :: "int list"     \<comment> \<open>workers that ended and were not waited for\<close>
  termed :: "int list"      \<comment> \<open>sent \<open>SIGTERM\<close>\<close>
  reaped :: "int list"      \<comment> \<open>waited for\<close>

definition MAX_WORKERS :: nat where "MAX_WORKERS = 5"

datatype point = Before_Tls | Before_Ipc | Before_Socket | Before_Bind | Before_Listen | Before_Fork nat | Before_Kill nat | Before_Wait nat

datatype wait_event = Run | Shutdown_Signal | Child_Ends int

record MasterEnv =
  lib :: Openssl
  ipc :: IpcEnv
  socket_result :: int
  bind_result :: "u16 \<Rightarrow> int"
  listen_result :: int
  fork_result :: "nat \<Rightarrow> int"
  interrupts :: "point \<Rightarrow> bool"
  exits :: "point \<Rightarrow> int list"      \<comment> \<open>workers that end there\<close>
  waits :: "wait_event list"
  served :: "AccountDB \<Rightarrow> AccountDB"

section \<open>Signals\<close>

definition signal_handler :: "Master \<Rightarrow> Master" where
  "signal_handler m = (if keep_running m then
      (let m = m\<lparr>keep_running := False\<rparr> in
       if 0 \<le> server_fd m then m\<lparr>did := did m @ close_fd (server_fd m), server_fd := -1\<rparr> else m)
     else m)"

definition interrupted :: "MasterEnv \<Rightarrow> point \<Rightarrow> Master \<Rightarrow> Master" where
  "interrupted env pt m = (if interrupts env pt then signal_handler m else m)"

text \<open>
  \<open>waitpid (-1, NULL, WNOHANG)\<close>: a child that ended, if there is one. The handler takes all of them. A child
  that ends detaches, and its parent gets \<open>SIGCHLD\<close>.
\<close>

definition waitpid_any :: "Master \<Rightarrow> Master \<times> int" where
  "waitpid_any m = (case zombies m of [] \<Rightarrow> (m, if alive m = [] then -1 else 0)
     | pid # pids \<Rightarrow> (m\<lparr>zombies := pids, reaped := reaped m @ [pid]\<rparr>, pid))"

function sigchld_handler :: "Master \<Rightarrow> Master" where
  "sigchld_handler m = (case waitpid_any m of (m', pid) \<Rightarrow> if 0 < pid then sigchld_handler m' else m')"
  by pat_completeness auto
termination
  by (relation "measure (\<lambda>m. length (zombies m))") (auto simp: waitpid_any_def split: list.splits if_splits)

declare sigchld_handler.simps [simp del]

definition child_ends :: "nat \<Rightarrow> int \<Rightarrow> Master \<Rightarrow> Master" where
  "child_ends seg pid m = (if pid \<in> set (alive m)
     then sigchld_handler (m\<lparr>alive := remove1 pid (alive m), zombies := zombies m @ [pid], shm := shm_detach seg (shm m)\<rparr>)
     else m)"

definition children_end :: "MasterEnv \<Rightarrow> nat \<Rightarrow> point \<Rightarrow> Master \<Rightarrow> Master" where
  "children_end env seg pt m = foldl (\<lambda>m pid. child_ends seg pid m) m (exits env pt)"

datatype wait_pc =
    Testing     \<comment> \<open>before the test of \<open>keep_running\<close>\<close>
  | To_Pause    \<comment> \<open>after it, before \<open>pause\<close>\<close>
  | Pausing     \<comment> \<open>in \<open>pause\<close>\<close>
  | Left

fun wait_step :: "nat \<Rightarrow> Master \<times> wait_pc \<Rightarrow> wait_event \<Rightarrow> Master \<times> wait_pc" where
  "wait_step seg (m, Left) ev = (m, Left)"
| "wait_step seg (m, Testing) Run = (m, if keep_running m then To_Pause else Left)"
| "wait_step seg (m, To_Pause) Run = (m, Pausing)"
| "wait_step seg (m, Pausing) Run = (m, Pausing)"
| "wait_step seg (m, p) Shutdown_Signal = (signal_handler m, if p = Pausing then Testing else p)"
| "wait_step seg (m, p) (Child_Ends pid) =
     (if pid \<in> set (alive m) then (child_ends seg pid m, if p = Pausing then Testing else p) else (m, p))"

definition wait_loop :: "nat \<Rightarrow> Master \<times> wait_pc \<Rightarrow> wait_event list \<Rightarrow> Master \<times> wait_pc" where
  "wait_loop seg = foldl (wait_step seg)"

section \<open>The main program\<close>

text \<open>The paths that close, clean up and exit with a failure.\<close>

definition give_up :: "IPCContext \<Rightarrow> Master \<Rightarrow> Master run" where
  "give_up c m = bind_run (ipc_cleanup (shm m) (Some c) True) (\<lambda>k.
     Ret (m\<lparr>shm := k, did := did m @ close_fd (server_fd m) @ tls_cleanup_context (ssl_ctx m)\<rparr>))"

fun fork_workers :: "MasterEnv \<Rightarrow> nat \<Rightarrow> nat list \<Rightarrow> Master \<Rightarrow> Master" where
  "fork_workers env seg [] m = m"
| "fork_workers env seg (i # is) m =
     (let m = interrupted env (Before_Fork i) (children_end env seg (Before_Fork i) m); pid = fork_result env i in
      if pid < 0 then fork_workers env seg is m
      else fork_workers env seg is (m\<lparr>shm := shm_attach seg (shm m), alive := alive m @ [pid],
        worker_pids := (worker_pids m)[i := pid]\<rparr>))"

text \<open>The two loops of the shutdown, over the array \<open>worker_pids\<close> from index \<open>i\<close> on.\<close>

fun kill_workers :: "MasterEnv \<Rightarrow> nat \<Rightarrow> nat \<Rightarrow> int list \<Rightarrow> Master \<Rightarrow> Master" where
  "kill_workers env seg i [] m = m"
| "kill_workers env seg i (pid # pids) m =
     (let m = children_end env seg (Before_Kill i) m in
      kill_workers env seg (Suc i) pids (if 0 < pid then m\<lparr>termed := termed m @ [pid]\<rparr> else m))"

text \<open>
  \<open>waitpid (pid, NULL, 0)\<close>: of a worker that was waited for already it returns at once; of one that nobody
  told to end it does not return, and the result is \<open>None\<close>.
\<close>

definition waitpid :: "nat \<Rightarrow> int \<Rightarrow> Master \<Rightarrow> Master option" where
  "waitpid seg pid m =
     (if pid \<in> set (zombies m) then Some (m\<lparr>zombies := remove1 pid (zombies m), reaped := reaped m @ [pid]\<rparr>)
      else if pid \<in> set (alive m) then
        (if pid \<in> set (termed m) then
           Some (m\<lparr>alive := remove1 pid (alive m), shm := shm_detach seg (shm m), reaped := reaped m @ [pid]\<rparr>)
         else None)
      else Some m)"

fun wait_workers :: "MasterEnv \<Rightarrow> nat \<Rightarrow> nat \<Rightarrow> int list \<Rightarrow> Master \<Rightarrow> Master option" where
  "wait_workers env seg i [] m = Some m"
| "wait_workers env seg i (pid # pids) m =
     (let m = children_end env seg (Before_Wait i) m in
      if 0 < pid then (case waitpid seg pid m of None \<Rightarrow> None | Some m \<Rightarrow> wait_workers env seg (Suc i) pids m)
      else wait_workers env seg (Suc i) pids m)"

datatype master_end = Usage | Failed Master | Waiting Master | Stopped Master

definition shutdown_server :: "MasterEnv \<Rightarrow> nat \<Rightarrow> IPCContext \<Rightarrow> Master \<Rightarrow> master_end run" where
  "shutdown_server env seg c m =
     (case wait_workers env seg 0 (worker_pids m) (kill_workers env seg 0 (worker_pids m) m) of
        None \<Rightarrow> Ret (Waiting m)
      | Some m \<Rightarrow> bind_run (ipc_cleanup (shm m) (Some c) True) (\<lambda>k.
          Ret (Stopped (m\<lparr>shm := k, did := did m @ close_fd (server_fd m) @ tls_cleanup_context (ssl_ctx m)\<rparr>))))"

text \<open>From the fork on; the segment is the one \<open>ipc_get_db\<close> points to.\<close>

definition serve :: "MasterEnv \<Rightarrow> nat \<Rightarrow> IPCContext \<Rightarrow> Master \<Rightarrow> master_end run" where
  "serve env seg c m =
     (case wait_loop seg (fork_workers env seg [0..<MAX_WORKERS] m, Testing) (waits env) of
        (m, Left) \<Rightarrow>
          shutdown_server env seg c (m\<lparr>shm := (case segs (shm m) seg of None \<Rightarrow> shm m
            | Some s \<Rightarrow> shm_store seg (served env (content s)) (shm m))\<rparr>)
      | (m, _) \<Rightarrow> Ret (Waiting m))"

definition server_tls_config :: "int \<Rightarrow> TLSConfig" where
  "server_tls_config verify_client = \<lparr>ca_cert_path = Some DEFAULT_CA_CERT, server_cert_path = Some DEFAULT_SERVER_CERT,
     server_key_path = Some DEFAULT_SERVER_KEY, client_cert_path = None, client_key_path = None, verify_peer = verify_client\<rparr>"

definition open_socket :: "MasterEnv \<Rightarrow> Master \<Rightarrow> Master" where
  "open_socket env m = (let fd = socket_result env in
     m\<lparr>server_fd := fd, did := did m @ (if fd < 0 then [] else [Acquire (Fd fd)])\<rparr>)"

definition listening :: "MasterEnv \<Rightarrow> u16 \<Rightarrow> IPCContext \<Rightarrow> Master \<Rightarrow> master_end run" where
  "listening env port c m =
     (let m = open_socket env (interrupted env Before_Socket m) in
      if server_fd m < 0 then bind_run (give_up c m) (\<lambda>m. Ret (Failed m))
      else let m = interrupted env Before_Bind m in
        if server_fd m < 0 \<or> bind_result env port < 0 then bind_run (give_up c m) (\<lambda>m. Ret (Failed m))
        else let m = interrupted env Before_Listen m in
          if server_fd m < 0 \<or> listen_result env < 0 then bind_run (give_up c m) (\<lambda>m. Ret (Failed m))
          else case ipc_get_db (Some c) of At seg \<Rightarrow> serve env seg c m | _ \<Rightarrow> Fault Null_Pointer)"

definition start_master :: "Shm \<Rightarrow> Master" where
  "start_master k = \<lparr>keep_running = True, server_fd = -1, ssl_ctx = None, worker_pids = replicate MAX_WORKERS 0,
     did = [], shm = k, alive = [], zombies = [], termed = [], reaped = []\<rparr>"

definition master_main :: "MasterEnv \<Rightarrow> byte list list \<Rightarrow> Shm \<Rightarrow> master_end run" where
  "master_main env argv k =
     (if length argv < 2 then Ret Usage
      else bind_run (c_atoi (argv ! 1)) (\<lambda>port.
        bind_run (if 3 \<le> length argv then c_atoi (argv ! 2) else Ret 0) (\<lambda>verify_client.
        let m = interrupted env Before_Tls (start_master k) in
        case tls_create_server_context (lib env) (server_tls_config verify_client) of
          (calls, None) \<Rightarrow> Ret (Failed (m\<lparr>did := did m @ calls\<rparr>))
        | (calls, Some ctx) \<Rightarrow>
            let m = interrupted env Before_Ipc (m\<lparr>did := did m @ calls, ssl_ctx := Some ctx\<rparr>) in
            bind_run (ipc_init_server (ipc env) (shm m) (Some zero_ctx)) (\<lambda>(k, c, r).
              if r \<noteq> 0 then Ret (Failed (m\<lparr>shm := k, did := did m @ tls_cleanup_context (ssl_ctx m)\<rparr>))
              else listening env (word_of_int port) (the c) (m\<lparr>shm := k\<rparr>)))))"

section \<open>What is held\<close>

definition holds :: "Master \<Rightarrow> bool" where
  "holds m \<longleftrightarrow> live {} (did m) = Some (opt_res Ctx (ssl_ctx m) \<union> (if server_fd m < 0 then {} else {Fd (server_fd m)}))"

lemma signal_handler_keeps [simp]:
  "ssl_ctx (signal_handler m) = ssl_ctx m" "worker_pids (signal_handler m) = worker_pids m"
  "shm (signal_handler m) = shm m" "termed (signal_handler m) = termed m" "reaped (signal_handler m) = reaped m"
  "alive (signal_handler m) = alive m" "zombies (signal_handler m) = zombies m"
  "keep_running (signal_handler m) = False"
  by (simp_all add: signal_handler_def Let_def)

lemma interrupted_keeps [simp]:
  "ssl_ctx (interrupted env pt m) = ssl_ctx m" "worker_pids (interrupted env pt m) = worker_pids m"
  "shm (interrupted env pt m) = shm m" "termed (interrupted env pt m) = termed m" "reaped (interrupted env pt m) = reaped m"
  "alive (interrupted env pt m) = alive m" "zombies (interrupted env pt m) = zombies m"
  by (simp_all add: interrupted_def)

lemma signal_holds: "holds m \<Longrightarrow> holds (signal_handler m)"
  by (cases "ssl_ctx m") (auto simp: holds_def signal_handler_def close_fd_def Let_def)

lemma interrupted_holds: "holds m \<Longrightarrow> holds (interrupted env pt m)"
  by (simp add: interrupted_def signal_holds)

lemma interrupted_closed: "server_fd m = -1 \<Longrightarrow> server_fd (interrupted env pt m) = -1"
  by (simp add: interrupted_def signal_handler_def Let_def)

lemma released: "holds m \<Longrightarrow> live {} (did m @ close_fd (server_fd m) @ tls_cleanup_context (ssl_ctx m)) = Some {}"
  by (cases "ssl_ctx m") (auto simp: holds_def close_fd_def tls_cleanup_context_def)

lemma update_holds [simp]: "holds (m\<lparr>shm := k\<rparr>) = holds m" "holds (m\<lparr>worker_pids := ps\<rparr>) = holds m"
  "holds (m\<lparr>alive := ps\<rparr>) = holds m" "holds (m\<lparr>zombies := ps\<rparr>) = holds m"
  "holds (m\<lparr>termed := ps\<rparr>) = holds m" "holds (m\<lparr>reaped := ps\<rparr>) = holds m"
  by (simp_all add: holds_def)

lemma open_socket_holds: "holds m \<Longrightarrow> server_fd m = -1 \<Longrightarrow> holds (open_socket env m)"
  by (auto simp: holds_def open_socket_def Let_def)

section \<open>Workers\<close>

text \<open>The segment holds \<open>d\<close>, has the key, and the master and \<open>n\<close> workers are attached to it.\<close>

definition attached :: "Shm \<Rightarrow> nat \<Rightarrow> AccountDB \<Rightarrow> nat \<Rightarrow> Shm \<Rightarrow> bool" where
  "attached k seg d n k' \<longleftrightarrow> by_key k' = Some seg \<and> segs k' seg = Some \<lparr>content = d, nattch = Suc n\<rparr>
     \<and> (\<forall>j. by_key k \<noteq> Some j \<longrightarrow> j \<noteq> seg \<longrightarrow> segs k' j = segs k j)"

lemma attach_attached: "attached k seg d n k' \<Longrightarrow> attached k seg d (Suc n) (shm_attach seg k')"
  by (simp add: attached_def shm_attach_def)

lemma detach_attached: "attached k seg d (Suc n) k' \<Longrightarrow> attached k seg d n (shm_detach seg k')"
  by (simp add: attached_def shm_detach_def shm_reap_def)

lemma store_attached: "attached k seg d n k' \<Longrightarrow> attached k seg d' n (shm_store seg d' k')"
  by (simp add: attached_def shm_store_def)

abbreviation forked :: "int list \<Rightarrow> int list" where "forked ps \<equiv> filter (\<lambda>p. 0 < p) ps"

text \<open>Every worker the array names runs, attached to the segment, or was waited for; never both, never twice.\<close>

definition workers_inv :: "Shm \<Rightarrow> nat \<Rightarrow> AccountDB \<Rightarrow> Master \<Rightarrow> bool" where
  "workers_inv k seg d m \<longleftrightarrow> attached k seg d (length (alive m)) (shm m) \<and> zombies m = []
     \<and> mset (alive m) + mset (reaped m) = mset (forked (worker_pids m))"

lemma workers_inv_update [simp]:
  "workers_inv k seg d (m\<lparr>termed := ts\<rparr>) = workers_inv k seg d m"
  "workers_inv k seg d (signal_handler m) = workers_inv k seg d m"
  "workers_inv k seg d (interrupted env pt m) = workers_inv k seg d m"
  by (simp_all add: workers_inv_def)

lemma alive_positive: "workers_inv k seg d m \<Longrightarrow> pid \<in> set (alive m) \<Longrightarrow> 0 < pid"
proof -
  assume "workers_inv k seg d m" "pid \<in> set (alive m)"
  then have "pid \<in># mset (alive m) + mset (reaped m)" by simp
  then have "pid \<in># mset (forked (worker_pids m))" using \<open>workers_inv k seg d m\<close> by (simp only: workers_inv_def)
  then show "0 < pid" by simp
qed

lemma subset_without: "A \<subseteq># add_mset b B \<Longrightarrow> b \<notin># A \<Longrightarrow> A \<subseteq># B"
  using subset_eq_diff_conv [of A "{#b#}" B] by (simp add: diff_single_trivial)

lemma length_remove1_Suc: "x \<in> set xs \<Longrightarrow> length xs = Suc (length (remove1 x xs))"
  by (induction xs) auto

lemma detached_inv:
  assumes "workers_inv k seg d m" "pid \<in> set (alive m)"
  shows "workers_inv k seg d (m\<lparr>alive := remove1 pid (alive m), shm := shm_detach seg (shm m), reaped := reaped m @ [pid]\<rparr>)"
proof -
  have "mset (alive m) = add_mset pid (mset (remove1 pid (alive m)))" using assms(2) by simp
  then have "mset (remove1 pid (alive m)) + mset (reaped m @ [pid]) = mset (alive m) + mset (reaped m)" by simp
  then show ?thesis
    using assms(1) detach_attached [of k seg d "length (remove1 pid (alive m))" "shm m"] length_remove1_Suc [OF assms(2)]
    by (simp add: workers_inv_def del: mset_append mset_remove1)
qed

lemma sigchld_none: "zombies m = [] \<Longrightarrow> sigchld_handler m = m"
  by (subst sigchld_handler.simps) (simp add: waitpid_any_def)

lemma sigchld_one: "zombies m = [pid] \<Longrightarrow> 0 < pid \<Longrightarrow> sigchld_handler m = m\<lparr>zombies := [], reaped := reaped m @ [pid]\<rparr>"
  by (subst sigchld_handler.simps) (simp add: waitpid_any_def sigchld_none)

lemma child_ends_reaps:
  assumes "workers_inv k seg d m" "pid \<in> set (alive m)"
  shows "child_ends seg pid m = m\<lparr>alive := remove1 pid (alive m), shm := shm_detach seg (shm m), reaped := reaped m @ [pid]\<rparr>"
proof -
  have none: "zombies m = []" and pos: "0 < pid" using assms(1) alive_positive [OF assms] by (simp_all add: workers_inv_def)
  show ?thesis using assms(2) sigchld_one [OF _ pos] none by (simp add: child_ends_def)
qed

text \<open>What the end of a worker leaves as it is.\<close>

definition same_master :: "Master \<Rightarrow> Master \<Rightarrow> bool" where
  "same_master m m' \<longleftrightarrow> keep_running m' = keep_running m \<and> server_fd m' = server_fd m \<and> ssl_ctx m' = ssl_ctx m \<and> did m' = did m
     \<and> worker_pids m' = worker_pids m \<and> termed m' = termed m \<and> mset (alive m') \<subseteq># mset (alive m)"

lemma same_holds: "same_master m m' \<Longrightarrow> holds m \<Longrightarrow> holds m'"
  by (simp add: same_master_def holds_def)

lemma same_refl [simp]: "same_master m m"
  by (simp add: same_master_def)

lemma same_trans: "same_master m m' \<Longrightarrow> same_master m' m'' \<Longrightarrow> same_master m m''"
  by (auto simp: same_master_def intro: subset_mset.order_trans)

lemma child_ends_keeps:
  assumes "workers_inv k seg d m"
  shows "workers_inv k seg d (child_ends seg pid m) \<and> same_master m (child_ends seg pid m)"
proof (cases "pid \<in> set (alive m)")
  case True
  then show ?thesis
    using detached_inv [OF assms True] by (simp add: child_ends_reaps [OF assms True] same_master_def)
qed (use assms in \<open>simp add: child_ends_def\<close>)

lemma children_end_keeps:
  "workers_inv k seg d m \<Longrightarrow> workers_inv k seg d (children_end env seg pt m) \<and> same_master m (children_end env seg pt m)"
proof -
  have "workers_inv k seg d m \<Longrightarrow>
    workers_inv k seg d (foldl (\<lambda>m pid. child_ends seg pid m) m ps) \<and> same_master m (foldl (\<lambda>m pid. child_ends seg pid m) m ps)" for ps
  proof (induction ps arbitrary: m)
    case (Cons p ps)
    then show ?case using child_ends_keeps [OF Cons.prems, of p] same_trans by fastforce
  qed simp
  then show "workers_inv k seg d m \<Longrightarrow> workers_inv k seg d (children_end env seg pt m) \<and> same_master m (children_end env seg pt m)"
    by (simp add: children_end_def)
qed

text \<open>The loop: what it keeps, and that it is only left after a shutdown signal.\<close>

lemma wait_step_keeps:
  assumes "wait_step seg (m, p) ev = (m', q)" "holds m" "p = Left \<longrightarrow> \<not> keep_running m" "workers_inv k seg d m"
  shows "worker_pids m' = worker_pids m \<and> ssl_ctx m' = ssl_ctx m \<and> termed m' = termed m \<and> workers_inv k seg d m'
    \<and> holds m' \<and> (q = Left \<longrightarrow> \<not> keep_running m')"
proof -
  have child: "workers_inv k seg d (child_ends seg pid m) \<and> holds (child_ends seg pid m) \<and> same_master m (child_ends seg pid m)" for pid
    using child_ends_keeps [OF assms(4)] same_holds assms(2) by blast
  show ?thesis
    using assms child
    by (cases "(seg, (m, p), ev)" rule: wait_step.cases) (auto simp: signal_holds same_master_def split: if_splits)
qed

lemma wait_loop_keeps:
  assumes "wait_loop seg (m, p) evs = (m', q)" "holds m" "p = Left \<longrightarrow> \<not> keep_running m" "workers_inv k seg d m"
  shows "worker_pids m' = worker_pids m \<and> ssl_ctx m' = ssl_ctx m \<and> termed m' = termed m \<and> workers_inv k seg d m'
    \<and> holds m' \<and> (q = Left \<longrightarrow> \<not> keep_running m')"
  using assms
proof (induction evs arbitrary: m p)
  case (Cons ev evs)
  obtain m1 p1 where s: "wait_step seg (m, p) ev = (m1, p1)" by force
  then have "wait_loop seg (m1, p1) evs = (m', q)" using Cons.prems(1) by (simp add: wait_loop_def)
  then show ?case using Cons.IH [of m1 p1] wait_step_keeps [OF s Cons.prems(2-4)] by simp
qed (simp add: wait_loop_def)

lemma forked_update: "i < length ps \<Longrightarrow> ps ! i = 0 \<Longrightarrow> 0 < p \<Longrightarrow> mset (forked (ps[i := p])) = add_mset p (mset (forked ps))"
  by (induction ps arbitrary: i) (auto split: nat.splits)

lemma fork_workers_runs:
  assumes "workers_inv k seg d m" "distinct is" "\<forall>i\<in>set is. i < length (worker_pids m) \<and> worker_pids m ! i = 0"
    and "\<forall>i. fork_result env i \<noteq> 0" "holds m" "fork_workers env seg is m = m'"
  shows "workers_inv k seg d m' \<and> holds m' \<and> ssl_ctx m' = ssl_ctx m \<and> termed m' = termed m"
  using assms
proof (induction "is" arbitrary: m)
  case (Cons i "is")
  define m1 where "m1 = interrupted env (Before_Fork i) (children_end env seg (Before_Fork i) m)"
  have m1: "workers_inv k seg d m1" "holds m1" "worker_pids m1 = worker_pids m" "ssl_ctx m1 = ssl_ctx m" "termed m1 = termed m"
    using children_end_keeps [OF Cons.prems(1), of env "Before_Fork i"] same_holds Cons.prems(5)
    by (auto simp: m1_def interrupted_holds same_master_def)
  have pids: "worker_pids m1 ! i = 0" "i < length (worker_pids m1)" using Cons.prems(3) m1(3) by simp_all
  have main: "fork_workers env seg (i # is) m = (if fork_result env i < 0 then fork_workers env seg is m1
      else fork_workers env seg is (m1\<lparr>shm := shm_attach seg (shm m1), alive := alive m1 @ [fork_result env i],
        worker_pids := (worker_pids m1)[i := fork_result env i]\<rparr>))"
    by (simp add: m1_def Let_def)
  show ?case
  proof (cases "fork_result env i < 0")
    case True
    then show ?thesis using Cons.IH [OF m1(1)] Cons.prems m1 main by simp
  next
    case False
    then have pos: "0 < fork_result env i" using Cons.prems(4) by (metis linorder_neqE_linordered_idom)
    let ?n = "m1\<lparr>shm := shm_attach seg (shm m1), alive := alive m1 @ [fork_result env i],
        worker_pids := (worker_pids m1)[i := fork_result env i]\<rparr>"
    have "workers_inv k seg d ?n"
      using m1(1) attach_attached [of k seg d "length (alive m1)"] forked_update [OF pids(2,1) pos]
      by (simp add: workers_inv_def)
    moreover have "\<forall>j\<in>set is. j < length (worker_pids ?n) \<and> worker_pids ?n ! j = 0"
      using Cons.prems(2,3) m1(3) by (auto simp: nth_list_update)
    ultimately show ?thesis
      using Cons.IH [of ?n] Cons.prems(2,4,6) m1(2,4,5) main False by simp
  qed
qed simp

lemma kill_workers_runs:
  assumes "workers_inv k seg d m"
  shows "workers_inv k seg d (kill_workers env seg i ps m)
    \<and> same_master (m\<lparr>termed := termed m @ forked ps\<rparr>) (kill_workers env seg i ps m)"
  using assms
proof (induction ps arbitrary: i m)
  case (Cons p ps)
  let ?m = "children_end env seg (Before_Kill i) m"
  note one = children_end_keeps [OF Cons.prems, of env "Before_Kill i"]
  let ?n = "if 0 < p then ?m\<lparr>termed := termed ?m @ [p]\<rparr> else ?m"
  have "workers_inv k seg d ?n" using one by simp
  from Cons.IH [OF this, of "Suc i"] one show ?case
    by (auto simp: Let_def same_master_def intro: subset_mset.order_trans)
qed (simp add: same_master_def)

lemma wait_workers_runs:
  assumes "workers_inv k seg d m" "mset (alive m) \<subseteq># mset (forked ps)" "set (forked ps) \<subseteq> set (termed m)"
  shows "\<exists>m'. wait_workers env seg i ps m = Some m' \<and> workers_inv k seg d m' \<and> same_master m m' \<and> alive m' = []"
  using assms
proof (induction ps arbitrary: i m)
  case (Cons p ps)
  let ?m = "children_end env seg (Before_Wait i) m"
  have one: "workers_inv k seg d ?m" "same_master m ?m" using children_end_keeps [OF Cons.prems(1)] by simp_all
  then have sub: "mset (alive ?m) \<subseteq># mset (forked (p # ps))" and t: "termed ?m = termed m"
    using Cons.prems(2) by (auto simp: same_master_def intro: subset_mset.order_trans)
  have waited: "\<exists>m1. (if 0 < p then waitpid seg p ?m else Some ?m) = Some m1 \<and> workers_inv k seg d m1 \<and> same_master ?m m1
      \<and> mset (alive m1) \<subseteq># mset (forked ps)"
  proof (cases "0 < p \<and> p \<in> set (alive ?m)")
    case True
    let ?n = "?m\<lparr>alive := remove1 p (alive ?m), shm := shm_detach seg (shm ?m), reaped := reaped ?m @ [p]\<rparr>"
    have "waitpid seg p ?m = Some ?n" using True one(1) Cons.prems(3) t by (simp add: waitpid_def workers_inv_def)
    moreover have "same_master ?m ?n" by (simp add: same_master_def)
    moreover have "mset (alive ?n) \<subseteq># mset (forked ps)" using sub True by (simp add: subset_eq_diff_conv)
    ultimately show ?thesis using True detached_inv [OF one(1)] by auto
  next
    case False
    then have "(if 0 < p then waitpid seg p ?m else Some ?m) = Some ?m" using one(1) by (simp add: waitpid_def workers_inv_def)
    moreover have "mset (alive ?m) \<subseteq># mset (forked ps)"
    proof (cases "0 < p")
      case True
      then have out: "p \<notin># mset (alive ?m)" using False by simp
      have "mset (alive ?m) \<subseteq># add_mset p (mset (forked ps))" using sub True by simp
      from subset_without [OF this out] show ?thesis .
    qed (use sub in simp)
    ultimately show ?thesis using one(1) by auto
  qed
  then obtain m1 where m1: "(if 0 < p then waitpid seg p ?m else Some ?m) = Some m1" "workers_inv k seg d m1"
    "same_master ?m m1" "mset (alive m1) \<subseteq># mset (forked ps)" by blast
  have "set (forked ps) \<subseteq> set (termed m1)" using m1(3) t Cons.prems(3) by (auto simp: same_master_def)
  from Cons.IH [OF m1(2,4) this, of "Suc i"] obtain m' where
    "wait_workers env seg (Suc i) ps m1 = Some m'" "workers_inv k seg d m'" "same_master m1 m'" "alive m' = []" by blast
  moreover have "wait_workers env seg i (p # ps) m = wait_workers env seg (Suc i) ps m1"
    using m1(1) by (cases "0 < p") (simp_all add: Let_def)
  ultimately show ?case using same_trans [OF one(2)] same_trans [OF m1(3)] by metis
qed auto

text \<open>Where no worker ends by itself meanwhile, they are waited for in the order of the array.\<close>

lemma workers_in_order:
  assumes "\<forall>pt. exits env pt = []" "alive m = forked ps" "zombies m = []" "set (forked ps) \<subseteq> set (termed m)"
  shows "\<exists>m'. wait_workers env seg i ps m = Some m' \<and> reaped m' = reaped m @ forked ps"
  using assms(2-4)
proof (induction ps arbitrary: i m)
  case (Cons p ps)
  have none: "children_end env seg pt m = m" for pt using assms(1) by (simp add: children_end_def)
  show ?case
  proof (cases "0 < p")
    case True
    let ?n = "m\<lparr>alive := forked ps, shm := shm_detach seg (shm m), reaped := reaped m @ [p]\<rparr>"
    have "waitpid seg p m = Some ?n" using Cons.prems True by (simp add: waitpid_def)
    then show ?thesis using Cons.IH [of ?n "Suc i"] Cons.prems True by (auto simp: none Let_def)
  next
    case False
    then show ?thesis using Cons by (simp add: none Let_def)
  qed
qed simp

section \<open>How the master ends\<close>

text \<open>
  What an end leaves: everything of the system released, and of the segments those that were not the
  key's before.
\<close>

definition clean :: "Shm \<Rightarrow> nat \<Rightarrow> Master \<Rightarrow> bool" where
  "clean k seg m \<longleftrightarrow> live {} (did m) = Some {} \<and> segs (shm m) seg = None
     \<and> (\<forall>j. by_key k \<noteq> Some j \<longrightarrow> j \<noteq> seg \<longrightarrow> segs (shm m) j = segs k j)"

definition ends_clean :: "MasterEnv \<Rightarrow> Shm \<Rightarrow> master_end \<Rightarrow> bool" where
  "ends_clean env k out \<longleftrightarrow> (case out of Usage \<Rightarrow> True
     | Failed m \<Rightarrow> clean k (fresh_id (ipc env)) m \<and> (shm m = k \<or> by_key (shm m) = None)
     | Waiting m \<Rightarrow> holds m \<and> (\<exists>m0 q. q \<noteq> Left \<and> wait_loop (fresh_id (ipc env)) (m0, Testing) (waits env) = (m, q))
     | Stopped m \<Rightarrow> clean k (fresh_id (ipc env)) m \<and> by_key (shm m) = None \<and> \<not> keep_running m
         \<and> mset (reaped m) = mset (forked (worker_pids m)) \<and> alive m = [] \<and> zombies m = []
         \<and> termed m = forked (worker_pids m)
         \<and> (\<exists>d'. account_cleanup (Some (served env init_db)) = Ret (Some d')))"

text \<open>A run ends so, or in the fault of the cleanup of what the workers left of the database.\<close>

definition master_outcome :: "MasterEnv \<Rightarrow> Shm \<Rightarrow> master_end run \<Rightarrow> bool" where
  "master_outcome env k r \<longleftrightarrow> (case r of Ret out \<Rightarrow> ends_clean env k out
     | Fault e \<Rightarrow> account_cleanup (Some (served env init_db)) = Fault e)"

text \<open>The answers of the system the code relies on.\<close>

definition master_env_ok :: "MasterEnv \<Rightarrow> Shm \<Rightarrow> bool" where
  "master_env_ok env k \<longleftrightarrow> shm_wf k \<and> segs k (fresh_id (ipc env)) = None
     \<and> (by_key k \<noteq> None \<longrightarrow> access_ok (ipc env) \<and> owner_ok (ipc env)) \<and> (\<forall>i. fork_result env i \<noteq> 0)"

lemma init_db_cleanup: "\<exists>d'. account_cleanup (Some init_db) = Ret (Some d')"
  by (simp add: account_cleanup_def destroy_locks_free init_db_def)

lemma give_up_clean:
  assumes "holds m" "attached k seg d 0 (shm m)" "db c = At seg" "shm_id c = int seg" "account_cleanup (Some d) = Ret (Some d')"
  shows "\<exists>m'. give_up c m = Ret m' \<and> clean k seg m' \<and> by_key (shm m') = None"
proof -
  have seg: "segs (shm m) seg = Some \<lparr>content = d, nattch = Suc 0\<rparr>" "by_key (shm m) = Some seg"
    using assms(2) by (simp_all add: attached_def)
  show ?thesis
    using ipc_cleanup_runs(2) [OF seg assms(3-5)] released [OF assms(1)] assms(2)
    by (simp add: give_up_def clean_def attached_def)
qed

lemma account_cleanup_some: "account_cleanup (Some d) = Ret x \<Longrightarrow> \<exists>d'. x = Some d'"
  by (auto simp: account_cleanup_def bind_run_eq_Ret split: mutex.splits if_splits)

lemma stop_workers:
  assumes "workers_inv k seg d m" "termed m = []"
  shows "\<exists>m'. wait_workers env seg 0 (worker_pids m) (kill_workers env seg 0 (worker_pids m) m) = Some m'
    \<and> workers_inv k seg d m' \<and> same_master (m\<lparr>termed := forked (worker_pids m)\<rparr>) m' \<and> alive m' = []"
proof -
  let ?ps = "worker_pids m" and ?n = "kill_workers env seg 0 (worker_pids m) m"
  have n: "workers_inv k seg d ?n" "same_master (m\<lparr>termed := forked ?ps\<rparr>) ?n"
    using kill_workers_runs [OF assms(1), of env 0 ?ps] assms(2) by simp_all
  have "mset (alive ?n) \<subseteq># mset (alive ?n) + mset (reaped ?n)" by simp
  then have "mset (alive ?n) \<subseteq># mset (forked ?ps)" using n by (simp only: workers_inv_def same_master_def) simp
  moreover have "set (forked ?ps) \<subseteq> set (termed ?n)" using n(2) by (simp add: same_master_def)
  ultimately show ?thesis using wait_workers_runs [OF n(1), of ?ps env 0] same_trans [OF n(2)] by blast
qed

lemma shutdown_runs:
  assumes "holds m" "workers_inv k seg d m" "db c = At seg" "shm_id c = int seg" "\<not> keep_running m" "termed m = []"
  shows "case account_cleanup (Some d) of Fault e \<Rightarrow> shutdown_server env seg c m = Fault e
    | Ret _ \<Rightarrow> \<exists>m'. shutdown_server env seg c m = Ret (Stopped m') \<and> clean k seg m' \<and> by_key (shm m') = None \<and> \<not> keep_running m'
        \<and> worker_pids m' = worker_pids m \<and> mset (reaped m') = mset (forked (worker_pids m)) \<and> alive m' = [] \<and> zombies m' = []
        \<and> termed m' = forked (worker_pids m)
        \<and> ((\<forall>pt. exits env pt = []) \<and> alive m = forked (worker_pids m) \<longrightarrow> reaped m' = reaped m @ forked (worker_pids m))"
proof -
  obtain m1 where m1: "wait_workers env seg 0 (worker_pids m) (kill_workers env seg 0 (worker_pids m) m) = Some m1"
    "workers_inv k seg d m1" "same_master (m\<lparr>termed := forked (worker_pids m)\<rparr>) m1" "alive m1 = []"
    using stop_workers [OF assms(2,6)] by blast
  have "holds m1" using same_holds [OF m1(3)] assms(1) by simp
  note free = released [OF this]
  have seg: "segs (shm m1) seg = Some \<lparr>content = d, nattch = Suc 0\<rparr>" "by_key (shm m1) = Some seg"
    using m1(2,4) by (simp_all add: workers_inv_def attached_def)
  have order: "reaped m1 = reaped m @ forked (worker_pids m)"
    if "\<forall>pt. exits env pt = []" "alive m = forked (worker_pids m)"
  proof -
    have none: "children_end env seg pt x = x" for pt x using that(1) by (simp add: children_end_def)
    have killed: "kill_workers env seg i ps x = x\<lparr>termed := termed x @ forked ps\<rparr>" for i ps x
      by (induction ps arbitrary: i x) (simp_all add: none Let_def)
    have "zombies m = []" using assms(2) by (simp add: workers_inv_def)
    then show ?thesis
      using workers_in_order [OF that(1), of "m\<lparr>termed := forked (worker_pids m)\<rparr>" "worker_pids m" seg 0] that(2) m1(1) assms(6)
      by (simp add: killed)
  qed
  show ?thesis
  proof (cases "account_cleanup (Some d)")
    case (Fault e)
    then show ?thesis
      using m1(1) seg assms(3) by (simp add: shutdown_server_def ipc_cleanup_def)
  next
    case (Ret x)
    then obtain d' where d': "account_cleanup (Some d) = Ret (Some d')" using account_cleanup_some by blast
    obtain k' where k': "ipc_cleanup (shm m1) (Some c) True = Ret k'" "segs k' seg = None" "by_key k' = None"
      "\<forall>j. by_key k \<noteq> Some j \<longrightarrow> j \<noteq> seg \<longrightarrow> segs k' j = segs k j"
      using ipc_cleanup_runs(2) [OF seg assms(3,4) d'] m1(2) by (auto simp: workers_inv_def attached_def)
    then show ?thesis
      using m1 free d' order assms(5)
      by (simp add: shutdown_server_def clean_def workers_inv_def same_master_def)
  qed
qed

lemma serve_ends:
  assumes "holds m" "workers_inv k seg init_db m" "db c = At seg" "shm_id c = int seg" "\<forall>i. fork_result env i \<noteq> 0"
    and "worker_pids m = replicate MAX_WORKERS 0" "termed m = []" "fresh_id (ipc env) = seg"
  shows "master_outcome env k (serve env seg c m)"
proof -
  obtain m1 where m1: "fork_workers env seg [0..<MAX_WORKERS] m = m1" by simp
  have at1: "workers_inv k seg init_db m1 \<and> holds m1 \<and> ssl_ctx m1 = ssl_ctx m \<and> termed m1 = termed m"
    using assms(1,2,6) by (intro fork_workers_runs [OF _ _ _ assms(5) _ m1]) simp_all
  obtain m2 q where m2: "wait_loop seg (m1, Testing) (waits env) = (m2, q)" by force
  from at1 have h: "holds m1" "workers_inv k seg init_db m1" by simp_all
  from wait_loop_keeps [OF m2 h(1) _ h(2)] have keep: "termed m2 = termed m1" "workers_inv k seg init_db m2" "holds m2"
    "q = Left \<longrightarrow> \<not> keep_running m2" by simp_all
  show ?thesis
  proof (cases "q = Left")
    case True
    let ?m = "m2\<lparr>shm := shm_store seg (served env init_db) (shm m2)\<rparr>"
    have "segs (shm m2) seg = Some \<lparr>content = init_db, nattch = Suc (length (alive m2))\<rparr>"
      using keep(2) by (simp add: workers_inv_def attached_def)
    then have main: "serve env seg c m = shutdown_server env seg c ?m" using m1 m2 True by (simp add: serve_def)
    have inv: "workers_inv k seg (served env init_db) ?m"
      using keep(2) store_attached [of k seg init_db] by (simp add: workers_inv_def)
    show ?thesis
      using shutdown_runs [OF _ inv assms(3,4), of env] True keep at1 assms(7,8) account_cleanup_some [of "served env init_db"]
      by (cases "account_cleanup (Some (served env init_db))") (auto simp: master_outcome_def ends_clean_def main)
  next
    case False
    then have "serve env seg c m = Ret (Waiting m2)" using m1 m2 by (cases q) (simp_all add: serve_def)
    then show ?thesis using keep(3) m2 False assms(8) by (auto simp: master_outcome_def ends_clean_def)
  qed
qed

lemma listening_ends:
  assumes "holds m" "server_fd m = -1" "workers_inv k seg init_db m" "alive m = []" "db c = At seg" "shm_id c = int seg"
    and "\<forall>i. fork_result env i \<noteq> 0" "fresh_id (ipc env) = seg" "worker_pids m = replicate MAX_WORKERS 0" "termed m = []"
  shows "master_outcome env k (listening env port c m)"
proof -
  define m1 where "m1 = open_socket env (interrupted env Before_Socket m)"
  define m2 where "m2 = interrupted env Before_Bind m1"
  define m3 where "m3 = interrupted env Before_Listen m2"
  have m1: "holds m1" using open_socket_holds interrupted_holds [OF assms(1)] interrupted_closed [OF assms(2)] by (simp add: m1_def)
  then have h: "holds m2" "holds m3" by (simp_all add: m2_def m3_def interrupted_holds)
  have same: "shm m' = shm m \<and> worker_pids m' = worker_pids m \<and> termed m' = termed m \<and> workers_inv k seg init_db m'"
    if "m' \<in> {m1, m2, m3}" for m'
    using that assms(3) by (auto simp: m1_def m2_def m3_def open_socket_def Let_def workers_inv_def)
  have at0: "attached k seg init_db 0 (shm m)" using assms(3,4) by (simp add: workers_inv_def)
  obtain d' where d': "account_cleanup (Some init_db) = Ret (Some d')" using init_db_cleanup by blast
  have failed: "master_outcome env k (bind_run (give_up c m') (\<lambda>m. Ret (Failed m)))" if "m' \<in> {m1, m2, m3}" for m'
  proof -
    have "holds m'" "attached k seg init_db 0 (shm m')" using that m1 h same [OF that] at0 by auto
    then show ?thesis
      using give_up_clean [of m' k seg init_db c d'] assms(5,6,8) d' by (auto simp: master_outcome_def ends_clean_def)
  qed
  have "master_outcome env k (serve env seg c m3)"
    using serve_ends [of m3 k seg c env] h(2) same [of m3] assms by simp
  then show ?thesis
    using failed [of m1] failed [of m2] failed [of m3] assms(5)
    by (simp add: listening_def m1_def [symmetric] m2_def [symmetric] m3_def [symmetric] Let_def ipc_get_db_def)
qed

lemma c_atoi_total: "terminated a \<Longrightarrow> \<exists>v. c_atoi a = Ret v"
  by (simp add: c_atoi_def)

lemma master_runs:
  assumes "master_env_ok env k" "\<forall>a\<in>set argv. terminated a"
  shows "master_outcome env k (master_main env argv k)"
proof (cases "length argv < 2")
  case True
  then show ?thesis by (simp add: master_main_def master_outcome_def ends_clean_def)
next
  case False
  note ok = assms(1) [unfolded master_env_ok_def]
  obtain port where port: "c_atoi (argv ! 1) = Ret port" using False assms(2) c_atoi_total [of "argv ! 1"] by auto
  obtain v where v: "(if 3 \<le> length argv then c_atoi (argv ! 2) else Ret 0) = Ret v"
    using assms(2) c_atoi_total [of "argv ! 2"] by (cases "3 \<le> length argv") auto
  define m0 where "m0 = interrupted env Before_Tls (start_master k)"
  have m0: "holds m0" "server_fd m0 = -1" "did m0 = []" "ssl_ctx m0 = None" "shm m0 = k" "worker_pids m0 = replicate MAX_WORKERS 0"
    "termed m0 = []" "reaped m0 = []" "alive m0 = []" "zombies m0 = []"
    by (simp_all add: m0_def start_master_def interrupted_closed interrupted_holds holds_def interrupted_def
        signal_handler_def Let_def)
  obtain calls ctx where tls: "tls_create_server_context (lib env) (server_tls_config v) = (calls, ctx)" by force
  have live: "live {} calls = Some (opt_res Ctx ctx)"
    using live_server_context [of "lib env" "{}" "server_tls_config v"] tls by (simp add: fresh_ctx_def)
  show ?thesis
  proof (cases ctx)
    case None
    have "clean k (fresh_id (ipc env)) (m0\<lparr>did := did m0 @ calls\<rparr>)"
      using live None m0 ok by (simp add: clean_def)
    then show ?thesis
      using False port v None tls m0(5)
      by (simp add: master_main_def m0_def [symmetric] Let_def ends_clean_def master_outcome_def)
  next
    case (Some x)
    define m1 where "m1 = interrupted env Before_Ipc (m0\<lparr>did := did m0 @ calls, ssl_ctx := Some x\<rparr>)"
    have m1: "holds m1" "server_fd m1 = -1" "shm m1 = k" "worker_pids m1 = replicate MAX_WORKERS 0" "termed m1 = []" "reaped m1 = []"
      "alive m1 = []" "zombies m1 = []"
    proof -
      have "holds (m0\<lparr>did := did m0 @ calls, ssl_ctx := Some x\<rparr>)" using m0 live Some by (simp add: holds_def)
      then show "holds m1" by (simp add: m1_def interrupted_holds)
    qed (use m0 in \<open>simp_all add: m1_def interrupted_closed\<close>)
    obtain k' c r where init: "ipc_init_server (ipc env) k (Some zero_ctx) = Ret (k', Some c, r)" "init_outcome (ipc env) k k' c r"
      using ipc_init_server_runs ok by metis
    have main: "master_main env argv k = (if r \<noteq> 0 then Ret (Failed (m1\<lparr>shm := k', did := did m1 @ tls_cleanup_context (ssl_ctx m1)\<rparr>))
        else listening env (word_of_int port) c (m1\<lparr>shm := k'\<rparr>))"
      using False port v Some tls init(1) m0(5)
      by (simp add: master_main_def m0_def [symmetric] Let_def) (simp add: m1_def)
    show ?thesis
    proof (cases "r = 0")
      case True
      then have c: "db c = At (fresh_id (ipc env))" "shm_id c = int (fresh_id (ipc env))"
        and inv: "workers_inv k (fresh_id (ipc env)) init_db (m1\<lparr>shm := k'\<rparr>)"
        using init(2) m1(4,6-8) by (simp_all add: init_outcome_def attached_def workers_inv_def)
      then show ?thesis
        using True main m1 ok listening_ends [OF _ _ inv _ c, of env "word_of_int port"] by simp
    next
      case False
      have "live {} (did m1 @ tls_cleanup_context (ssl_ctx m1)) = Some {}"
        using released [OF m1(1)] m1(2) by (simp add: close_fd_def)
      then show ?thesis
        using False main init(2) by (simp add: master_outcome_def ends_clean_def clean_def init_outcome_def)
    qed
  qed
qed

text \<open>Without further signals.\<close>

lemma run_paused: "wait_loop seg (m, Pausing) (replicate n Run) = (m, Pausing)"
  by (induction n) (simp_all add: wait_loop_def)

lemma run_left: "wait_loop seg (m, Left) evs = (m, Left)"
  by (induction evs) (simp_all add: wait_loop_def)

lemma handler_keeps: "keep_running (sigchld_handler m) = keep_running m"
proof (induction m rule: sigchld_handler.induct)
  case (1 m)
  then show ?case by (subst sigchld_handler.simps) (auto simp: waitpid_any_def split: list.splits)
qed

section \<open>Properties\<close>


text \<open>Of five workers the third is not forked; the second ends while the master waits, the fourth before the first is waited for.\<close>

definition demo_master_env :: MasterEnv where
  "demo_master_env = \<lparr>lib = demo_ssl, ipc = demo_ipc, socket_result = 3, bind_result = \<lambda>p. 0, listen_result = 0,
     fork_result = \<lambda>i. if i = 2 then -1 else 100 + int i, interrupts = \<lambda>p. False,
     exits = \<lambda>p. if p = Before_Wait 0 then [103] else [],
     waits = [Run, Run, Child_Ends 101, Run, Run, Shutdown_Signal, Run], served = \<lambda>d. d\<rparr>"

definition master_argv :: "byte list list" where "master_argv = [chars ''server'' @ [0], chars ''8888'' @ [0]]"

lemma demo_master_env_ok: "master_env_ok demo_master_env stale_shm"
  using stale_shm_facts by (simp add: master_env_ok_def demo_master_env_def)


text \<open>
  C40: a shutdown signal can be lost. If \<open>SIGINT\<close> or \<open>SIGTERM\<close> arrives while the master is in \<open>pause\<close> or
  before it tests \<open>keep_running\<close>, the master leaves its loop, however long it runs. If it arrives
  between the test and \<open>pause\<close>, the handler runs and the master then sleeps all the same, however long it
  runs, with \<open>keep_running\<close> cleared and the listening socket closed; only another signal lets it go, such
  as the one that comes when a worker ends.
\<close>

theorem shutdown_signals_can_be_lost:
  "wait_loop seg (m, Testing) (Shutdown_Signal # replicate (Suc n) Run) = (signal_handler m, Left)
    \<and> wait_loop seg (m, Pausing) (Shutdown_Signal # replicate (Suc n) Run) = (signal_handler m, Left)
    \<and> wait_loop seg (m, To_Pause) (Shutdown_Signal # replicate (Suc n) Run) = (signal_handler m, Pausing)
    \<and> \<not> keep_running (signal_handler m) \<and> server_fd (signal_handler (m\<lparr>keep_running := True\<rparr>)) < 0
    \<and> wait_loop seg (m, To_Pause) (Shutdown_Signal # replicate (Suc n) Run @ [Child_Ends pid, Run])
        = (if pid \<in> set (alive m) then (child_ends seg pid (signal_handler m), Left) else (signal_handler m, Pausing))
    \<and> wait_loop seg (m, To_Pause) (Shutdown_Signal # replicate (Suc n) Run @ [Shutdown_Signal, Run]) = (signal_handler m, Left)"
proof -
  have paused: "wait_loop seg (signal_handler m, Pausing) (replicate n Run @ evs) = wait_loop seg (signal_handler m, Pausing) evs" for evs
    using run_paused [of seg "signal_handler m" n] by (simp add: wait_loop_def)
  have stays: "keep_running (child_ends seg pid (signal_handler m)) = False" if "pid \<in> set (alive m)"
    using handler_keeps by (simp add: child_ends_def)
  have twice: "signal_handler (signal_handler m) = signal_handler m" by (simp add: signal_handler_def Let_def)
  show ?thesis
    using run_left [of seg "signal_handler m" "replicate n Run"] run_paused [of seg "signal_handler m" n]
      paused [of "[Child_Ends pid, Run]"] paused [of "[Shutdown_Signal, Run]"] stays twice
    by (simp add: wait_loop_def) (simp add: signal_handler_def Let_def)
qed

end
