(* ===== verification/Account_Concurrency.thy ===== *)
theory Account_Concurrency
  imports Account "HOL-Library.Multiset"
begin

text \<open>
  The account operations as the five worker processes run them on one shared database: the steps of
  \<open>account_create\<close>, \<open>account_deposit\<close>, \<open>account_withdraw\<close> and \<open>account_get_balance\<close> (account.c) between
  one lock call and the next, interleaved in any order.

  A worker is a program counter (\<open>pc\<close>); \<open>advance\<close> is its next step on the shared database, built from
  the lock calls, the lookup and the stores of theory \<open>Account\<close>. A lock call on a mutex that is held
  is the fault \<open>Self_Deadlock\<close> there; here it means that the step is not taken now. A load of a
  balance and the store that follows are separate steps. \<open>conc_step\<close> is the step relation of all
  workers, with the call, the linearization point and the return of each operation as events.

  Lemmas: \<open>conc_inv\<close> is an invariant of every reachable state (mutual exclusion of each lock, which
  lock a worker holds at which step, what a loaded balance is); every step that is not blocked
  returns; only the step marked \<open>Lin\<close> changes the abstract bank, and it does so as \<open>spec_step\<close> says.
\<close>

section \<open>Workers\<close>

datatype pc =
    Idle
  | Start account_op               \<comment> \<open>before the test of the arguments\<close>
  | Reject account_op              \<comment> \<open>before \<open>return -1\<close>\<close>
  | Want_Db account_op             \<comment> \<open>before \<open>pthread_mutex_lock (&db->db_lock)\<close>\<close>
  | In_Db account_op               \<comment> \<open>before \<open>account_find\<close>\<close>
  | Insert account_op              \<comment> \<open>before the new account is filled in\<close>
  | Filled account_op              \<comment> \<open>before \<open>db->account_count++\<close>\<close>
  | Leave_Db account_op int        \<comment> \<open>before the database is unlocked and the result returned\<close>
  | Want_Acc account_op nat        \<comment> \<open>before \<open>pthread_mutex_lock (&acc->lock)\<close>\<close>
  | Both account_op nat            \<comment> \<open>before \<open>pthread_mutex_unlock (&db->db_lock)\<close>\<close>
  | In_Acc account_op nat          \<comment> \<open>before the balance is read\<close>
  | Loaded account_op nat f64      \<comment> \<open>before it is compared and stored\<close>
  | Leave_Acc account_op nat int "f64 option"
      \<comment> \<open>before the account is unlocked and the result returned\<close>

datatype event =
    Tau
  | Call account_op
  | Lin account_op int "f64 option"
  | Return account_op int "f64 option"

fun bad_args :: "account_op \<Rightarrow> bool" where
  "bad_args (Create s b) \<longleftrightarrow> f64_lt b 0"
| "bad_args (Deposit s a) \<longleftrightarrow> f64_le a 0"
| "bad_args (Withdraw s a) \<longleftrightarrow> f64_le a 0"
| "bad_args (Query s) \<longleftrightarrow> False"

fun advance :: "pc \<Rightarrow> AccountDB \<Rightarrow> (AccountDB \<times> pc \<times> event) run" where
  "advance Idle d = Ret (d, Idle, Tau)"
| "advance (Start x) d =
     (if bad_args x then Ret (d, Reject x, Lin x (-1) None) else Ret (d, Want_Db x, Tau))"
| "advance (Reject x) d = Ret (d, Idle, Return x (-1) None)"
| "advance (Want_Db x) d = bind_run (lock_db d) (\<lambda>d. Ret (d, In_Db x, Tau))"
| "advance (In_Db x) d = bind_run (account_find (Some d) (Some (op_id x))) (\<lambda>found.
     case x of
       Create s b \<Rightarrow>
         if found \<noteq> None then Ret (d, Leave_Db x (-2), Lin x (-2) None)
         else if MAX_ACCOUNTS \<le> account_count d then Ret (d, Leave_Db x (-3), Lin x (-3) None)
         else Ret (d, Insert x, Tau)
     | _ \<Rightarrow> (case found of
         None \<Rightarrow> Ret (d, Leave_Db x (-2), Lin x (-2) None)
       | Some i \<Rightarrow> Ret (d, Want_Acc x i, Tau)))"
| "advance (Insert x) d = (case x of
     Create s b \<Rightarrow> let i = account_count d in
       bind_run (c_strncpy (account_id (accounts d ! i)) s (ACCOUNT_ID_LEN - 1)) (\<lambda>name.
         Ret (upd_account d i (\<lambda>a. a\<lparr>account_id := name[ACCOUNT_ID_LEN - 1 := 0], balance := b, active := 1\<rparr>),
              Filled x, Tau))
   | _ \<Rightarrow> Ret (d, Insert x, Tau))"
| "advance (Filled x) d = Ret (d\<lparr>account_count := account_count d + 1\<rparr>, Leave_Db x 0, Lin x 0 None)"
| "advance (Leave_Db x r) d = bind_run (unlock_db d) (\<lambda>d. Ret (d, Idle, Return x r None))"
| "advance (Want_Acc x i) d = bind_run (lock_account d i) (\<lambda>d. Ret (d, Both x i, Tau))"
| "advance (Both x i) d = bind_run (unlock_db d) (\<lambda>d. Ret (d, In_Acc x i, Tau))"
| "advance (In_Acc x i) d = Ret (d, Loaded x i (balance (accounts d ! i)), Tau)"
| "advance (Loaded x i b) d = (case x of
     Deposit s a \<Rightarrow> let b' = f64_add b a in Ret (set_balance d i b', Leave_Acc x i 0 (Some b'), Lin x 0 (Some b'))
   | Withdraw s a \<Rightarrow>
       if f64_lt b a then Ret (d, Leave_Acc x i (-3) None, Lin x (-3) None)
       else let b' = f64_sub b a in Ret (set_balance d i b', Leave_Acc x i 0 (Some b'), Lin x 0 (Some b'))
   | _ \<Rightarrow> Ret (d, Leave_Acc x i 0 (Some b), Lin x 0 (Some b)))"
| "advance (Leave_Acc x i r v) d = bind_run (unlock_account d i) (\<lambda>d. Ret (d, Idle, Return x r v))"

text \<open>The system: the shared database and the counters of the workers.\<close>

record conc =
  cdb :: AccountDB
  procs :: "nat \<Rightarrow> pc"

inductive conc_step :: "conc \<Rightarrow> nat \<times> event \<Rightarrow> conc \<Rightarrow> bool" where
  call: "procs s w = Idle \<Longrightarrow> valid_op x \<Longrightarrow>
    conc_step s (w, Call x) (s\<lparr>procs := (procs s)(w := Start x)\<rparr>)"
| go: "procs s w \<noteq> Idle \<Longrightarrow> advance (procs s w) (cdb s) = Ret (d', q, e) \<Longrightarrow>
    conc_step s (w, e) \<lparr>cdb = d', procs = (procs s)(w := q)\<rparr>"

inductive_cases conc_step_cases: "conc_step s (w, e) s'"

inductive conc_run :: "conc \<Rightarrow> (nat \<times> event) list \<Rightarrow> conc \<Rightarrow> bool" where
  start: "conc_run s [] s"
| more: "conc_run s es s' \<Longrightarrow> conc_step s' e s'' \<Longrightarrow> conc_run s (es @ [e]) s''"

definition conc_init :: "AccountDB \<Rightarrow> conc" where
  "conc_init d = \<lparr>cdb = d, procs = \<lambda>w. Idle\<rparr>"

section \<open>The invariant\<close>

fun holds_db :: "pc \<Rightarrow> bool" where
  "holds_db (In_Db x) = True"
| "holds_db (Insert x) = True"
| "holds_db (Filled x) = True"
| "holds_db (Leave_Db x r) = True"
| "holds_db (Want_Acc x i) = True"
| "holds_db (Both x i) = True"
| "holds_db _ = False"

fun holds_acc :: "pc \<Rightarrow> nat option" where
  "holds_acc (Both x i) = Some i"
| "holds_acc (In_Acc x i) = Some i"
| "holds_acc (Loaded x i b) = Some i"
| "holds_acc (Leave_Acc x i r v) = Some i"
| "holds_acc _ = None"

fun is_create :: "account_op \<Rightarrow> bool" where
  "is_create (Create s b) = True" | "is_create _ = False"

text \<open>What a worker at a step knows of the database.\<close>

definition target_ok :: "AccountDB \<Rightarrow> account_op \<Rightarrow> nat \<Rightarrow> bool" where
  "target_ok d x i \<longleftrightarrow> valid_op x \<and> \<not> bad_args x \<and> \<not> is_create x \<and> i < account_count d
     \<and> name_of (accounts d ! i) = string_of (op_id x)"

definition room_ok :: "AccountDB \<Rightarrow> account_op \<Rightarrow> bool" where
  "room_ok d x \<longleftrightarrow> valid_op x \<and> \<not> bad_args x \<and> is_create x \<and> account_count d < MAX_ACCOUNTS
     \<and> db_abs d (string_of (op_id x)) = None"

fun pc_ok :: "AccountDB \<Rightarrow> pc \<Rightarrow> bool" where
  "pc_ok d Idle = True"
| "pc_ok d (Start x) = valid_op x"
| "pc_ok d (Reject x) = True"
| "pc_ok d (Want_Db x) \<longleftrightarrow> valid_op x \<and> \<not> bad_args x"
| "pc_ok d (In_Db x) \<longleftrightarrow> valid_op x \<and> \<not> bad_args x"
| "pc_ok d (Insert x) = room_ok d x"
| "pc_ok d (Filled x) \<longleftrightarrow> room_ok d x \<and> (let a = accounts d ! account_count d in
     name_of a = string_of (op_id x) \<and> terminated (account_id a) \<and> active a \<noteq> 0
     \<and> (case x of Create s b \<Rightarrow> balance a = b | _ \<Rightarrow> True))"
| "pc_ok d (Leave_Db x r) = True"
| "pc_ok d (Want_Acc x i) = target_ok d x i"
| "pc_ok d (Both x i) = target_ok d x i"
| "pc_ok d (In_Acc x i) = target_ok d x i"
| "pc_ok d (Loaded x i b) \<longleftrightarrow> target_ok d x i \<and> b = balance (accounts d ! i)"
| "pc_ok d (Leave_Acc x i r v) = target_ok d x i"

definition conc_inv :: "conc \<Rightarrow> bool" where
  "conc_inv s \<longleftrightarrow> db_shape (cdb s)
     \<and> db_lock (cdb s) = Mutex True (\<exists>w. holds_db (procs s w))
     \<and> (\<forall>w w'. holds_db (procs s w) \<longrightarrow> holds_db (procs s w') \<longrightarrow> w = w')
     \<and> (\<forall>i < MAX_ACCOUNTS. lock (accounts (cdb s) ! i) = Mutex True (\<exists>w. holds_acc (procs s w) = Some i))
     \<and> (\<forall>w w' i. holds_acc (procs s w) = Some i \<longrightarrow> holds_acc (procs s w') = Some i \<longrightarrow> w = w')
     \<and> (\<forall>w. pc_ok (cdb s) (procs s w))"

text \<open>The database without its mutexes: what the lock calls leave alone.\<close>

definition unlocked :: "AccountDB \<Rightarrow> AccountDB" where
  "unlocked d = d\<lparr>db_lock := Raw_Mutex, accounts := map (\<lambda>a. a\<lparr>lock := Raw_Mutex\<rparr>) (accounts d)\<rparr>"

lemma unlocked_lock_calls [simp]:
  "unlocked (d\<lparr>db_lock := m\<rparr>) = unlocked d"
  "unlocked (upd_account d i (\<lambda>a. a\<lparr>lock := m\<rparr>)) = unlocked d"
proof -
  have "map (\<lambda>a. a\<lparr>lock := Raw_Mutex\<rparr>) ((accounts d)[i := (accounts d ! i)\<lparr>lock := m\<rparr>])
      = map (\<lambda>a. a\<lparr>lock := Raw_Mutex\<rparr>) (accounts d)"
    by (cases "i < length (accounts d)") (simp_all add: map_update list_update_same_conv list_update_beyond)
  then show "unlocked (upd_account d i (\<lambda>a. a\<lparr>lock := m\<rparr>)) = unlocked d"
    by (simp add: unlocked_def upd_account_def)
qed (simp add: unlocked_def)

lemma name_of_unlocked [simp]: "name_of (a\<lparr>lock := m\<rparr>) = name_of a" "name_of (a\<lparr>balance := b\<rparr>) = name_of a"
  by (simp_all add: name_of_def)

lemma unlocked_live: "live_accounts (unlocked d) = map (\<lambda>a. a\<lparr>lock := Raw_Mutex\<rparr>) (live_accounts d)"
  by (simp add: live_accounts_def unlocked_def take_map)

lemma unlocked_views:
  "account_count (unlocked d) = account_count d" "length (accounts (unlocked d)) = length (accounts d)"
  "db_shape (unlocked d) = db_shape d" "db_abs (unlocked d) = db_abs d"
  "db_shape d \<Longrightarrow> pc_ok (unlocked d) p = pc_ok d p"
proof -
  show count: "account_count (unlocked d) = account_count d" "length (accounts (unlocked d)) = length (accounts d)"
    by (simp_all add: unlocked_def)
  show abs: "db_abs (unlocked d) = db_abs d"
    by (simp add: db_abs_def unlocked_live comp_def)
  show "db_shape (unlocked d) = db_shape d"
    by (simp add: db_shape_def unlocked_live comp_def count) (simp add: unlocked_def)
  assume d: "db_shape d"
  then have at: "accounts (unlocked d) ! i = (accounts d ! i)\<lparr>lock := Raw_Mutex\<rparr>" if "i < MAX_ACCOUNTS" for i
    using that by (simp add: unlocked_def db_shape_def)
  have "account_count d \<le> MAX_ACCOUNTS" using d by (simp add: db_shape_def)
  then show "pc_ok (unlocked d) p = pc_ok d p"
    by (cases p) (auto simp: target_ok_def room_ok_def count abs at Let_def split: account_op.splits)
qed

lemma same_unlocked:
  assumes "unlocked d' = unlocked d" "db_shape d"
  shows "account_count d' = account_count d" "length (accounts d') = length (accounts d)"
    "db_shape d'" "db_abs d' = db_abs d" "pc_ok d' p = pc_ok d p"
proof -
  show d': "db_shape d'" using unlocked_views(3) [of d'] unlocked_views(3) [of d] assms by simp
  show "account_count d' = account_count d" "length (accounts d') = length (accounts d)" "db_abs d' = db_abs d"
    "pc_ok d' p = pc_ok d p"
    using unlocked_views [of d'] unlocked_views [of d] assms d' by metis+
qed

section \<open>One step keeps the invariant\<close>

text \<open>
  What has to be shown of a step from \<open>p\<close> to \<open>q\<close> that takes the database from \<open>d\<close> to \<open>d'\<close>: it
  changes no mutex but the ones it takes or gives back, takes none that is held, and what the others
  know stays true.
\<close>

definition step_ok :: "AccountDB \<Rightarrow> pc \<Rightarrow> AccountDB \<Rightarrow> pc \<Rightarrow> bool" where
  "step_ok d p d' q \<longleftrightarrow> db_shape d' \<and> pc_ok d' q
     \<and> db_lock d' = (if holds_db p = holds_db q then db_lock d else Mutex True (holds_db q))
     \<and> (holds_db q \<longrightarrow> \<not> holds_db p \<longrightarrow> db_lock d = Mutex True False)
     \<and> (\<forall>i < MAX_ACCOUNTS. lock (accounts d' ! i) =
          (if (holds_acc p = Some i) = (holds_acc q = Some i) then lock (accounts d ! i) else Mutex True (holds_acc q = Some i)))
     \<and> (\<forall>i. holds_acc q = Some i \<longrightarrow> holds_acc p \<noteq> Some i \<longrightarrow> i < MAX_ACCOUNTS \<and> lock (accounts d ! i) = Mutex True False)
     \<and> (\<forall>p'. pc_ok d p' \<longrightarrow> (holds_db p \<longrightarrow> \<not> holds_db p') \<longrightarrow> (\<forall>i. holds_acc p = Some i \<longrightarrow> holds_acc p' \<noteq> Some i)
          \<longrightarrow> pc_ok d' p')"

lemma owner_update:
  assumes "\<And>v v'. P (f v) \<Longrightarrow> P (f v') \<Longrightarrow> v = v'" "\<And>v. P q \<Longrightarrow> \<not> P (f w) \<Longrightarrow> \<not> P (f v)"
  shows "(\<exists>v. P ((f(w := q)) v)) = (if P (f w) = P q then (\<exists>v. P (f v)) else P q)"
proof -
  have split: "(\<exists>v. P ((f(w := q)) v)) \<longleftrightarrow> P q \<or> (\<exists>v. v \<noteq> w \<and> P (f v))" by auto
  show ?thesis
  proof (cases "P (f w)")
    case True
    then have "\<not> (\<exists>v. v \<noteq> w \<and> P (f v))" using assms(1) by blast
    then show ?thesis using split True by auto
  next
    case False
    then show ?thesis using split assms(2) by metis
  qed
qed

lemma owner_unique:
  assumes "\<And>v v'. P (f v) \<Longrightarrow> P (f v') \<Longrightarrow> v = v'" "\<And>v. P q \<Longrightarrow> \<not> P (f w) \<Longrightarrow> \<not> P (f v)"
    and "P ((f(w := q)) v)" "P ((f(w := q)) v')"
  shows "v = v'"
proof (cases "v = w \<or> v' = w")
  case True
  then have "P q" using assms(3,4) by auto
  show ?thesis
  proof (rule ccontr)
    assume "v \<noteq> v'"
    then obtain u where "u \<noteq> w" "P (f u)" using True assms(3,4) by (metis fun_upd_other)
    then show False using assms(1) [of u w] assms(2) [of u] \<open>P q\<close> by blast
  qed
next
  case False
  then show ?thesis using assms(1,3,4) by simp
qed

lemma step_ok_inv:
  assumes "conc_inv s" "step_ok (cdb s) (procs s w) d' q"
  shows "conc_inv \<lparr>cdb = d', procs = (procs s)(w := q)\<rparr>"
proof -
  let ?p = "procs s w" and ?d = "cdb s"
  have inv: "db_lock ?d = Mutex True (\<exists>v. holds_db (procs s v))"
    "\<And>v v'. holds_db (procs s v) \<Longrightarrow> holds_db (procs s v') \<Longrightarrow> v = v'"
    "\<And>i. i < MAX_ACCOUNTS \<Longrightarrow> lock (accounts ?d ! i) = Mutex True (\<exists>v. holds_acc (procs s v) = Some i)"
    "\<And>v v' i. holds_acc (procs s v) = Some i \<Longrightarrow> holds_acc (procs s v') = Some i \<Longrightarrow> v = v'"
    "\<And>v. pc_ok ?d (procs s v)"
    using assms(1) unfolding conc_inv_def by blast+
  have ok: "db_shape d'" "pc_ok d' q"
    "db_lock d' = (if holds_db ?p = holds_db q then db_lock ?d else Mutex True (holds_db q))"
    "holds_db q \<Longrightarrow> \<not> holds_db ?p \<Longrightarrow> db_lock ?d = Mutex True False"
    "\<And>i. i < MAX_ACCOUNTS \<Longrightarrow> lock (accounts d' ! i) = (if (holds_acc ?p = Some i) = (holds_acc q = Some i)
       then lock (accounts ?d ! i) else Mutex True (holds_acc q = Some i))"
    "\<And>i. holds_acc q = Some i \<Longrightarrow> holds_acc ?p \<noteq> Some i \<Longrightarrow> i < MAX_ACCOUNTS \<and> lock (accounts ?d ! i) = Mutex True False"
    "\<And>p'. pc_ok ?d p' \<Longrightarrow> (holds_db ?p \<longrightarrow> \<not> holds_db p') \<Longrightarrow> (\<forall>i. holds_acc ?p = Some i \<longrightarrow> holds_acc p' \<noteq> Some i)
       \<Longrightarrow> pc_ok d' p'"
    using assms(2) unfolding step_ok_def by blast+
  have db_free: "\<not> holds_db (procs s v)" if "holds_db q" "\<not> holds_db ?p" for v
    using inv(1) ok(4) [OF that] by auto
  have acc_free: "holds_acc (procs s v) \<noteq> Some i" if "holds_acc q = Some i" "holds_acc ?p \<noteq> Some i" for v i
    using inv(3) [of i] ok(6) [OF that] by auto
  have dbs: "(\<exists>v. holds_db (((procs s)(w := q)) v)) =
      (if holds_db ?p = holds_db q then (\<exists>v. holds_db (procs s v)) else holds_db q)"
    using owner_update [of holds_db "procs s" q w, OF inv(2) db_free] .
  have accs: "(\<exists>v. holds_acc (((procs s)(w := q)) v) = Some i) =
      (if (holds_acc ?p = Some i) = (holds_acc q = Some i) then (\<exists>v. holds_acc (procs s v) = Some i)
       else holds_acc q = Some i)" for i
    using owner_update [of "\<lambda>p. holds_acc p = Some i" "procs s" q w, OF inv(4) acc_free] .
  have others: "pc_ok d' (procs s v)" if "v \<noteq> w" for v
    using inv(2,4) that by (intro ok(7) inv(5)) blast+
  have "v = v'" if "holds_db (((procs s)(w := q)) v)" "holds_db (((procs s)(w := q)) v')" for v v'
    using owner_unique [of holds_db "procs s" q w, OF inv(2) db_free that] .
  moreover have "v = v'" if "holds_acc (((procs s)(w := q)) v) = Some i" "holds_acc (((procs s)(w := q)) v') = Some i" for v v' i
    using owner_unique [of "\<lambda>p. holds_acc p = Some i" "procs s" q w, OF inv(4) acc_free that] .
  moreover have "db_lock d' = Mutex True (\<exists>v. holds_db (((procs s)(w := q)) v))"
    unfolding dbs ok(3) inv(1) by simp
  moreover have "lock (accounts d' ! i) = Mutex True (\<exists>v. holds_acc (((procs s)(w := q)) v) = Some i)" if "i < MAX_ACCOUNTS" for i
    unfolding accs ok(5) [OF that] inv(3) [OF that] by simp
  moreover have "pc_ok d' (((procs s)(w := q)) v)" for v
    using ok(2) others by simp
  ultimately show ?thesis using ok(1) unfolding conc_inv_def conc.simps by blast
qed

text \<open>Every step of a worker, once it returns, is such a step.\<close>

lemma shape_bounds: "db_shape d \<Longrightarrow> length (accounts d) = MAX_ACCOUNTS" "db_shape d \<Longrightarrow> account_count d \<le> MAX_ACCOUNTS"
  by (simp_all add: db_shape_def)

lemma mutex_lock_Ret: "mutex_lock m = Ret m' \<longleftrightarrow> (\<exists>b. m = Mutex b False \<and> m' = Mutex b True)"
  by (cases m) auto

lemma mutex_unlock_Ret: "mutex_unlock m = Ret m' \<longleftrightarrow> (\<exists>b. m = Mutex b True \<and> m' = Mutex b False)"
  by (cases m) auto

lemma lock_at:
  "i < length (accounts d) \<Longrightarrow> lock (accounts (upd_account d i f) ! j) = (if i = j then lock (f (accounts d ! i)) else lock (accounts d ! j))"
  by (auto simp: upd_account_def)

text \<open>A step that touches the mutexes only.\<close>

lemma mutex_step_ok:
  assumes "db_shape d" "unlocked d' = unlocked d" "pc_ok d q"
    and "db_lock d' = (if holds_db p = holds_db q then db_lock d else Mutex True (holds_db q))"
    and "holds_db q \<Longrightarrow> \<not> holds_db p \<Longrightarrow> db_lock d = Mutex True False"
    and "\<And>i. i < MAX_ACCOUNTS \<Longrightarrow> lock (accounts d' ! i) =
          (if (holds_acc p = Some i) = (holds_acc q = Some i) then lock (accounts d ! i) else Mutex True (holds_acc q = Some i))"
    and "\<And>i. holds_acc q = Some i \<Longrightarrow> holds_acc p \<noteq> Some i \<Longrightarrow> i < MAX_ACCOUNTS \<and> lock (accounts d ! i) = Mutex True False"
  shows "step_ok d p d' q"
  unfolding step_ok_def using assms(3-7) same_unlocked [OF assms(2,1)] by (intro conjI allI impI) simp_all

text \<open>What the invariant says of the worker that steps.\<close>

definition view_ok :: "AccountDB \<Rightarrow> pc \<Rightarrow> bool" where
  "view_ok d p \<longleftrightarrow> db_shape d \<and> pc_ok d p \<and> (\<exists>h. db_lock d = Mutex True h) \<and> (holds_db p \<longrightarrow> db_lock d = Mutex True True)
     \<and> (\<forall>i < MAX_ACCOUNTS. (\<exists>h. lock (accounts d ! i) = Mutex True h) \<and> (holds_acc p = Some i \<longrightarrow> lock (accounts d ! i) = Mutex True True))"

lemma conc_inv_view: "conc_inv s \<Longrightarrow> view_ok (cdb s) (procs s w)"
  by (auto simp: conc_inv_def view_ok_def)

lemma target_bound: "db_shape d \<Longrightarrow> target_ok d x i \<Longrightarrow> i < MAX_ACCOUNTS \<and> i < length (accounts d)"
  by (auto simp: target_ok_def db_shape_def)

lemma set_balance_other:
  assumes "db_shape d" "i < account_count d" "pc_ok d p'" "holds_acc p' \<noteq> Some i"
  shows "pc_ok (set_balance d i b) p'"
proof -
  have at: "accounts (set_balance d i b) ! j = (accounts d ! j)\<lparr>balance := if i = j then b else balance (accounts d ! j)\<rparr>" for j
    using assms(1,2) shape_bounds [OF assms(1)] by (auto simp: set_balance_def upd_account_def)
  then have name: "name_of (accounts (set_balance d i b) ! j) = name_of (accounts d ! j)" for j
    by (simp add: name_of_def)
  have count: "account_count (set_balance d i b) = account_count d" by (simp add: set_balance_def)
  have abs: "db_abs (set_balance d i b) k = None \<longleftrightarrow> db_abs d k = None" for k
    using set_balance_shape(2) [OF assms(1,2), of b] db_abs_nth [OF assms(1,2)] by auto
  show ?thesis using assms(2-4)
    by (cases p') (auto simp: target_ok_def room_ok_def count abs name at Let_def split: account_op.splits)
qed

lemma set_balance_step_ok:
  assumes "view_ok d (Loaded x i b)"
  shows "step_ok d (Loaded x i b) (set_balance d i b') (Leave_Acc x i r v)"
proof -
  have d: "db_shape d" "target_ok d x i" "i < account_count d"
    using assms by (auto simp: view_ok_def target_ok_def)
  have i: "i < length (accounts d)" using target_bound [OF d(1,2)] by simp
  have locks: "lock (accounts (set_balance d i b') ! j) = lock (accounts d ! j)" for j
    using i by (simp add: set_balance_def lock_at)
  have lock_db: "db_lock (set_balance d i b') = db_lock d" by (simp add: set_balance_def)
  have "name_of (accounts (set_balance d i b') ! i) = name_of (accounts d ! i)"
    using i by (simp add: set_balance_def name_of_def)
  then have "target_ok (set_balance d i b') x i"
    using d(2) by (simp add: target_ok_def) (simp add: set_balance_def)
  then show ?thesis
    unfolding step_ok_def using set_balance_shape(1) [OF d(1,3)] set_balance_other [OF d(1,3)]
    by (simp add: locks lock_db)
qed

text \<open>Filling in the slot after the last account, and counting it.\<close>

lemma fill_step_ok:
  assumes "view_ok d (Insert x)" "x = Create s b"
    and "c_strncpy (account_id (accounts d ! account_count d)) s (ACCOUNT_ID_LEN - 1) = Ret name"
  shows "step_ok d (Insert x) (upd_account d (account_count d)
      (\<lambda>a. a\<lparr>account_id := name[ACCOUNT_ID_LEN - 1 := 0], balance := b, active := 1\<rparr>)) (Filled x)"
    (is "step_ok d _ ?d' _")
proof -
  let ?i = "account_count d" and ?id = "name[ACCOUNT_ID_LEN - 1 := 0]"
  have d: "db_shape d" and room: "room_ok d x" using assms(1) by (simp_all add: view_ok_def)
  then have i: "?i < length (accounts d)" "?i < MAX_ACCOUNTS" by (simp_all add: room_ok_def db_shape_def)
  have "length (account_id (accounts d ! ?i)) = ACCOUNT_ID_LEN" using d i by (simp add: db_shape_def)
  from stored_name [OF _ this, of s] room assms(2,3)
  have id: "length ?id = ACCOUNT_ID_LEN" "terminated ?id" "string_of ?id = string_of s"
    by (auto simp: room_ok_def valid_op_def)
  have live: "live_accounts (upd_account d ?i f) = live_accounts d" for f
    by (simp add: live_accounts_def upd_account_def)
  have mem: "set (accounts ?d') \<subseteq> insert ((accounts d ! ?i)\<lparr>account_id := ?id, balance := b, active := 1\<rparr>) (set (accounts d))"
    by (simp add: upd_account_def set_update_subset_insert)
  have shape: "db_shape ?d'" using d id(1) mem unfolding db_shape_def live by auto
  have abs: "db_abs (upd_account d ?i f) = db_abs d" for f unfolding db_abs_def live ..
  have at: "accounts (upd_account d ?i f) ! j = accounts d ! j" if "j < ?i" for f j
    using that by (simp add: upd_account_def)
  have others: "pc_ok ?d' p'" if "pc_ok d p'" "\<not> holds_db p'" for p'
    using that by (cases p') (auto simp: target_ok_def room_ok_def at)
  have locks: "lock (accounts (upd_account d ?i f) ! j) = lock (accounts d ! j)" if "\<And>a. lock (f a) = lock a" for f j
    using i that by (simp add: lock_at)
  have "pc_ok ?d' (Filled x)"
    using room id i assms(2) by (simp add: room_ok_def abs name_of_def)
  then show ?thesis unfolding step_ok_def using shape others by (simp add: locks)
qed

lemma count_step_ok:
  assumes "view_ok d (Filled x)"
  shows "step_ok d (Filled x) (d\<lparr>account_count := account_count d + 1\<rparr>) (Leave_Db x 0)"
    and "db_abs (d\<lparr>account_count := account_count d + 1\<rparr>)
      = (db_abs d)(string_of (op_id x) \<mapsto> balance (accounts d ! account_count d))"
proof -
  let ?i = "account_count d" and ?d' = "d\<lparr>account_count := account_count d + 1\<rparr>"
  let ?a = "accounts d ! ?i"
  have d: "db_shape d" and room: "room_ok d x" and a: "name_of ?a = string_of (op_id x)" "terminated (account_id ?a)" "active ?a \<noteq> 0"
    using assms by (simp_all add: view_ok_def Let_def)
  then have i: "?i < length (accounts d)" "?i < MAX_ACCOUNTS" by (simp_all add: room_ok_def db_shape_def)
  have same: "(upd_account d ?i (\<lambda>_. ?a))\<lparr>account_count := Suc ?i\<rparr> = ?d'" by (simp add: upd_account_id)
  have "length (account_id ?a) = ACCOUNT_ID_LEN" "db_abs d (name_of ?a) = None"
    using d i room a by (simp_all add: db_shape_def room_ok_def)
  note added = add_account_shape [OF d i(2) this(1) a(2,3) this(2), unfolded same]
  then show "db_abs ?d' = (db_abs d)(string_of (op_id x) \<mapsto> balance ?a)" using a(1) by simp
  have "pc_ok ?d' p'" if "pc_ok d p'" "\<not> holds_db p'" for p'
    using that by (cases p') (auto simp: target_ok_def room_ok_def)
  then show "step_ok d (Filled x) ?d' (Leave_Db x 0)" unfolding step_ok_def using added(1) by simp
qed

lemma advance_step_ok:
  assumes "view_ok d p" "p \<noteq> Idle" "advance p d = Ret (d', q, e)"
  shows "step_ok d p d' q"
proof (cases p)
  case (Start x)
  then show ?thesis using assms by (auto simp: view_ok_def intro!: mutex_step_ok split: if_splits)
next
  case (Reject x)
  then show ?thesis using assms by (auto simp: view_ok_def intro!: mutex_step_ok)
next
  case (Want_Db x)
  then show ?thesis using assms
    by (auto simp: view_ok_def lock_db_def bind_run_eq_Ret mutex_lock_Ret intro!: mutex_step_ok)
next
  case (Leave_Db x r)
  then show ?thesis using assms
    by (auto simp: view_ok_def unlock_db_def bind_run_eq_Ret mutex_unlock_Ret intro!: mutex_step_ok)
next
  case (Want_Acc x i)
  then show ?thesis using assms target_bound [of d x i]
    by (auto simp: view_ok_def lock_account_def bind_run_eq_Ret mutex_lock_Ret lock_at intro!: mutex_step_ok)
next
  case (Both x i)
  then show ?thesis using assms
    by (auto simp: view_ok_def unlock_db_def bind_run_eq_Ret mutex_unlock_Ret intro!: mutex_step_ok)
next
  case (In_Acc x i)
  then show ?thesis using assms by (auto simp: view_ok_def intro!: mutex_step_ok)
next
  case (Leave_Acc x i r v)
  then show ?thesis using assms target_bound [of d x i]
    by (auto simp: view_ok_def unlock_account_def bind_run_eq_Ret mutex_unlock_Ret lock_at intro!: mutex_step_ok)
next
  case (Loaded x i b)
  show ?thesis
  proof (cases "d' = d")
    case True
    then have "holds_acc q = Some i" "\<not> holds_db q" "pc_ok d q"
      using assms Loaded by (auto simp: view_ok_def Let_def split: account_op.splits if_splits)
    then show ?thesis using assms(1) Loaded True by (auto simp: view_ok_def intro!: mutex_step_ok)
  next
    case False
    then obtain b' r v where "d' = set_balance d i b'" "q = Leave_Acc x i r v"
      using assms(3) Loaded by (auto simp: Let_def split: account_op.splits if_splits)
    then show ?thesis using set_balance_step_ok assms(1) Loaded by simp
  qed
next
  case (In_Db x)
  have d: "db_shape d" "valid_op x" "\<not> bad_args x" using assms(1) In_Db by (simp_all add: view_ok_def)
  then have "terminated (op_id x)" by (simp add: valid_op_def valid_id_def)
  from d(1) this have "pc_ok d q \<and> holds_db q \<and> holds_acc q = None \<and> d' = d"
  proof (cases rule: account_find_cases)
    case 1
    then show ?thesis using assms(3) In_Db d(2,3) by (cases x) (auto simp: room_ok_def split: if_splits)
  next
    case (2 i)
    then show ?thesis using assms(3) In_Db d(2,3) by (cases x) (auto simp: target_ok_def)
  qed
  then show ?thesis using assms(1) In_Db by (auto simp: view_ok_def intro!: mutex_step_ok)
next
  case (Insert x)
  then have "is_create x" using assms(1) by (simp add: view_ok_def room_ok_def)
  then obtain s b where x: "x = Create s b" by (cases x) auto
  then show ?thesis using assms(1,3) Insert fill_step_ok [of d x s b] by (auto simp: bind_run_eq_Ret Let_def)
next
  case (Filled x)
  then show ?thesis using assms(1,3) count_step_ok(1) [of d x] by auto
qed (use assms(2) in simp)

section \<open>Progress\<close>

text \<open>A step can only fail to return where it waits for a mutex another worker holds.\<close>

lemma advance_returns:
  assumes "view_ok d p"
    and "\<And>x. p = Want_Db x \<Longrightarrow> db_lock d = Mutex True False"
    and "\<And>x i. p = Want_Acc x i \<Longrightarrow> lock (accounts d ! i) = Mutex True False"
  shows "\<exists>d' q e. advance p d = Ret (d', q, e)"
proof (cases p)
  case (In_Db x)
  have d: "db_shape d" "valid_op x" using assms(1) In_Db by (simp_all add: view_ok_def)
  then have "terminated (op_id x)" by (simp add: valid_op_def valid_id_def)
  with d(1) show ?thesis
    by (cases rule: account_find_cases) (simp_all add: In_Db split: account_op.splits)
next
  case (Insert x)
  then have room: "room_ok d x" "db_shape d" using assms(1) by (simp_all add: view_ok_def)
  then have "length (account_id (accounts d ! account_count d)) = ACCOUNT_ID_LEN"
    by (simp add: room_ok_def db_shape_def)
  then obtain name where "c_strncpy (account_id (accounts d ! account_count d)) (op_id x) (ACCOUNT_ID_LEN - 1) = Ret name"
    using stored_name [of "op_id x"] room(1) by (auto simp: room_ok_def valid_op_def)
  then show ?thesis by (cases x) (simp_all add: Insert Let_def)
next
  case (Want_Acc x i)
  then show ?thesis using assms(1,3) by (simp add: lock_account_def)
next
  case (Both x i)
  then show ?thesis using assms(1) by (simp add: view_ok_def unlock_db_def)
next
  case (Leave_Db x r)
  then show ?thesis using assms(1) by (simp add: view_ok_def unlock_db_def)
next
  case (Leave_Acc x i r v)
  then show ?thesis using assms(1) target_bound [of d x i] by (auto simp: view_ok_def unlock_account_def)
next
  case (Want_Db x)
  then show ?thesis using assms(1,2) by (simp add: lock_db_def)
next
  case (Loaded x i b)
  then show ?thesis by (cases x) (simp_all add: Let_def)
qed simp_all

lemma pc_not_free: "holds_db p \<Longrightarrow> p \<noteq> Idle" "holds_acc p = Some i \<Longrightarrow> p \<noteq> Idle"
  by (cases p; simp)+

text \<open>Some worker can take a step whenever one is inside an operation.\<close>

lemma some_worker_steps:
  assumes inv: "conc_inv s" and busy: "procs s w \<noteq> Idle"
  shows "\<exists>v d' q e. procs s v \<noteq> Idle \<and> advance (procs s v) (cdb s) = Ret (d', q, e)"
proof -
  note view = conc_inv_view [OF inv]
  have runs: "\<exists>d' q e. advance (procs s v) (cdb s) = Ret (d', q, e)"
    if "\<And>x. procs s v \<noteq> Want_Db x" "\<And>x i. procs s v \<noteq> Want_Acc x i" for v
    using advance_returns [OF view [of v]] that by blast
  have acc: "\<exists>v d' q e. procs s v \<noteq> Idle \<and> advance (procs s v) (cdb s) = Ret (d', q, e)"
    if at: "procs s v = Want_Acc x i" for v x i
  proof (cases "\<exists>u. holds_acc (procs s u) = Some i")
    case True
    then obtain u where u: "holds_acc (procs s u) = Some i" by blast
    have "procs s u \<noteq> Want_Db y" "procs s u \<noteq> Want_Acc y j" for y j using u by auto
    then show ?thesis using runs [of u] pc_not_free(2) [OF u] by blast
  next
    case False
    have "i < MAX_ACCOUNTS" using view [of v] at target_bound [of "cdb s" x i] by (auto simp: view_ok_def)
    then have "lock (accounts (cdb s) ! i) = Mutex True False" using inv False by (simp add: conc_inv_def)
    then show ?thesis using advance_returns [OF view [of v]] at by (intro exI [of _ v]) auto
  qed
  have db: "\<exists>v d' q e. procs s v \<noteq> Idle \<and> advance (procs s v) (cdb s) = Ret (d', q, e)"
    if "procs s v = Want_Db x" for v x
  proof (cases "\<exists>u. holds_db (procs s u)")
    case True
    then obtain u where u: "holds_db (procs s u)" by blast
    show ?thesis
    proof (cases "\<exists>y i. procs s u = Want_Acc y i")
      case False
      have "procs s u \<noteq> Want_Db y" for y using u by auto
      then show ?thesis using runs [of u] False pc_not_free(1) [OF u] by blast
    qed (use acc in blast)
  next
    case False
    then have "db_lock (cdb s) = Mutex True False" using inv by (simp add: conc_inv_def)
    then show ?thesis using advance_returns [OF view [of v]] that by (intro exI [of _ v]) auto
  qed
  show ?thesis using acc db runs [of w] busy by blast
qed

text \<open>The steps an operation still has to take; each step that is not a call uses one up.\<close>

fun steps_left :: "pc \<Rightarrow> nat" where
  "steps_left Idle = 0"
| "steps_left (Start x) = 9"
| "steps_left (Reject x) = 1"
| "steps_left (Want_Db x) = 8"
| "steps_left (In_Db x) = 7"
| "steps_left (Insert x) = 3"
| "steps_left (Filled x) = 2"
| "steps_left (Leave_Db x r) = 1"
| "steps_left (Want_Acc x i) = 5"
| "steps_left (Both x i) = 4"
| "steps_left (In_Acc x i) = 3"
| "steps_left (Loaded x i b) = 2"
| "steps_left (Leave_Acc x i r v) = 1"

lemma advance_uses_a_step:
  assumes "view_ok d p" "p \<noteq> Idle" "advance p d = Ret (d', q, e)"
  shows "steps_left q < steps_left p"
proof (cases p)
  case (Insert x)
  then have "is_create x" using assms(1) by (simp add: view_ok_def room_ok_def)
  then show ?thesis using assms(3) Insert by (cases x) (auto simp: bind_run_eq_Ret Let_def)
next
  case (In_Db x)
  then show ?thesis using assms(3)
    by (cases x) (auto simp: bind_run_eq_Ret split: if_splits option.splits)
qed (use assms(2,3) in \<open>auto simp: bind_run_eq_Ret Let_def split: account_op.splits if_splits\<close>)

section \<open>Linearization\<close>

text \<open>Where an operation stands, as its events show it.\<close>

datatype phase = Out | Called account_op | Done account_op int "f64 option"

fun phase_of :: "pc \<Rightarrow> phase" where
  "phase_of Idle = Out"
| "phase_of (Reject x) = Done x (-1) None"
| "phase_of (Leave_Db x r) = Done x r None"
| "phase_of (Leave_Acc x i r v) = Done x r v"
| "phase_of (Start x) = Called x"
| "phase_of (Want_Db x) = Called x"
| "phase_of (In_Db x) = Called x"
| "phase_of (Insert x) = Called x"
| "phase_of (Filled x) = Called x"
| "phase_of (Want_Acc x i) = Called x"
| "phase_of (Both x i) = Called x"
| "phase_of (In_Acc x i) = Called x"
| "phase_of (Loaded x i b) = Called x"

fun track :: "phase \<Rightarrow> event \<Rightarrow> phase option" where
  "track ph Tau = Some ph"
| "track Out (Call x) = Some (Called x)"
| "track (Called y) (Lin x r v) = (if x = y then Some (Done x r v) else None)"
| "track (Done y r' v') (Return x r v) = (if x = y \<and> r = r' \<and> v = v' then Some Out else None)"
| "track ph e = None"

lemma advance_tracked:
  assumes "advance p d = Ret (d', q, e)"
  shows "track (phase_of p) e = Some (phase_of q)"
proof (cases p)
  case (In_Db x)
  then show ?thesis using assms
    by (cases x) (auto simp: bind_run_eq_Ret split: if_splits option.splits)
next
  case (Insert x)
  then show ?thesis using assms by (cases x) (auto simp: bind_run_eq_Ret Let_def)
next
  case (Loaded x i b)
  then show ?thesis using assms by (cases x) (auto simp: Let_def split: if_splits)
qed (use assms in \<open>auto simp: bind_run_eq_Ret split: if_splits\<close>)

text \<open>The linearization point has the effect and the result of the specification; nothing else has one.\<close>

fun lin_effect :: "event \<Rightarrow> bank \<Rightarrow> bank \<Rightarrow> bool" where
  "lin_effect (Lin x r v) m m' \<longleftrightarrow> spec_step m x = (m', r, v)"
| "lin_effect e m m' \<longleftrightarrow> m' = m"

lemma advance_lin_effect:
  assumes "view_ok d p" "p \<noteq> Idle" "advance p d = Ret (d', q, e)"
  shows "lin_effect e (db_abs d) (db_abs d')"
proof (cases p)
  case (Start x)
  then show ?thesis using assms(3) by (cases x) (auto split: if_splits)
next
  case (In_Db x)
  have d: "db_shape d" "valid_op x" "\<not> bad_args x" using assms(1) In_Db by (simp_all add: view_ok_def)
  then have "terminated (op_id x)" by (simp add: valid_op_def valid_id_def)
  with d(1) show ?thesis
  proof (cases rule: account_find_cases)
    case 1
    then show ?thesis using assms(3) In_Db d by (cases x) (auto simp: card_dom_abs split: if_splits)
  next
    case (2 i)
    then show ?thesis using assms(3) In_Db d by (cases x) auto
  qed
next
  case (Insert x)
  then have room: "room_ok d x" using assms(1) by (simp add: view_ok_def)
  then obtain s b where x: "x = Create s b" by (cases x) (auto simp: room_ok_def)
  obtain f where "d' = upd_account d (account_count d) f" "e = Tau"
    using assms(3) Insert x by (auto simp: bind_run_eq_Ret Let_def)
  then show ?thesis by (simp add: db_abs_def live_accounts_def upd_account_def)
next
  case (Filled x)
  then have view: "view_ok d (Filled x)" using assms(1) by simp
  then have room: "room_ok d x" "db_shape d" by (simp_all add: view_ok_def)
  then obtain s b where x: "x = Create s b" by (cases x) (auto simp: room_ok_def)
  have "balance (accounts d ! account_count d) = b" using view x by (simp add: view_ok_def Let_def)
  then have "db_abs d' = (db_abs d)(string_of s \<mapsto> b)"
    using count_step_ok(2) [OF view] assms(3) Filled x by auto
  moreover have "card (dom (db_abs d)) = account_count d" using card_dom_abs [OF room(2)] .
  ultimately show ?thesis using assms(3) Filled x room(1) by (auto simp: room_ok_def)
next
  case (Loaded x i b)
  then have t: "target_ok d x i" "b = balance (accounts d ! i)" "db_shape d" using assms(1) by (simp_all add: view_ok_def)
  then have i: "i < account_count d" "name_of (accounts d ! i) = string_of (op_id x)" by (simp_all add: target_ok_def)
  have "db_abs d (string_of (op_id x)) = Some b" using db_abs_nth [OF t(3) i(1)] i(2) t(2) by simp
  then show ?thesis using assms(3) Loaded t i set_balance_shape(2) [OF t(3) i(1)]
    by (cases x) (auto simp: Let_def target_ok_def split: if_splits)
next
  case (Want_Db x)
  then show ?thesis using assms(3) by (auto simp: lock_db_def bind_run_eq_Ret db_abs_def live_accounts_def)
next
  case (Leave_Db x r)
  then show ?thesis using assms(3) by (auto simp: unlock_db_def bind_run_eq_Ret db_abs_def live_accounts_def)
next
  case (Both x i)
  then show ?thesis using assms(3) by (auto simp: unlock_db_def bind_run_eq_Ret db_abs_def live_accounts_def)
next
  case (Want_Acc x i)
  then have "unlocked d' = unlocked d" "e = Tau" using assms(3) by (auto simp: lock_account_def bind_run_eq_Ret)
  then show ?thesis using same_unlocked(4) [of d' d] assms(1) by (simp add: view_ok_def)
next
  case (Leave_Acc x i r v)
  then have "unlocked d' = unlocked d" "e = Return x r v" using assms(3) by (auto simp: unlock_account_def bind_run_eq_Ret)
  then show ?thesis using same_unlocked(4) [of d' d] assms(1) by (simp add: view_ok_def)
qed (use assms(2,3) in auto)

section \<open>Reachable states\<close>

lemma conc_init_inv:
  assumes "db_wf d" shows "conc_inv (conc_init d)"
  using assms by (auto simp: conc_inv_def conc_init_def db_wf_def db_quiet_def db_shape_def)

lemma conc_step_inv:
  assumes "conc_step s we s'" "conc_inv s"
  shows "conc_inv s'"
  using assms
proof (cases rule: conc_step.cases)
  case (call w x)
  have "step_ok (cdb s) (procs s w) (cdb s) (Start x)"
    using assms(2) call by (intro mutex_step_ok) (simp_all add: conc_inv_def)
  from step_ok_inv [OF assms(2) this] show ?thesis using call by (cases s) simp
next
  case (go w d' q e)
  then show ?thesis using step_ok_inv [OF assms(2)] advance_step_ok [OF conc_inv_view [OF assms(2)]] by simp
qed

lemma conc_run_inv: "conc_run s es s' \<Longrightarrow> conc_inv s \<Longrightarrow> conc_inv s'"
  by (induction rule: conc_run.induct) (auto intro: conc_step_inv)

lemma conc_step_tracked:
  assumes "conc_step s (w, e) s'" "conc_inv s"
  shows "track (phase_of (procs s w)) e = Some (phase_of (procs s' w))" "\<And>v. v \<noteq> w \<Longrightarrow> procs s' v = procs s v"
    "lin_effect e (db_abs (cdb s)) (db_abs (cdb s'))"
proof -
  have "track (phase_of (procs s w)) e = Some (phase_of (procs s' w)) \<and> (\<forall>v. v \<noteq> w \<longrightarrow> procs s' v = procs s v)
    \<and> lin_effect e (db_abs (cdb s)) (db_abs (cdb s'))"
    using assms(1)
    advance_tracked [of "procs s w" "cdb s"] advance_lin_effect [OF conc_inv_view [OF assms(2)], of w]
    by (elim conc_step_cases) auto
  then show "track (phase_of (procs s w)) e = Some (phase_of (procs s' w))" "\<And>v. v \<noteq> w \<Longrightarrow> procs s' v = procs s v"
    "lin_effect e (db_abs (cdb s)) (db_abs (cdb s'))" by simp_all
qed

section \<open>Histories\<close>

fun lins :: "(nat \<times> event) list \<Rightarrow> (account_op \<times> int \<times> f64 option) list" where
  "lins [] = []"
| "lins ((w, Lin x r v) # es) = (x, r, v) # lins es"
| "lins ((w, e) # es) = lins es"

fun calls :: "(nat \<times> event) list \<Rightarrow> account_op list" where
  "calls [] = []"
| "calls ((w, Call x) # es) = x # calls es"
| "calls ((w, e) # es) = calls es"

definition events_of :: "nat \<Rightarrow> (nat \<times> event) list \<Rightarrow> event list" where
  "events_of w es = map snd (filter (\<lambda>e. fst e = w) es)"

text \<open>A worker's events are a sequence of calls, linearization points and returns that agree.\<close>

fun track_all :: "phase \<Rightarrow> event list \<Rightarrow> phase option" where
  "track_all ph [] = Some ph"
| "track_all ph (e # es) = (case track ph e of None \<Rightarrow> None | Some ph' \<Rightarrow> track_all ph' es)"

lemma track_all_append:
  "track_all ph (es @ es') = (case track_all ph es of None \<Rightarrow> None | Some ph' \<Rightarrow> track_all ph' es')"
  by (induction es arbitrary: ph) (auto split: option.splits)

lemma lins_append [simp]: "lins (es @ es') = lins es @ lins es'"
  by (induction es rule: lins.induct) simp_all

lemma calls_append [simp]: "calls (es @ es') = calls es @ calls es'"
  by (induction es rule: calls.induct) simp_all

lemma conc_run_history:
  assumes "conc_run s0 es s" "conc_inv s0"
  shows "run_spec spec_step (db_abs (cdb s0)) (map fst (lins es)) = (db_abs (cdb s), map snd (lins es))
    \<and> (\<forall>w. track_all (phase_of (procs s0 w)) (events_of w es) = Some (phase_of (procs s w)))"
  using assms
proof (induction rule: conc_run.induct)
  case (more s es s' e s'')
  obtain w a where e: "e = (w, a)" by (cases e)
  have inv: "conc_inv s'" using conc_run_inv [OF more.hyps(1)] more.prems by blast
  note tracked = conc_step_tracked [OF more.hyps(2) [unfolded e] inv]
  have "track_all (phase_of (procs s v)) (events_of v (es @ [e])) = Some (phase_of (procs s'' v))" for v
    using more.IH [OF more.prems] tracked(1,2) by (auto simp: events_of_def track_all_append e)
  moreover have "run_spec spec_step (db_abs (cdb s)) (map fst (lins (es @ [e]))) = (db_abs (cdb s''), map snd (lins (es @ [e])))"
    using more.IH [OF more.prems] tracked(3) run_spec_snoc [of spec_step "db_abs (cdb s)"]
    by (cases a) (auto simp: e)
  ultimately show ?case by blast
qed (simp add: events_of_def)

text \<open>The operations that are called and not yet linearized.\<close>

definition pending :: "nat \<Rightarrow> conc \<Rightarrow> account_op multiset" where
  "pending n s = (\<Sum>w<n. case phase_of (procs s w) of Called x \<Rightarrow> {#x#} | _ \<Rightarrow> {#})"

lemma sum_update_below:
  fixes f :: "nat \<Rightarrow> 'a :: comm_monoid_add"
  assumes "w < n" "\<And>v. v \<noteq> w \<Longrightarrow> g v = f v"
  shows "(\<Sum>v<n. g v) + f w = (\<Sum>v<n. f v) + g w"
proof -
  have "(\<Sum>v<n. h v) = h w + (\<Sum>v\<in>{..<n} - {w}. h v)" for h :: "nat \<Rightarrow> 'a"
    using assms(1) by (intro sum.remove) simp_all
  moreover have "(\<Sum>v\<in>{..<n} - {w}. g v) = (\<Sum>v\<in>{..<n} - {w}. f v)"
    using assms(2) by (intro sum.cong) auto
  ultimately show ?thesis by (simp add: ac_simps)
qed

lemma calls_pending:
  assumes "conc_run (conc_init d) es s" "db_wf d" "\<forall>(w, e)\<in>set es. w < n"
  shows "mset (calls es) = mset (map fst (lins es)) + pending n s"
proof -
  have "conc_run s0 es s \<Longrightarrow> s0 = conc_init d \<Longrightarrow> \<forall>(w, e)\<in>set es. w < n \<Longrightarrow> ?thesis" for s0
  proof (induction rule: conc_run.induct)
    case (start s)
    then show ?case by (simp add: pending_def conc_init_def)
  next
    case (more s es s' e s'')
    obtain w a where e: "e = (w, a)" by (cases e)
    have inv: "conc_inv s'" using conc_run_inv [OF more.hyps(1)] conc_init_inv [OF assms(2)] more.prems by blast
    note tracked = conc_step_tracked [OF more.hyps(2) [unfolded e] inv]
    let ?f = "\<lambda>s w. case phase_of (procs s w) of Called x \<Rightarrow> {#x#} | _ \<Rightarrow> {#}"
    have "pending n s'' + ?f s' w = pending n s' + ?f s'' w"
      unfolding pending_def using more.prems(2) tracked(2) by (intro sum_update_below) (auto simp: e)
    moreover have "mset (calls es) = mset (map fst (lins es)) + pending n s'"
      using more.IH more.prems by simp
    ultimately show ?case using tracked(1)
      by (cases a; cases "phase_of (procs s' w)"; cases "phase_of (procs s'' w)") (auto simp: e split: if_splits)
  qed
  then show ?thesis using assms by blast
qed

section \<open>Runs to the end\<close>

definition work_left :: "nat \<Rightarrow> conc \<Rightarrow> nat" where
  "work_left n s = (\<Sum>w<n. steps_left (procs s w))"

definition is_call :: "event \<Rightarrow> bool" where
  "is_call e \<longleftrightarrow> (\<exists>x. e = Call x)"

lemma advance_not_call: "advance p d = Ret (d', q, e) \<Longrightarrow> \<not> is_call e"
  using advance_tracked [of p d d' q e] by (cases e; cases p) (auto simp: is_call_def)

lemma go_uses_work:
  assumes "conc_inv s" "conc_step s (w, e) s'" "\<not> is_call e" "w < n"
  shows "work_left n s' < work_left n s"
proof -
  have "steps_left (procs s' w) < steps_left (procs s w)" "\<And>v. v \<noteq> w \<Longrightarrow> procs s' v = procs s v"
    using assms(2,3) advance_uses_a_step [OF conc_inv_view [OF assms(1)], of w]
    by (elim conc_step_cases; force simp: is_call_def)+
  then show ?thesis
    using sum_update_below [OF assms(4), of "\<lambda>v. steps_left (procs s' v)" "\<lambda>v. steps_left (procs s v)"]
    by (simp add: work_left_def)
qed

lemma conc_run_append: "conc_run s' es' s'' \<Longrightarrow> conc_run s es s' \<Longrightarrow> conc_run s (es @ es') s''"
  by (induction rule: conc_run.induct) (auto intro: more simp flip: append_assoc)

lemma can_finish:
  assumes "conc_inv s" "\<And>w. n \<le> w \<Longrightarrow> procs s w = Idle"
  shows "\<exists>es s'. conc_run s es s' \<and> (\<forall>(w, e)\<in>set es. \<not> is_call e \<and> w < n) \<and> (\<forall>w. procs s' w = Idle)"
  using assms
proof (induction "work_left n s" arbitrary: s rule: less_induct)
  case less
  show ?case
  proof (cases "\<exists>w. procs s w \<noteq> Idle")
    case True
    then obtain v d' q e where v: "procs s v \<noteq> Idle" "advance (procs s v) (cdb s) = Ret (d', q, e)"
      using some_worker_steps [OF less.prems(1)] by blast
    let ?s = "\<lparr>cdb = d', procs = (procs s)(v := q)\<rparr>"
    have step: "conc_step s (v, e) ?s" by (rule go [OF v])
    have n: "v < n" using v(1) less.prems(2) by (meson not_le)
    have e: "\<not> is_call e" by (rule advance_not_call [OF v(2)])
    have "work_left n ?s < work_left n s" by (rule go_uses_work [OF less.prems(1) step e n])
    moreover have "conc_inv ?s" by (rule conc_step_inv [OF step less.prems(1)])
    moreover have "procs ?s w = Idle" if "n \<le> w" for w using that n less.prems(2) by simp
    ultimately obtain es s' where es: "conc_run ?s es s'" "\<forall>(w, e)\<in>set es. \<not> is_call e \<and> w < n" "\<forall>w. procs s' w = Idle"
      using less.hyps [of ?s] by blast
    have "conc_run s ([(v, e)] @ es) s'"
      using conc_run_append [OF es(1) more [OF start step]] by simp
    then show ?thesis using es n e by (intro exI [of _ "[(v, e)] @ es"] exI [of _ s']) auto
  next
    case False
    then show ?thesis by (intro exI [of _ "[]"] exI [of _ s]) (auto intro: start)
  qed
qed

lemma runs_are_short:
  assumes "conc_run s es s'" "conc_inv s" "\<forall>(w, e)\<in>set es. \<not> is_call e \<and> w < n"
  shows "length es + work_left n s' \<le> work_left n s"
  using assms
proof (induction rule: conc_run.induct)
  case (more s es s' e s'')
  obtain w a where "e = (w, a)" by (cases e)
  then have "work_left n s'' < work_left n s'"
    using go_uses_work [of s' w a s'' n] conc_run_inv [OF more.hyps(1)] more by auto
  moreover have "length es + work_left n s' \<le> work_left n s" using more by auto
  ultimately show ?case by simp
qed simp

lemma steps_left_bound: "steps_left p \<le> 9"
  by (cases p) simp_all

lemma work_left_bound: "work_left n s \<le> 9 * n"
  using sum_bounded_above [of "{..<n}" "\<lambda>w. steps_left (procs s w)" 9] steps_left_bound
  by (simp add: work_left_def)

section \<open>Properties\<close>

text \<open>
  C12: mutual exclusion. However the workers interleave from a well-formed database, at most one of
  them is between locking and unlocking the database, at most one between locking and unlocking any
  one account, each mutex is held exactly while a worker is, and a balance that a worker has loaded is
  still the balance of that account: no update is lost.
\<close>

theorem locks_exclude:
  assumes "db_wf d" "conc_run (conc_init d) es s"
  shows "(holds_db (procs s v) \<longrightarrow> holds_db (procs s w) \<longrightarrow> v = w)
    \<and> (holds_acc (procs s v) = Some i \<longrightarrow> holds_acc (procs s w) = Some i \<longrightarrow> v = w)
    \<and> db_lock (cdb s) = Mutex True (\<exists>w. holds_db (procs s w))
    \<and> (i < MAX_ACCOUNTS \<longrightarrow> lock (accounts (cdb s) ! i) = Mutex True (\<exists>w. holds_acc (procs s w) = Some i))
    \<and> (procs s v = Loaded x i b \<longrightarrow> balance (accounts (cdb s) ! i) = b \<and> name_of (accounts (cdb s) ! i) = string_of (op_id x))"
proof -
  note inv = conc_run_inv [OF assms(2) conc_init_inv [OF assms(1)]]
  have "pc_ok (cdb s) (procs s v)" using inv by (simp add: conc_inv_def)
  then have "procs s v = Loaded x i b \<longrightarrow> balance (accounts (cdb s) ! i) = b \<and> name_of (accounts (cdb s) ! i) = string_of (op_id x)"
    by (auto simp: target_ok_def)
  then show ?thesis using inv unfolding conc_inv_def by blast
qed

text \<open>Two workers on the demo database: the first withdraws, the second waits for the lock.\<close>

lemma demo_run:
  "\<exists>s. conc_run (conc_init demo_db) [(0, Call (Query alice)), (1, Call (Query alice)), (0, Tau), (0, Tau)] s
     \<and> holds_db (procs s 0)"
proof -
  let ?q = "Query alice" and ?d = demo_db
  let ?s1 = "(conc_init ?d)\<lparr>procs := (procs (conc_init ?d))(0 := Start ?q)\<rparr>"
  let ?s2 = "?s1\<lparr>procs := (procs ?s1)(1 := Start ?q)\<rparr>"
  let ?s3 = "\<lparr>cdb = ?d, procs = (procs ?s2)(0 := Want_Db ?q)\<rparr>"
  let ?s4 = "\<lparr>cdb = ?d\<lparr>db_lock := Mutex True True\<rparr>, procs = (procs ?s3)(0 := In_Db ?q)\<rparr>"
  have valid: "valid_op ?q" by (simp add: valid_op_def)
  have s1: "conc_step (conc_init ?d) (0, Call ?q) ?s1" by (rule call) (simp_all add: conc_init_def valid)
  have s2: "conc_step ?s1 (1, Call ?q) ?s2" by (rule call) (simp_all add: conc_init_def valid)
  have s3: "conc_step ?s2 (0, Tau) ?s3" by (rule go) (simp_all add: conc_init_def)
  have s4: "conc_step ?s3 (0, Tau) ?s4" by (rule go) (simp_all add: conc_init_def lock_db_wf)
  have "conc_run (conc_init ?d) [(0, Call ?q), (1, Call ?q), (0, Tau), (0, Tau)] ?s4"
    using more [OF more [OF more [OF more [OF start s1] s2] s3] s4] unfolding append.simps .
  moreover have "holds_db (procs ?s4 0)" by simp
  ultimately show ?thesis by blast
qed

theorem locks_exclude_witness:
  "\<exists>s. conc_run (conc_init demo_db) [(0, Call (Query alice)), (1, Call (Query alice)), (0, Tau), (0, Tau)] s
     \<and> holds_db (procs s 0) \<and> \<not> holds_db (procs s 1) \<and> db_lock (cdb s) = Mutex True True"
proof -
  obtain s where s: "conc_run (conc_init demo_db) [(0, Call (Query alice)), (1, Call (Query alice)), (0, Tau), (0, Tau)] s"
    "holds_db (procs s 0)" using demo_run by blast
  have "(\<exists>w. holds_db (procs s w)) = True" using s(2) by blast
  with locks_exclude [OF demo_db_wf s(1), of 0 1] s(2)
  have "\<not> holds_db (procs s 1)" "db_lock (cdb s) = Mutex True True" by simp_all
  with s show ?thesis by blast
qed

text \<open>
  C5: the operations are atomic. Of every interleaving of any number of workers, the events marked
  \<open>Lin\<close>, taken in order, are a sequential run of the specification that starts at the bank of the
  initial database, gives each operation the result it returns, and ends at the bank of the database
  reached; and each worker's events are calls, each followed by its \<open>Lin\<close> and its return with the
  same operation and result. So every operation takes effect at one moment between call and return.
\<close>

theorem operations_are_linearizable:
  assumes "db_wf d" "conc_run (conc_init d) es s"
  shows "run_spec spec_step (db_abs d) (map fst (lins es)) = (db_abs (cdb s), map snd (lins es))
    \<and> (\<forall>w. track_all Out (events_of w es) = Some (phase_of (procs s w)))"
  using conc_run_history [OF assms(2) conc_init_inv [OF assms(1)]] by (simp add: conc_init_def)

theorem operations_are_linearizable_witness:
  "\<exists>s. conc_run (conc_init demo_db) [(0, Call (Query alice)), (1, Call (Query alice)), (0, Tau), (0, Tau)] s
     \<and> db_abs (cdb s) = [chars ''alice'' \<mapsto> f64_of_nat 1000] \<and> phase_of (procs s 1) = Called (Query alice)"
proof -
  obtain s where s: "conc_run (conc_init demo_db) [(0, Call (Query alice)), (1, Call (Query alice)), (0, Tau), (0, Tau)] s"
    using demo_run by blast
  from operations_are_linearizable [OF demo_db_wf s] have "db_abs (cdb s) = [chars ''alice'' \<mapsto> f64_of_nat 1000]"
    "track_all Out (events_of 1 [(0, Call (Query alice)), (1, Call (Query alice)), (0, Tau), (0, Tau)]) = Some (phase_of (procs s 1))"
    by auto
  then show ?thesis using s by (auto simp: events_of_def)
qed

text \<open>
  C15: the locks cannot deadlock. From every state that \<open>n\<close> workers reach, the operations in progress
  can all be brought to their return without any new call; no run without new calls is longer than
  nine steps for each worker; and where no worker can step, none is inside an operation.
\<close>

theorem locking_is_deadlock_free:
  assumes "db_wf d" "conc_run (conc_init d) es s" "\<forall>(w, e)\<in>set es. w < n"
  shows "(\<exists>es' s'. conc_run s es' s' \<and> (\<forall>(w, e)\<in>set es'. \<not> is_call e \<and> w < n) \<and> (\<forall>w. procs s' w = Idle))
    \<and> (\<forall>es' s'. conc_run s es' s' \<longrightarrow> (\<forall>(w, e)\<in>set es'. \<not> is_call e \<and> w < n) \<longrightarrow> length es' \<le> 9 * n)
    \<and> ((\<exists>w. procs s w \<noteq> Idle) \<longrightarrow> (\<exists>w e s'. conc_step s (w, e) s' \<and> \<not> is_call e))"
proof -
  note inv = conc_run_inv [OF assms(2) conc_init_inv [OF assms(1)]]
  have idle: "procs s w = Idle" if "n \<le> w" for w
  proof -
    have "events_of w es = []" using assms(3) that by (auto simp: events_of_def filter_empty_conv)
    then have "phase_of (procs s w) = Out"
      using conc_run_history [OF assms(2) conc_init_inv [OF assms(1)]] by (auto simp: conc_init_def dest: spec [of _ w])
    then show ?thesis by (cases "procs s w") simp_all
  qed
  have "length es' \<le> 9 * n" if "conc_run s es' s'" "\<forall>(w, e)\<in>set es'. \<not> is_call e \<and> w < n" for es' s'
    using runs_are_short [OF that(1) inv that(2)] work_left_bound [of n s] by linarith
  moreover have "\<exists>w e s'. conc_step s (w, e) s' \<and> \<not> is_call e" if "procs s w \<noteq> Idle" for w
    using some_worker_steps [OF inv that] go advance_not_call by blast
  ultimately show ?thesis using can_finish [OF inv idle] by blast
qed

theorem locking_is_deadlock_free_witness:
  "\<exists>s es' s'. conc_run (conc_init demo_db) [(0, Call (Query alice)), (1, Call (Query alice)), (0, Tau), (0, Tau)] s
     \<and> conc_run s es' s' \<and> (\<forall>w. procs s' w = Idle)"
proof -
  obtain s where s: "conc_run (conc_init demo_db) [(0, Call (Query alice)), (1, Call (Query alice)), (0, Tau), (0, Tau)] s"
    using demo_run by blast
  from locking_is_deadlock_free [OF demo_db_wf s, of 2] s show ?thesis by auto
qed

lemma map_permuted: "mset (map f ks) = mset ys \<Longrightarrow> \<exists>ks'. mset ks' = mset ks \<and> map f ks' = ys"
proof (induction ys arbitrary: ks)
  case (Cons y ys)
  then have "y \<in> set (map f ks)" by (metis list.set_intros(1) mset_eq_setD)
  then obtain k where k: "k \<in> set ks" "f k = y" by auto
  have "mset (map f (remove1 k ks)) = mset ys"
    using Cons.prems k by (simp add: image_mset_Diff)
  then obtain ks' where "mset ks' = mset (remove1 k ks)" "map f ks' = ys" using Cons.IH by blast
  then show ?case using k by (intro exI [of _ "k # ks'"]) simp
qed simp

lemma deposits_sum:
  assumes "m (string_of a) = Some (f64_of_nat b)" "\<forall>k\<in>set ks. 0 < k" "b + sum_list ks < 2 ^ 53"
  shows "fst (run_spec spec_step m (map (\<lambda>k. Deposit a (f64_of_nat k)) ks)) (string_of a) = Some (f64_of_nat (b + sum_list ks))"
  using assms
proof (induction ks arbitrary: m b)
  case (Cons k ks)
  have "\<not> f64_le (f64_of_nat k) 0" using Cons.prems f64_of_nat_le [of k 0] by simp
  moreover have "f64_add (f64_of_nat b) (f64_of_nat k) = f64_of_nat (b + k)"
    using Cons.prems by (intro f64_of_nat_add) simp_all
  then have step: "spec_step m (Deposit a (f64_of_nat k)) =
      (m(string_of a \<mapsto> f64_of_nat (b + k)), 0, Some (f64_of_nat (b + k)))"
    using Cons.prems(1) calculation by simp
  have "fst (run_spec spec_step (m(string_of a \<mapsto> f64_of_nat (b + k))) (map (\<lambda>k. Deposit a (f64_of_nat k)) ks)) (string_of a)
      = Some (f64_of_nat (b + k + sum_list ks))"
    using Cons.prems by (intro Cons.IH) simp_all
  then show ?case by (simp add: step split_def Let_def add.assoc del: spec_step.simps fun_upd_apply)
qed simp

text \<open>
  C21: concurrent deposits add up. When any number of workers, in any interleaving, run deposits of
  positive whole amounts to one account whose balance at the start is a whole number, all of them have
  returned, and the old balance and the amounts together are below \<open>2 ^ 53\<close>, where doubles are exact, the
  balance is the old one plus the sum of the amounts: none is lost.
\<close>

theorem concurrent_deposits_add_up:
  assumes "db_wf d" "conc_run (conc_init d) es s" "\<forall>(w, e)\<in>set es. w < n" "\<forall>w. procs s w = Idle"
    and "calls es = map (\<lambda>k. Deposit a (f64_of_nat k)) ks" "\<forall>k\<in>set ks. 0 < k"
    and "db_abs d (string_of a) = Some (f64_of_nat b)" "b + sum_list ks < 2 ^ 53"
  shows "db_abs (cdb s) (string_of a) = Some (f64_of_nat (b + sum_list ks))"
proof -
  have "pending n s = {#}" using assms(4) by (simp add: pending_def)
  then have "mset (map (\<lambda>k. Deposit a (f64_of_nat k)) ks) = mset (map fst (lins es))"
    using calls_pending [OF assms(2,1,3)] assms(5) by simp
  then obtain ks' where ks': "mset ks' = mset ks" "map (\<lambda>k. Deposit a (f64_of_nat k)) ks' = map fst (lins es)"
    using map_permuted by blast
  have "sum_list ks' = sum_list ks" "set ks' = set ks"
    using ks'(1) by (metis sum_mset_sum_list, metis mset_eq_setD)
  then have "fst (run_spec spec_step (db_abs d) (map fst (lins es))) (string_of a) = Some (f64_of_nat (b + sum_list ks))"
    using deposits_sum [of "db_abs d" a b ks'] assms(6-8) ks'(2) by simp
  then show ?thesis
    using conc_run_history [OF assms(2) conc_init_inv [OF assms(1)]] by (simp add: conc_init_def)
qed

theorem concurrent_deposits_add_up_witness:
  "\<exists>es s. conc_run (conc_init demo_db) es s \<and> calls es = [Deposit alice (f64_of_nat 5), Deposit alice (f64_of_nat 7)]
     \<and> db_abs (cdb s) (chars ''alice'') = Some (f64_of_nat 1012)"
proof -
  let ?x = "Deposit alice (f64_of_nat 5)" and ?y = "Deposit alice (f64_of_nat 7)"
  let ?s1 = "(conc_init demo_db)\<lparr>procs := (procs (conc_init demo_db))(0 := Start ?x)\<rparr>"
  let ?s2 = "?s1\<lparr>procs := (procs ?s1)(1 := Start ?y)\<rparr>"
  have "valid_op ?x" "valid_op ?y" by (simp_all add: valid_op_def)
  then have s1: "conc_step (conc_init demo_db) (0, Call ?x) ?s1" and s2: "conc_step ?s1 (1, Call ?y) ?s2"
    by (intro call; simp add: conc_init_def)+
  have both: "conc_run (conc_init demo_db) [(0, Call ?x), (1, Call ?y)] ?s2"
    using more [OF more [OF start s1] s2] unfolding append.simps .
  have "conc_inv ?s2" by (rule conc_run_inv [OF both conc_init_inv]) simp
  moreover have "procs ?s2 w = Idle" if "2 \<le> w" for w using that by (simp add: conc_init_def)
  ultimately obtain es s where es: "conc_run ?s2 es s" "\<forall>(w, e)\<in>set es. \<not> is_call e \<and> w < 2" "\<forall>w. procs s w = Idle"
    using can_finish by blast
  have run: "conc_run (conc_init demo_db) ([(0, Call ?x), (1, Call ?y)] @ es) s" by (rule conc_run_append [OF es(1) both])
  have "calls es = []" using es(2) by (induction es rule: calls.induct) (auto simp: is_call_def)
  then have called: "calls ([(0, Call ?x), (1, Call ?y)] @ es) = map (\<lambda>k. Deposit alice (f64_of_nat k)) [5, 7]" by simp
  have "db_abs (cdb s) (string_of alice) = Some (f64_of_nat (1000 + sum_list [5, 7]))"
    by (rule concurrent_deposits_add_up [OF demo_db_wf run _ es(3) called, where n = 2]) (use es(2) in auto)
  then show ?thesis using run called by (intro exI [of _ "[(0, Call ?x), (1, Call ?y)] @ es"] exI [of _ s]) simp
qed

end
