(* ===== verification/Server_Shutdown.thy ===== *)
theory Server_Shutdown
  imports Server_Master Account_Concurrency
begin

text \<open>
  The shutdown of the server while its workers are at work: the master of theory \<open>Server_Master\<close> and the
  workers of theory \<open>Account_Concurrency\<close>, which share the database.

  \<open>SIGTERM\<close> ends a worker at whatever step it is (its handler calls \<open>exit\<close>), so what the master
  cleans up is the database of any state the workers reach.

  Lemmas: \<open>cleanup_busy\<close>, what \<open>account_cleanup\<close> does in such a state.
\<close>

definition busy :: "pc \<Rightarrow> bool" where
  "busy p \<longleftrightarrow> holds_db p \<or> holds_acc p \<noteq> None"

lemma destroy_locks_held:
  "\<forall>a\<in>set as. \<exists>h. lock a = Mutex True h \<Longrightarrow> \<exists>a\<in>set as. lock a \<noteq> Mutex True False \<Longrightarrow>
     destroy_locks as = Fault Bad_Mutex"
proof (induction as)
  case (Cons a as)
  then obtain h where h: "lock a = Mutex True h" by auto
  show ?case
  proof (cases h)
    case False
    then have "\<exists>a\<in>set as. lock a \<noteq> Mutex True False" using Cons.prems(2) h by auto
    then show ?thesis using Cons h False by simp
  qed (simp add: h)
qed simp

lemma held_account_exists:
  assumes "conc_inv s" "holds_acc (procs s w) = Some i"
  shows "i < MAX_ACCOUNTS"
proof -
  have ok: "pc_ok (cdb s) (procs s w)" "db_shape (cdb s)" using assms(1) by (simp_all add: conc_inv_def)
  then have "i < account_count (cdb s)"
    using assms(2) by (cases "procs s w") (auto simp: target_ok_def)
  then show ?thesis using ok(2) by (simp add: db_shape_def)
qed

lemma cleanup_busy:
  assumes "conc_inv s"
  shows "if \<exists>w. busy (procs s w) then account_cleanup (Some (cdb s)) = Fault Bad_Mutex
    else \<exists>d'. account_cleanup (Some (cdb s)) = Ret (Some d')"
proof -
  have locks: "db_lock (cdb s) = Mutex True (\<exists>w. holds_db (procs s w))"
    "\<forall>i<MAX_ACCOUNTS. lock (accounts (cdb s) ! i) = Mutex True (\<exists>w. holds_acc (procs s w) = Some i)"
    "length (accounts (cdb s)) = MAX_ACCOUNTS"
    using assms by (simp_all add: conc_inv_def db_shape_def)
  then have each: "\<forall>a\<in>set (accounts (cdb s)). \<exists>h. lock a = Mutex True h" by (auto simp: in_set_conv_nth)
  consider (db) w where "holds_db (procs s w)" | (acc) w i where "holds_acc (procs s w) = Some i" "\<forall>w. \<not> holds_db (procs s w)"
    | (none) "\<forall>w. \<not> holds_db (procs s w)" "\<forall>w. holds_acc (procs s w) = None"
    by (metis not_None_eq)
  then show ?thesis
  proof cases
    case db
    then have "\<exists>w. busy (procs s w)" by (auto simp: busy_def)
    moreover have "db_lock (cdb s) = Mutex True True" using db unfolding locks(1) by blast
    then have "account_cleanup (Some (cdb s)) = Fault Bad_Mutex" by (simp add: account_cleanup_def)
    ultimately show ?thesis by (rule if_P [THEN iffD2])
  next
    case acc
    then have i: "i < MAX_ACCOUNTS" using held_account_exists [OF assms] by blast
    then have "lock (accounts (cdb s) ! i) = Mutex True True" using acc(1) locks(2) by auto
    then have "\<exists>a\<in>set (accounts (cdb s)). lock a \<noteq> Mutex True False"
      using i locks(3) by (intro bexI [of _ "accounts (cdb s) ! i"]) simp_all
    moreover have "\<exists>w. busy (procs s w)" using acc(1) by (auto simp: busy_def)
    moreover have "db_lock (cdb s) = Mutex True False" using acc(2) unfolding locks(1) by blast
    ultimately show ?thesis using destroy_locks_held [OF each] by (simp add: account_cleanup_def)
  next
    case none
    then have "\<forall>a\<in>set (accounts (cdb s)). lock a = Mutex True False" using locks(2,3) by (auto simp: in_set_conv_nth)
    moreover have "db_lock (cdb s) = Mutex True False" using none(1) unfolding locks(1) by blast
    ultimately show ?thesis using none by (simp add: account_cleanup_def destroy_locks_free busy_def)
  qed
qed

text \<open>
  C18: a shutdown is clean exactly when it interrupts no transaction. Let the workers be in any state they
  reach from the empty bank when the master leaves its loop, each still attached or ended and waited for.
  If none of them is between taking a lock of the database and releasing it, the master signals and waits
  for each, and gives everything back, the segment included. If one of them is, its lock stays held after
  its death, and the master's cleanup destroys a mutex that is locked, which is undefined. Where all run
  and none ends by itself meanwhile, they are waited for in the order of the array.
\<close>

theorem shutdown_interrupts_transactions:
  assumes "conc_run (conc_init init_db) es s" "workers_inv k seg (cdb s) m" "holds m"
    and "db c = At seg" "shm_id c = int seg" "\<not> keep_running m" "termed m = []"
  shows "if \<exists>w. busy (procs s w) then shutdown_server env seg c m = Fault Bad_Mutex
    else \<exists>m'. shutdown_server env seg c m = Ret (Stopped m') \<and> clean k seg m'
      \<and> mset (reaped m') = mset (forked (worker_pids m)) \<and> alive m' = [] \<and> termed m' = forked (worker_pids m)
      \<and> ((\<forall>pt. exits env pt = []) \<and> alive m = forked (worker_pids m) \<longrightarrow> reaped m' = reaped m @ forked (worker_pids m))"
proof -
  have "db_wf init_db" using account_init_wf [OF account_init_eq] by simp
  then have inv: "conc_inv s" using conc_run_inv [OF assms(1) conc_init_inv] by blast
  note runs = shutdown_runs [OF assms(3,2,4-7), of env]
  show ?thesis
  proof (cases "\<exists>w. busy (procs s w)")
    case True
    then have "account_cleanup (Some (cdb s)) = Fault Bad_Mutex" using cleanup_busy [OF inv] by simp
    then show ?thesis using runs True by simp
  next
    case False
    then obtain d' where "account_cleanup (Some (cdb s)) = Ret (Some d')" using cleanup_busy [OF inv] by auto
    then show ?thesis using runs False by auto
  qed
qed

text \<open>A master with one worker, the segment of number 8 and nothing else to give back.\<close>

definition demo_master :: "AccountDB \<Rightarrow> Master" where
  "demo_master d = \<lparr>keep_running = False, server_fd = -1, ssl_ctx = None, worker_pids = [100, 0, 0, 0, 0], did = [],
     shm = \<lparr>by_key = Some 8, segs = [8 \<mapsto> \<lparr>content = d, nattch = 2\<rparr>]\<rparr>, alive = [100], zombies = [], termed = [], reaped = []\<rparr>"

lemma demo_master_facts:
  "workers_inv \<lparr>by_key = None, segs = \<lambda>i. None\<rparr> 8 d (demo_master d)"
  "holds (demo_master d)" "\<not> keep_running (demo_master d)" "termed (demo_master d) = []"
  by (simp_all add: demo_master_def workers_inv_def attached_def holds_def)

text \<open>Nothing happens while the master stops.\<close>

definition quiet_env :: MasterEnv where
  "quiet_env = \<lparr>lib = demo_ssl, ipc = demo_ipc, socket_result = 3, bind_result = \<lambda>p. 0, listen_result = 0,
     fork_result = \<lambda>i. 100 + int i, interrupts = \<lambda>p. False, exits = \<lambda>p. [], waits = [], served = \<lambda>d. d\<rparr>"

theorem shutdown_interrupts_transactions_witness:
  "(\<exists>m'. shutdown_server quiet_env 8 (zero_ctx\<lparr>shm_id := 8, db := At 8\<rparr>) (demo_master init_db) = Ret (Stopped m') \<and> reaped m' = [100])
    \<and> (\<exists>es s. conc_run (conc_init init_db) es s \<and> procs s 0 = In_Db (Query alice)
        \<and> shutdown_server quiet_env 8 (zero_ctx\<lparr>shm_id := 8, db := At 8\<rparr>) (demo_master (cdb s)) = Fault Bad_Mutex)"
proof
  note shutdown = shutdown_interrupts_transactions [OF _ demo_master_facts(1) demo_master_facts(2) _ _ demo_master_facts(3,4), where env = quiet_env]
  have "cdb (conc_init init_db) = init_db" "\<not> (\<exists>w. busy (procs (conc_init init_db) w))"
    by (simp_all add: conc_init_def busy_def)
  then show "\<exists>m'. shutdown_server quiet_env 8 (zero_ctx\<lparr>shm_id := 8, db := At 8\<rparr>) (demo_master init_db) = Ret (Stopped m') \<and> reaped m' = [100]"
    using shutdown [OF start, of "zero_ctx\<lparr>shm_id := 8, db := At 8\<rparr>"] by (auto simp: demo_master_def quiet_env_def)
  let ?x = "Query alice"
  define s1 where "s1 = (conc_init init_db)\<lparr>procs := (procs (conc_init init_db))(0 := Start ?x)\<rparr>"
  define s2 where "s2 = s1\<lparr>procs := (procs s1)(0 := Want_Db ?x)\<rparr>"
  define s3 where "s3 = \<lparr>cdb = init_db\<lparr>db_lock := Mutex True True\<rparr>, procs = (procs s2)(0 := In_Db ?x)\<rparr>"
  have "conc_step (conc_init init_db) (0, Call ?x) s1"
    unfolding s1_def by (rule call) (simp_all add: conc_init_def valid_op_def)
  moreover have "conc_step s1 (0, Tau) s2"
    using go [of s1 0 "cdb s1" "Want_Db ?x" Tau] by (simp add: s1_def s2_def conc_init_def)
  moreover have "conc_step s2 (0, Tau) s3"
    using go [of s2 0 "cdb s3" "In_Db ?x" Tau] by (simp add: s1_def s2_def s3_def conc_init_def lock_db_def init_db_def)
  ultimately have run: "conc_run (conc_init init_db) ([] @ [(0, Call ?x)] @ [(0, Tau)] @ [(0, Tau)]) s3"
    using more [OF more [OF more [OF start]]] by simp
  have "busy (procs s3 0)" by (simp add: s3_def busy_def)
  then have "shutdown_server quiet_env 8 (zero_ctx\<lparr>shm_id := 8, db := At 8\<rparr>) (demo_master (cdb s3)) = Fault Bad_Mutex"
    using shutdown [OF run, of "zero_ctx\<lparr>shm_id := 8, db := At 8\<rparr>"]
    by (simp only: exI [of "\<lambda>w. busy (procs s3 w)" 0] if_True) simp
  then show "\<exists>es s. conc_run (conc_init init_db) es s \<and> procs s 0 = In_Db ?x
      \<and> shutdown_server quiet_env 8 (zero_ctx\<lparr>shm_id := 8, db := At 8\<rparr>) (demo_master (cdb s)) = Fault Bad_Mutex"
    using run by (intro exI conjI) (assumption, simp add: s3_def)
qed

end
