(* ===== verification/Spec2Isabelle.thy ===== *)
theory Spec2Isabelle
  imports Stress_Client Core_Stress Server_Shutdown
begin

text \<open>
  A banking system in C: a pre-forking TLS server that keeps accounts in shared memory, a one-time
  password server behind it, an interactive client, and two load generators. This development models
  all of it that is not OpenSSL or the kernel, and proves what each part does and where it fails.

  \<^bold>\<open>The program.\<close> \<open>server/banking_server.c\<close> starts as a master process, which makes the shared memory
  (\<open>common/src/ipc.c\<close>), opens the socket and forks five workers. A worker accepts a client, does the TLS
  handshake (\<open>common/src/tls_wrapper.c\<close>) and answers packets (\<open>common/src/protocol.c\<close>, \<open>crypto.c\<close>) by operations
  on the accounts (\<open>common/src/account.c\<close>), under the mutexes of the shared database; requests and checks of
  one-time passwords it forwards over a local socket to \<open>otp_server/otp_server.c\<close>. \<open>client/banking_client.c\<close> is
  the interactive client, \<open>stress_test/stress_client.c\<close> a load generator over the same protocol.
  \<open>client/src/client_core.c\<close>, \<open>stress_test.c\<close> and \<open>main.c\<close> are a second client with a framing of its own.

  \<^bold>\<open>How it is modelled.\<close> A C function is a HOL function with the state it changes passed and returned. Its
  result is a \<open>run\<close>: \<open>Ret\<close>, or \<open>Fault\<close> where the C execution leaves defined behaviour or can never go on
  (reading or writing outside an object, misuse of a mutex, a null pointer, signed overflow). An object
  in memory is the list of its bytes; what is uninitialised is an argument. Unsigned integers are words;
  an \<open>int\<close> or \<open>long\<close> is an integer whose sums and products are checked where they can grow (\<open>int_result\<close>,
  \<open>long_result\<close>: the counters and totals of the load generators). \<open>double\<close> is IEEE binary64 by its bits. What the kernel, OpenSSL, \<open>rand ()\<close> and the clock answer is an argument too, and
  calls into OpenSSL and on sockets are recorded as a list of \<open>call\<close>s. Processes and threads that
  share state are step relations over all interleavings.

  \<^bold>\<open>The theories.\<close>
  \<^item> \<open>Prelude\<close>: machine types, \<open>run\<close>, checked arithmetic, byte images and byte order, and the contract \<open>implements\<close> between a
    step function and its specification.
  \<^item> \<open>C_Memory\<close>, \<open>C_Input\<close>: the string functions, \<open>snprintf\<close>, \<open>scanf\<close> and \<open>atoi\<close> as the code uses them.
  \<^item> \<open>Ieee_Double\<close>: addition, subtraction, multiplication, division, comparison and \<open>%.2f\<close> of doubles, with
    correct rounding proved for the sum.
  \<^item> \<open>Protocol\<close>: \<open>crypto.c\<close>, \<open>protocol.h\<close>, \<open>protocol.c\<close>. Round trips of packets, which lengths are safe, which
    damage the checksum detects. The contract of a payload struct is \<open>wire_struct\<close>, kept by all seven.
  \<^item> \<open>Account\<close>: \<open>account.c\<close>. The database refines a map from names to balances (\<open>spec_step\<close>); the contract is
    \<open>implements\<close>, and histories of operations are read off the specification.
  \<^item> \<open>Account_Concurrency\<close>: the same operations cut at their lock calls and run by any number of processes.
    The invariant \<open>conc_inv\<close> gives mutual exclusion; linearizability, absence of deadlock and of lost updates.
  \<^item> \<open>Shared_Memory\<close>: \<open>ipc.c\<close> over the kernel's segments.
  \<^item> \<open>Otp_Server\<close>: \<open>otp_server.c\<close>, refining a table of slots; what its ignored expiry and its search for a free
    slot lead to.
  \<^item> \<open>Banking_Server\<close>: \<open>call_otp_service\<close>, \<open>process_request\<close> and \<open>worker_main\<close>: answers to well-formed packets,
    to refused ones, and the safety of arbitrary bytes (\<open>guarded\<close>).
  \<^item> \<open>Two_Servers\<close>: a worker with the one-time password server behind it.
  \<^item> \<open>Tls_Wrapper\<close>: \<open>tls_wrapper.c\<close> as the calls it makes, and what a process holds (\<open>live\<close>).
  \<^item> \<open>Server_Master\<close>: \<open>main\<close> of the server, its failure paths, both signal handlers, fork, the wait loop and the
    shutdown; \<open>workers_inv\<close> says where every worker is.
  \<^item> \<open>Server_Shutdown\<close>: the shutdown while workers are inside the operations of \<open>Account_Concurrency\<close>.
  \<^item> \<open>Banking_Client\<close>: the interactive client from its keyboard to its screen over the connection to a
    worker (\<open>bank_conn\<close>). The contract \<open>teller\<close> says what a request function promises its callers.
  \<^item> \<open>Stress_Client\<close>: the load generator, which keeps \<open>teller\<close> as well; its flows through three programs.
  \<^item> \<open>Client_Core\<close>, \<open>Core_Stress\<close>: the second client, what the server makes of its frames, and its stress
    test: the code of a thread, and the threads with their barrier as steps that run that code
    (\<open>arena_step\<close>), in any order, over a world they share.

  \<^bold>\<open>Bounds and fuel.\<close> Only \<open>client_loop\<close> has fuel: each step of the menu uses one unit, and
  \<open>client_session_is_served\<close> shows that one more than the number of entries is enough; that no amount is
  enough at the end of the input is \<open>end_of_input_is_never_noticed\<close>. The skipping of a line in it is bounded by
  the same fuel. All other loops recurse on a list (of bytes, reads, events, flows) or on a number the
  code counts down. Loops that serve for ever are run over the list of what arrives.

  \<^bold>\<open>What the theorems rely on.\<close> OpenSSL and the kernel hand out objects that are not in use; a read delivers
  no more than was asked for; \<open>fork\<close> returns no zero to the parent; command line arguments are strings; a
  segment under the key that exists before belongs to the server. Each is a hypothesis where it is
  used. A packet written by a client arrives in one read if it is not longer than a packet, as OpenSSL
  delivers a record.

  \<^bold>\<open>Not modelled.\<close> The text the servers and the load generators print, except where it reads a string that
  may not be one; hexadecimal floats in \<open>scanf\<close>; opening the listening socket of the one-time password
  server; \<open>exit\<close> inside a signal handler beyond its ending the process; the failure of \<open>malloc\<close> in the load
  generators, and differences of clock readings that do not fit a \<open>long\<close>. A step of a thread of the core
  stress test is a whole request and response, or all of a thread before the barrier; what other threads
  do in between is part of what its peer answers.
\<close>

end
